(* ===== verification/Skill_Prelude.thy ===== *)
theory Skill_Prelude
  imports Main "HOL-Library.Word" "HOL-Library.Sublist"
begin

text \<open>
  The vocabulary every component shares: C strings and the functions of the C library
  that the module calls on them.

  A NUL-terminated C string is the \<open>string\<close> of the bytes before its terminator; a pointer
  that may be NULL is a \<open>string option\<close>; a pointer into a string is the suffix it points
  to, or an index. Reading the byte at the terminator gives NUL (\<open>c_at\<close>). Character
  classes are those of the C locale, which the module never changes.
\<close>

section \<open>Characters\<close>

abbreviation nul :: char where "nul \<equiv> CHR 0x00"
abbreviation nl :: char where "nl \<equiv> CHR 0x0A"
abbreviation cr :: char where "cr \<equiv> CHR 0x0D"
abbreviation tab :: char where "tab \<equiv> CHR 0x09"

text \<open>Hints shared by the component proofs.\<close>

named_theorems c_chars \<comment> \<open>definitions of the character classes\<close>
named_theorems c_text \<comment> \<open>facts on scans and searches of strings\<close>

definition ord :: "char \<Rightarrow> nat" where
  "ord c = of_char c"

definition c_isspace :: "char \<Rightarrow> bool" where [c_chars]:
  "c_isspace c \<longleftrightarrow> ord c = 32 \<or> (9 \<le> ord c \<and> ord c \<le> 13)"

definition c_isdigit :: "char \<Rightarrow> bool" where [c_chars]:
  "c_isdigit c \<longleftrightarrow> 48 \<le> ord c \<and> ord c \<le> 57"

definition c_islower :: "char \<Rightarrow> bool" where [c_chars]:
  "c_islower c \<longleftrightarrow> 97 \<le> ord c \<and> ord c \<le> 122"

definition c_isupper :: "char \<Rightarrow> bool" where [c_chars]:
  "c_isupper c \<longleftrightarrow> 65 \<le> ord c \<and> ord c \<le> 90"

definition c_isalnum :: "char \<Rightarrow> bool" where [c_chars]:
  "c_isalnum c \<longleftrightarrow> c_islower c \<or> c_isupper c \<or> c_isdigit c"

definition c_tolower :: "char \<Rightarrow> char" where
  "c_tolower c = (if c_isupper c then char_of (ord c + 32) else c)"

lemma ord_less [simp]: "ord c < 256"
proof -
  have "of_char c mod 256 < (256 :: nat)" by (rule mod_less_divisor) simp
  then show ?thesis by (simp add: ord_def)
qed

lemma ord_inject [simp]: "ord c = ord d \<longleftrightarrow> c = d"
  by (simp add: ord_def)

lemma char_of_ord [simp]: "char_of (ord c) = c"
  by (simp add: ord_def)

lemma ord_char_of [simp]: "n < 256 \<Longrightarrow> ord (char_of n) = n"
  by (simp add: ord_def)

lemma ord_zero_iff: "ord c = 0 \<longleftrightarrow> c = nul"
proof -
  have "ord nul = 0" by (simp add: ord_def)
  then show ?thesis by (metis ord_inject)
qed

lemma c_isspace_nul [simp]: "\<not> c_isspace nul"
  by (simp add: c_chars ord_def)

lemma c_isspace_nl [simp]: "c_isspace nl"
  by (simp add: c_chars ord_def)

lemma c_isalnum_not_space: "c_isalnum c \<Longrightarrow> \<not> c_isspace c"
  by (auto simp: c_chars)

lemma ord_c_tolower: "ord (c_tolower c) = (if c_isupper c then ord c + 32 else ord c)"
  by (simp add: c_tolower_def c_isupper_def)

lemma c_tolower_eq: "c_tolower c = c_tolower d \<longleftrightarrow> ord (c_tolower c) = ord (c_tolower d)"
  by simp

section \<open>Strings in memory\<close>

definition c_at :: "string \<Rightarrow> nat \<Rightarrow> char" where
  "c_at s i = (if i < length s then s ! i else nul)"

text \<open>A C string holds no NUL before its terminator.\<close>

definition cstr :: "string \<Rightarrow> bool" where
  "cstr s \<longleftrightarrow> nul \<notin> set s"

lemma cstr_Nil [simp]: "cstr []"
  by (simp add: cstr_def)

lemma cstr_Cons [simp]: "cstr (c # s) \<longleftrightarrow> c \<noteq> nul \<and> cstr s"
  by (auto simp: cstr_def)

lemma cstr_append [simp]: "cstr (s @ t) \<longleftrightarrow> cstr s \<and> cstr t"
  by (auto simp: cstr_def)

lemma cstr_take [intro, simp]: "cstr s \<Longrightarrow> cstr (take n s)"
  by (auto simp: cstr_def dest: in_set_takeD)

lemma cstr_drop [intro, simp]: "cstr s \<Longrightarrow> cstr (drop n s)"
  by (auto simp: cstr_def dest: in_set_dropD)

lemma c_at_0: "cstr t \<Longrightarrow> c_at t 0 = nul \<longleftrightarrow> t = []"
  by (cases t) (auto simp: c_at_def)

text \<open>
  \<open>snprintf(buf, size, "%s", s)\<close> for a size above 0: the buffer then holds at most
  \<open>size - 1\<close> bytes of \<open>s\<close>.
\<close>

definition c_buf :: "nat \<Rightarrow> string \<Rightarrow> string" where
  "c_buf n s = take (n - 1) s"

lemma c_buf_fits [simp]: "length s < n \<Longrightarrow> c_buf n s = s"
  by (simp add: c_buf_def)

lemma length_c_buf: "0 < n \<Longrightarrow> length (c_buf n s) < n"
  by (auto simp: c_buf_def min_def)

lemma cstr_c_buf [intro, simp]: "cstr s \<Longrightarrow> cstr (c_buf n s)"
  by (simp add: c_buf_def)

text \<open>Two ways to split the same text.\<close>

lemma append_cases:
  assumes "xs @ ys = zs @ ts"
  obtains (left) us where "xs = zs @ us" "us @ ys = ts" | (right) us where "zs = xs @ us" "ys = us @ ts"
  using assms unfolding append_eq_append_conv2 by blast

section \<open>Comparing and searching\<close>

text \<open>\<open>strncmp(s, p, strlen(p)) == 0\<close>.\<close>

definition starts_with :: "string \<Rightarrow> string \<Rightarrow> bool" where
  "starts_with p s \<longleftrightarrow> take (length p) s = p"

lemma starts_with_prefix: "starts_with p s \<longleftrightarrow> prefix p s"
  by (auto simp: starts_with_def prefix_def append_eq_conv_conj) (metis append_take_drop_id)

lemma starts_with_Nil [simp]: "starts_with [] s"
  by (simp add: starts_with_def)

lemma starts_with_Cons [simp]:
  "starts_with (a # p) s \<longleftrightarrow> (case s of [] \<Rightarrow> False | b # t \<Rightarrow> a = b \<and> starts_with p t)"
  by (auto simp: starts_with_def split: list.splits)

lemma starts_with_append [simp]: "starts_with p (p @ s)"
  by (simp add: starts_with_def)

text \<open>\<open>strncasecmp(s, p, strlen(p)) == 0\<close>.\<close>

definition starts_with_nocase :: "string \<Rightarrow> string \<Rightarrow> bool" where
  "starts_with_nocase p s \<longleftrightarrow> map c_tolower (take (length p) s) = map c_tolower p"

lemma starts_with_nocase_prefix:
  "starts_with_nocase p s \<longleftrightarrow> prefix (map c_tolower p) (map c_tolower s)"
  by (simp add: starts_with_nocase_def take_map prefix_def append_eq_conv_conj)
    (metis append_eq_conv_conj length_map take_map append_take_drop_id)

text \<open>
  \<open>strstr(s, p)\<close>: the index of the first place where \<open>p\<close> occurs; \<open>strcasestr\<close> and
  \<open>strchr\<close> in the same way, all three as one search for the first suffix with a property.
\<close>

fun find_suffix :: "(string \<Rightarrow> bool) \<Rightarrow> string \<Rightarrow> nat option" where
  "find_suffix P [] = (if P [] then Some 0 else None)"
| "find_suffix P (c # s) = (if P (c # s) then Some 0 else map_option Suc (find_suffix P s))"

definition c_strstr :: "string \<Rightarrow> string \<Rightarrow> nat option" where
  "c_strstr s p = find_suffix (starts_with p) s"

definition c_strcasestr :: "string \<Rightarrow> string \<Rightarrow> nat option" where
  "c_strcasestr s p = find_suffix (starts_with_nocase p) s"

definition c_strchr :: "string \<Rightarrow> char \<Rightarrow> nat option" where
  "c_strchr s c = find_suffix (starts_with [c]) s"

lemma find_suffix_Some:
  "find_suffix P s = Some i \<Longrightarrow> i \<le> length s \<and> P (drop i s) \<and> (\<forall>j < i. \<not> P (drop j s))"
proof (induction s arbitrary: i)
  case Nil
  then show ?case by (auto split: if_splits)
next
  case (Cons c s)
  show ?case
  proof (cases "P (c # s)")
    case True
    with Cons.prems show ?thesis by simp
  next
    case False
    with Cons.prems obtain k where k: "find_suffix P s = Some k" "i = Suc k" by auto
    from Cons.IH [OF k(1)] have "k \<le> length s" "P (drop k s)" "\<forall>j < k. \<not> P (drop j s)"
      by simp_all
    with k(2) False show ?thesis by (auto simp: less_Suc_eq_0_disj)
  qed
qed

lemma find_suffix_None: "find_suffix P s = None \<longleftrightarrow> (\<forall>i \<le> length s. \<not> P (drop i s))"
proof (induction s)
  case Nil
  then show ?case by simp
next
  case (Cons c s)
  have "(\<forall>i \<le> length (c # s). \<not> P (drop i (c # s)))
    \<longleftrightarrow> \<not> P (c # s) \<and> (\<forall>i \<le> length s. \<not> P (drop i s))"
    by (metis Suc_le_mono bot_nat_0.extremum drop0 drop_Suc_Cons length_Cons not0_implies_Suc)
  with Cons.IH show ?case by auto
qed

lemma find_suffix_SomeI:
  assumes "i \<le> length s" and "P (drop i s)" and "\<forall>j < i. \<not> P (drop j s)"
  shows "find_suffix P s = Some i"
proof (cases "find_suffix P s")
  case None
  with assms show ?thesis by (auto simp: find_suffix_None)
next
  case (Some k)
  then have "P (drop k s)" "\<forall>j < k. \<not> P (drop j s)" by (auto dest: find_suffix_Some)
  with assms have "k = i" by (metis linorder_neqE_nat)
  with Some show ?thesis by simp
qed

text \<open>A search succeeds exactly when the needle is a sublist (a substring).\<close>

lemma c_strstr_sublist: "c_strstr s p \<noteq> None \<longleftrightarrow> sublist p s"
proof -
  have "c_strstr s p \<noteq> None \<longleftrightarrow> (\<exists>i \<le> length s. prefix p (drop i s))"
    by (auto simp: c_strstr_def find_suffix_None starts_with_prefix)
  also have "\<dots> \<longleftrightarrow> (\<exists>t. suffix t s \<and> prefix p t)"
    by (metis append_take_drop_id drop_all le_cases length_drop suffix_def suffix_drop
        append_eq_conv_conj diff_le_self length_append le_add1)
  also have "\<dots> \<longleftrightarrow> sublist p s"
    by (metis prefix_imp_sublist sublist_altdef' sublist_order.dual_order.trans suffix_imp_sublist)
  finally show ?thesis .
qed

text \<open>Skipping to a run of characters and over it makes a scan progress.\<close>

lemma skip_run_decreases:
  assumes "v \<noteq> []"
  shows "length (dropWhile P (dropWhile (\<lambda>c. \<not> P c) v)) < length v"
proof -
  let ?p = "dropWhile (\<lambda>c. \<not> P c) v"
  have le: "length (dropWhile P ?p) \<le> length ?p" "length ?p \<le> length v"
    by (simp_all add: length_dropWhile_le)
  show ?thesis
  proof (cases "P (hd v)")
    case True
    with assms show ?thesis
      by (cases v) (simp_all add: le_imp_less_Suc length_dropWhile_le)
  next
    case False
    with assms have "length ?p < length v"
      by (cases v) (simp_all add: le_imp_less_Suc length_dropWhile_le)
    with le show ?thesis by simp
  qed
qed

text \<open>\<open>strrchr(s, c)\<close>: the index of the last \<open>c\<close>.\<close>

fun c_strrchr :: "string \<Rightarrow> char \<Rightarrow> nat option" where
  "c_strrchr [] c = None"
| "c_strrchr (d # s) c =
     (case c_strrchr s c of
        Some i \<Rightarrow> Some (Suc i)
      | None \<Rightarrow> if d = c then Some 0 else None)"

lemma c_strrchr_None: "c_strrchr s c = None \<longleftrightarrow> c \<notin> set s"
  by (induction s) (auto split: option.splits)

lemma c_strrchr_Some:
  "c_strrchr s c = Some i \<Longrightarrow> i < length s \<and> s ! i = c \<and> c \<notin> set (drop (Suc i) s)"
  by (induction s arbitrary: i) (auto split: option.splits if_splits simp: c_strrchr_None)

lemma c_strrchr_append:
  "c \<notin> set t \<Longrightarrow> c_strrchr (s @ c # t) c = Some (length s)"
  by (induction s) (auto simp: c_strrchr_None split: option.splits)

text \<open>\<open>"%d"\<close> of a number that is not negative.\<close>

fun show_nat :: "nat \<Rightarrow> string" where
  "show_nat n = (if n < 10 then [char_of (48 + n)] else show_nat (n div 10) @ [char_of (48 + n mod 10)])"

declare show_nat.simps [simp del]

section \<open>Lines\<close>

text \<open>
  The loops over lines take the text up to the next newline (\<open>memchr\<close>) or the end of the
  region, and step over the newline if there is one.
\<close>

definition first_line :: "string \<Rightarrow> string" where
  "first_line s = takeWhile (\<lambda>c. c \<noteq> nl) s"

function lines_of :: "string \<Rightarrow> string list" where
  "lines_of s = (if s = [] then [] else first_line s # lines_of (drop (length (first_line s) + 1) s))"
  by pat_completeness auto
termination
  by (relation "measure length") auto

declare lines_of.simps [simp del]

lemma lines_of_Nil [simp]: "lines_of [] = []"
  by (simp add: lines_of.simps)

lemma length_first_line: "length (first_line s) \<le> length s"
  by (simp add: first_line_def length_takeWhile_le)

lemma first_line_no_nl: "nl \<notin> set (first_line s)"
  by (auto simp: first_line_def dest: set_takeWhileD)

lemma first_line_prefix: "prefix (first_line s) s"
  by (simp add: first_line_def takeWhile_is_prefix)

lemma first_line_eq_take: "first_line s = take (length (first_line s)) s"
  unfolding first_line_def by (rule takeWhile_eq_take)

lemma first_line_append: "nl \<notin> set a \<Longrightarrow> first_line (a @ nl # r) = a"
  unfolding first_line_def by (subst takeWhile_append2) auto

lemma first_line_cases:
  obtains (all) "nl \<notin> set s" "first_line s = s"
  | (cut) r where "s = first_line s @ nl # r"
proof (cases "nl \<in> set s")
  case True
  then obtain a r where "s = a @ nl # r" "nl \<notin> set a" by (meson split_list_first)
  then show thesis using cut first_line_append by simp
next
  case False
  then show thesis using all by (auto simp: first_line_def takeWhile_eq_all_conv)
qed

text \<open>A needle without a newline starts the text exactly when it starts its first line.\<close>

lemma starts_with_first_line:
  "nl \<notin> set p \<Longrightarrow> starts_with p (first_line s) \<longleftrightarrow> starts_with p s"
proof (induction p arbitrary: s)
  case Nil
  then show ?case by simp
next
  case (Cons a p)
  then show ?case by (cases s) (auto simp: first_line_def)
qed

text \<open>Trimming trailing characters, as the loops that move \<open>end\<close> back do.\<close>

definition strip_right :: "(char \<Rightarrow> bool) \<Rightarrow> string \<Rightarrow> string" where
  "strip_right P s = rev (dropWhile P (rev s))"

lemma strip_right_snoc [simp]:
  "strip_right P (s @ [c]) = (if P c then strip_right P s else s @ [c])"
  by (simp add: strip_right_def)

lemma strip_right_Nil [simp]: "strip_right P [] = []"
  by (simp add: strip_right_def)

lemma prefix_strip_right: "prefix (strip_right P s) s"
  using suffix_dropWhile [of P "rev s"] by (simp add: strip_right_def suffix_to_prefix)

lemma last_strip_right: "strip_right P s \<noteq> [] \<Longrightarrow> \<not> P (last (strip_right P s))"
  by (simp add: strip_right_def last_rev hd_dropWhile)

lemma strip_right_append_all: "list_all P w \<Longrightarrow> strip_right P (s @ w) = strip_right P s"
  by (induction w rule: rev_induct) (auto simp flip: append_assoc)

lemma strip_right_split: "\<exists>w. s = strip_right P s @ w \<and> list_all P w"
proof (induction s rule: rev_induct)
  case Nil
  then show ?case by simp
next
  case (snoc c s)
  then obtain w where "s = strip_right P s @ w" "list_all P w" by blast
  then show ?case by (cases "P c") (auto intro: exI [of _ "w @ [c]"])
qed

text \<open>Trimming the end first does not change what trimming both ends of a later part gives.\<close>

lemma trim_after_strip:
  assumes "n \<le> length (strip_right P p)"
  shows "strip_right P (dropWhile P (drop n (strip_right P p))) = strip_right P (dropWhile P (drop n p))"
proof -
  let ?q = "strip_right P p"
  from strip_right_split obtain w where w: "p = ?q @ w" "list_all P w" by blast
  then have p: "drop n p = drop n ?q @ w" using assms by (metis drop_append diff_is_0_eq' drop0)
  have none: "dropWhile P w = []" using w(2) by (simp add: list_all_iff)
  show ?thesis
  proof (cases "drop n ?q = []")
    case True
    show ?thesis by (simp only: p True append_Nil none dropWhile.simps)
  next
    case False
    then have "?q \<noteq> []" by auto
    then have "\<not> P (last ?q)" by (rule last_strip_right)
    then have "\<exists>x \<in> set (drop n ?q). \<not> P x"
      using False by (metis last_drop last_in_set drop_eq_Nil linorder_not_le)
    then have "dropWhile P (drop n ?q @ w) = dropWhile P (drop n ?q) @ w"
      by (metis dropWhile_append1)
    then show ?thesis by (simp only: p strip_right_append_all [OF w(2)])
  qed
qed

section \<open>Frontmatter\<close>

text \<open>
  Four functions of the module find the frontmatter of a skill in the same way: the text
  opens with \<open>---\<close> and a line end, the header starts after the first newline and ends at
  the next newline followed by \<open>---\<close>. \<open>fm_header\<close> returns the offset of the header and
  its length (\<open>header_start + 1\<close> and \<open>header_end - header_start - 1\<close>).
\<close>

definition fm_opens :: "string \<Rightarrow> bool" where
  "fm_opens content \<longleftrightarrow> starts_with ''---'' content \<and> (c_at content 3 = nl \<or> c_at content 3 = cr)"

definition fm_header :: "string \<Rightarrow> (nat \<times> nat) option" where
  "fm_header content =
     (case c_strchr content nl of
        None \<Rightarrow> None
      | Some i \<Rightarrow>
          (case c_strstr (drop (i + 1) content) (nl # ''---'') of
             None \<Rightarrow> None
           | Some k \<Rightarrow> Some (i + 1, k)))"

lemma fm_header_bounds:
  assumes "fm_header s = Some (i, k)"
  shows "0 < i" "i + k \<le> length s" "starts_with (nl # ''---'') (drop (i + k) s)"
proof -
  from assms obtain j where j: "i = j + 1" "c_strstr (drop i s) (nl # ''---'') = Some k"
    by (auto simp: fm_header_def split: option.splits)
  from find_suffix_Some [OF j(2) [unfolded c_strstr_def]]
  have k: "k \<le> length (drop i s)" "starts_with (nl # ''---'') (drop k (drop i s))" by auto
  have "drop (i + k) s \<noteq> []" using k(2) by (auto simp: add.commute)
  then show "i + k \<le> length s" by simp
  show "starts_with (nl # ''---'') (drop (i + k) s)"
    using k(2) by (simp only: drop_drop add.commute)
  show "0 < i" using j by simp
qed

section \<open>Paths\<close>

text \<open>The components of a path, without the empty ones and \<open>.\<close>.\<close>

fun split_on :: "char \<Rightarrow> string \<Rightarrow> string list" where
  "split_on c [] = [[]]"
| "split_on c (d # s) =
     (if d = c then [] # split_on c s else (d # hd (split_on c s)) # tl (split_on c s))"

definition path_parts :: "string \<Rightarrow> string list" where
  "path_parts p = filter (\<lambda>x. x \<noteq> [] \<and> x \<noteq> ''.'') (split_on (CHR ''/'') p)"

lemma split_on_not_Nil [simp]: "split_on c s \<noteq> []"
  by (induction s) auto

text \<open>One recursive call per character, for evaluation.\<close>

lemma split_on_code [code]:
  "split_on c [] = [[]]"
  "split_on c (d # s) =
     (case split_on c s of [] \<Rightarrow> [] | x # xs \<Rightarrow> if d = c then [] # x # xs else (d # x) # xs)"
proof -
  obtain x xs where "split_on c s = x # xs" by (cases "split_on c s") simp_all
  then show "split_on c (d # s) =
     (case split_on c s of [] \<Rightarrow> [] | x # xs \<Rightarrow> if d = c then [] # x # xs else (d # x) # xs)" by simp
qed simp

lemma split_on_single [simp]: "c \<notin> set s \<Longrightarrow> split_on c s = [s]"
  by (induction s) auto

lemma split_on_append [simp]: "split_on c (a @ c # b) = split_on c a @ split_on c b"
  by (induction a) (auto simp: hd_append)

lemma split_on_infix: "x \<in> set (split_on c s) \<Longrightarrow> sublist x s \<and> c \<notin> set x"
proof (induction s arbitrary: x)
  case (Cons d s)
  have first: "prefix (hd (split_on c s)) s" for s
    by (induction s) (auto simp: prefix_Cons)
  show ?case
  proof (cases "d = c")
    case True
    with Cons show ?thesis by (auto intro: sublist_order.order_trans simp: sublist_Cons_right)
  next
    case False
    show ?thesis
    proof (cases "x = d # hd (split_on c s)")
      case True
      moreover have "hd (split_on c s) \<in> set (split_on c s)" by simp
      ultimately show ?thesis
        using Cons.IH [of "hd (split_on c s)"] False first [of s]
        by (auto simp: sublist_Cons_right)
    next
      case other: False
      with Cons.prems False have "x \<in> set (split_on c s)"
        by (auto dest: list.set_sel(2) [OF split_on_not_Nil])
      with Cons.IH show ?thesis by (auto simp: sublist_Cons_right)
    qed
  qed
qed simp

lemma path_parts_append [simp]:
  "path_parts (a @ CHR ''/'' # b) = path_parts a @ path_parts b"
  by (simp add: path_parts_def)

lemma path_parts_single:
  "CHR ''/'' \<notin> set n \<Longrightarrow> n \<noteq> [] \<Longrightarrow> n \<noteq> ''.'' \<Longrightarrow> path_parts n = [n]"
  by (simp add: path_parts_def)

lemma path_parts_infix: "x \<in> set (path_parts p) \<Longrightarrow> sublist x p"
  by (auto simp: path_parts_def dest: split_on_infix)

end
