(* ===== verification/Skill_Wire.thy ===== *)
theory Skill_Wire
  imports Skill_Prelude
begin

text \<open>
  The wire contracts of \<open>include/aimee/skills/module_api.h\<close>: little-endian 32-bit fields,
  the review-nudge request and response (event 7681) and the trigger-match request and
  response (event 7682).

  A byte buffer is a list of 8-bit words, a NULL buffer is None; an encoder takes the
  capacity of its output buffer (None for a NULL one) and returns the bytes it writes, or
  None where the C returns -1. A decoder returns the decoded value, or None for -1.
\<close>

unbundle bit_operations_syntax

type_synonym u8 = "8 word"
type_synonym u32 = "32 word"

section \<open>Constants\<close>

definition STAGE_CONTEXT :: u32 where "STAGE_CONTEXT = 1"
definition STAGE_TRIGGER :: u32 where "STAGE_TRIGGER = 2"
definition REQUEST_MAGIC :: u32 where "REQUEST_MAGIC = 0x58435453"
definition RESPONSE_MAGIC :: u32 where "RESPONSE_MAGIC = 0x57454956"
definition WIRE_VERSION :: u32 where "WIRE_VERSION = 1"
definition REQUEST_LEN :: nat where "REQUEST_LEN = 16"
definition RESPONSE_LEN :: nat where "RESPONSE_LEN = 8"
definition TRIGGER_REQUEST_MAGIC :: u32 where "TRIGGER_REQUEST_MAGIC = 0x51544b53"
definition TRIGGER_RESPONSE_MAGIC :: u32 where "TRIGGER_RESPONSE_MAGIC = 0x52544b53"
definition TRIGGER_HEADER_LEN :: nat where "TRIGGER_HEADER_LEN = 20"
definition TRIGGER_CONTENT_MAX :: nat where "TRIGGER_CONTENT_MAX = 100 * 1024"
definition TRIGGER_TOOL_MAX :: nat where "TRIGGER_TOOL_MAX = 255"
definition TRIGGER_SUBJECT_MAX :: nat where "TRIGGER_SUBJECT_MAX = 1024 * 1024"
definition TRIGGER_RESPONSE_LEN :: nat where "TRIGGER_RESPONSE_LEN = 12"

lemmas wire_lens =
  REQUEST_LEN_def RESPONSE_LEN_def TRIGGER_HEADER_LEN_def TRIGGER_CONTENT_MAX_def
  TRIGGER_TOOL_MAX_def TRIGGER_SUBJECT_MAX_def TRIGGER_RESPONSE_LEN_def

lemmas wire_magics =
  REQUEST_MAGIC_def RESPONSE_MAGIC_def WIRE_VERSION_def TRIGGER_REQUEST_MAGIC_def
  TRIGGER_RESPONSE_MAGIC_def

section \<open>32-bit fields\<close>

definition aimee_skills_put_u32 :: "u32 \<Rightarrow> u8 list" where
  "aimee_skills_put_u32 v = map (\<lambda>i. ucast (drop_bit (8 * i) v)) [0..<4]"

text \<open>\<open>aimee_skills_get_u32(p)\<close>; its callers check that four bytes are there.\<close>

definition aimee_skills_get_u32 :: "u8 list \<Rightarrow> u32" where
  "aimee_skills_get_u32 p = foldl (\<lambda>v i. v OR push_bit (8 * i) (ucast (p ! i))) 0 [0..<4]"

lemma length_put_u32 [simp]: "length (aimee_skills_put_u32 v) = 4"
  by (simp add: aimee_skills_put_u32_def)

lemma upt_0_4: "[0..<4] = [0, 1, 2, 3 :: nat]"
  by (simp add: upt_rec)

lemma get_put_u32 [simp]: "aimee_skills_get_u32 (aimee_skills_put_u32 v @ r) = v"
proof (rule bit_word_eqI)
  fix n assume n: "n < LENGTH(32)"
  then consider "n < 8" | "8 \<le> n \<and> n < 16" | "16 \<le> n \<and> n < 24" | "24 \<le> n \<and> n < 32" by force
  then show "bit (aimee_skills_get_u32 (aimee_skills_put_u32 v @ r)) n = bit v n"
    by cases (auto simp: aimee_skills_get_u32_def aimee_skills_put_u32_def upt_0_4
        bit_simps nth_append)
qed

lemma get_put_u32' [simp]: "aimee_skills_get_u32 (aimee_skills_put_u32 v) = v"
  using get_put_u32 [of v "[]"] by simp

lemma get_u32_bytes:
  "aimee_skills_get_u32 (a # b # c # d # r) =
     ucast a OR push_bit 8 (ucast b) OR push_bit 16 (ucast c) OR push_bit 24 (ucast d)"
  by (simp add: aimee_skills_get_u32_def upt_0_4 or.assoc)

lemma put_u32_bytes:
  "aimee_skills_put_u32 v =
     [ucast v, ucast (drop_bit 8 v), ucast (drop_bit 16 v), ucast (drop_bit 24 v)]"
  by (simp add: aimee_skills_put_u32_def upt_0_4)

lemma byte_of_word:
  fixes a b c d :: u8
  defines "w \<equiv> ucast a OR push_bit 8 (ucast b) OR push_bit 16 (ucast c) OR push_bit 24 (ucast d) :: u32"
  shows "ucast w = a" and "ucast (drop_bit 8 w) = b" and "ucast (drop_bit 16 w) = c"
    and "ucast (drop_bit 24 w) = d"
  unfolding w_def
  by ((rule bit_word_eqI, auto simp: bit_simps dest: bit_imp_le_length)[1])+

lemma put_get_u32:
  assumes "length p = 4"
  shows "aimee_skills_put_u32 (aimee_skills_get_u32 p) = p"
proof -
  from assms obtain a b c d where "p = [a, b, c, d]"
    by (auto simp: numeral_eq_Suc length_Suc_conv)
  then show ?thesis by (simp only: get_u32_bytes put_u32_bytes byte_of_word)
qed

text \<open>A field only depends on its four bytes.\<close>

lemma get_u32_take: "aimee_skills_get_u32 (take 4 p) = aimee_skills_get_u32 p"
  by (simp add: aimee_skills_get_u32_def upt_0_4)

lemma put_get_u32_take:
  "4 \<le> length p \<Longrightarrow> aimee_skills_put_u32 (aimee_skills_get_u32 p) = take 4 p"
  using put_get_u32 [of "take 4 p"] by (simp add: get_u32_take)

lemma get_u32_append: "4 \<le> length p \<Longrightarrow> aimee_skills_get_u32 (p @ r) = aimee_skills_get_u32 p"
  by (metis get_u32_take take_append diff_is_0_eq' take0 append_Nil2)

section \<open>Text fields\<close>

text \<open>
  The text fields of a frame are bytes; a C string is the same bytes as characters. The
  \<open>memcpy\<close> calls between the two are these maps.
\<close>

definition byte_of_char :: "char \<Rightarrow> u8" where
  "byte_of_char c = of_nat (ord c)"

definition char_of_byte :: "u8 \<Rightarrow> char" where
  "char_of_byte b = char_of (unat b)"

definition bytes_of_text :: "string \<Rightarrow> u8 list" where
  "bytes_of_text s = map byte_of_char s"

definition text_of_bytes :: "u8 list \<Rightarrow> string" where
  "text_of_bytes bs = map char_of_byte bs"

lemma char_of_byte_of_char [simp]: "char_of_byte (byte_of_char c) = c"
proof -
  have "unat (of_nat (ord c) :: u8) = ord c"
    using ord_less [of c] by (simp add: unat_of_nat)
  then show ?thesis by (simp add: byte_of_char_def char_of_byte_def)
qed

lemma byte_of_char_of_byte [simp]: "byte_of_char (char_of_byte b) = b"
proof -
  have "unat b < 256" using unsigned_less [of b, where ?'a = nat] by simp
  then show ?thesis by (simp add: byte_of_char_def char_of_byte_def)
qed

lemma text_of_bytes_of_text [simp]: "text_of_bytes (bytes_of_text s) = s"
  by (simp add: bytes_of_text_def text_of_bytes_def comp_def)

lemma bytes_of_text_of_bytes [simp]: "bytes_of_text (text_of_bytes bs) = bs"
  by (simp add: bytes_of_text_def text_of_bytes_def comp_def)

lemma length_bytes_of_text [simp]: "length (bytes_of_text s) = length s"
  by (simp add: bytes_of_text_def)

lemma length_text_of_bytes [simp]: "length (text_of_bytes s) = length s"
  by (simp add: text_of_bytes_def)

lemma bytes_of_text_eq_iff: "bytes_of_text s = bs \<longleftrightarrow> s = text_of_bytes bs"
  by auto

definition aimee_skills_nonzero_text :: "u8 list \<Rightarrow> bool" where
  "aimee_skills_nonzero_text t \<longleftrightarrow> (\<forall>b \<in> set t. b \<noteq> 0)"

lemma char_of_byte_nul: "char_of_byte b = nul \<longleftrightarrow> b = 0"
proof -
  have "char_of_byte 0 = nul" by (simp add: char_of_byte_def char_of_eq_iff)
  then show ?thesis by (metis byte_of_char_of_byte)
qed

lemma nonzero_text_cstr: "aimee_skills_nonzero_text bs \<longleftrightarrow> cstr (text_of_bytes bs)"
  by (auto simp: aimee_skills_nonzero_text_def cstr_def text_of_bytes_def char_of_byte_nul
      eq_commute [of nul])

lemma nonzero_bytes_of_text [simp]: "aimee_skills_nonzero_text (bytes_of_text s) \<longleftrightarrow> cstr s"
  by (simp add: nonzero_text_cstr)

section \<open>The codec interface\<close>

text \<open>
  What a pair of an encoder and a decoder promises: every valid value survives the round
  trip, and a frame is accepted only when it is, byte for byte, the encoding of a valid
  value.
\<close>

locale wire_codec =
  fixes enc :: "'a \<Rightarrow> u8 list"
    and dec :: "u8 list \<Rightarrow> 'a option"
    and valid :: "'a \<Rightarrow> bool"
  assumes dec_enc: "valid x \<Longrightarrow> dec (enc x) = Some x"
    and enc_dec: "dec bs = Some x \<Longrightarrow> valid x \<and> enc x = bs"
begin

lemma dec_iff: "dec bs = Some x \<longleftrightarrow> valid x \<and> bs = enc x"
  using dec_enc enc_dec by blast

lemma enc_inj: "valid x \<Longrightarrow> valid y \<Longrightarrow> enc x = enc y \<Longrightarrow> x = y"
  by (metis dec_enc option.inject)

lemma dec_inj: "dec bs = Some x \<Longrightarrow> dec bs' = Some x \<Longrightarrow> bs = bs'"
  using enc_dec by blast

lemma dec_None: "dec bs = None \<longleftrightarrow> (\<nexists>x. valid x \<and> bs = enc x)"
  by (metis dec_iff not_None_eq)

end

section \<open>Review nudge: event 7681\<close>

text \<open>\<open>hook_count\<close> and \<open>interval\<close> are C ints; the cast to \<open>uint32_t\<close> keeps their bits.\<close>

definition aimee_skills_request_encode :: "u32 \<Rightarrow> u32 \<Rightarrow> nat option \<Rightarrow> u8 list option" where
  "aimee_skills_request_encode hook_count interval out_cap =
     (case out_cap of
        None \<Rightarrow> None
      | Some cap \<Rightarrow>
          if cap < REQUEST_LEN then None
          else Some (aimee_skills_put_u32 REQUEST_MAGIC @ aimee_skills_put_u32 WIRE_VERSION
                     @ aimee_skills_put_u32 hook_count @ aimee_skills_put_u32 interval))"

definition aimee_skills_response_decode :: "u8 list option \<Rightarrow> u32 option" where
  "aimee_skills_response_decode inp =
     (case inp of
        None \<Rightarrow> None
      | Some bs \<Rightarrow>
          if length bs \<noteq> RESPONSE_LEN \<or> aimee_skills_get_u32 bs \<noteq> RESPONSE_MAGIC
             \<or> aimee_skills_get_u32 (drop 4 bs) > 1
          then None else Some (aimee_skills_get_u32 (drop 4 bs)))"

section \<open>Trigger match: event 7682\<close>

text \<open>The size of a request, 0 when the arguments are refused.\<close>

definition text_or_empty :: "string option \<Rightarrow> string" where
  "text_or_empty t = (case t of None \<Rightarrow> [] | Some s \<Rightarrow> s)"

definition aimee_skills_trigger_request_size ::
  "string option \<Rightarrow> string option \<Rightarrow> string option \<Rightarrow> nat" where
  "aimee_skills_trigger_request_size content tool_name subject =
     (case (content, tool_name) of
        (Some c, Some t) \<Rightarrow>
          if c_at t 0 = nul then 0
          else let content_len = length c; tool_len = length t;
                   subject_len = length (text_or_empty subject) in
            if content_len > TRIGGER_CONTENT_MAX \<or> tool_len > TRIGGER_TOOL_MAX
               \<or> subject_len > TRIGGER_SUBJECT_MAX then 0
            else TRIGGER_HEADER_LEN + content_len + tool_len + subject_len
      | _ \<Rightarrow> 0)"

definition aimee_skills_trigger_request_encode ::
  "string option \<Rightarrow> string option \<Rightarrow> string option \<Rightarrow> nat option \<Rightarrow> u8 list option" where
  "aimee_skills_trigger_request_encode content tool_name subject out_cap =
     (let total = aimee_skills_trigger_request_size content tool_name subject in
      case out_cap of
        None \<Rightarrow> None
      | Some cap \<Rightarrow>
          if total = 0 \<or> cap < total then None
          else let c = text_or_empty content; t = text_or_empty tool_name;
                   s = text_or_empty subject in
            Some (aimee_skills_put_u32 TRIGGER_REQUEST_MAGIC
                  @ aimee_skills_put_u32 WIRE_VERSION
                  @ aimee_skills_put_u32 (of_nat (length c))
                  @ aimee_skills_put_u32 (of_nat (length t))
                  @ aimee_skills_put_u32 (of_nat (length s))
                  @ bytes_of_text c @ bytes_of_text t @ bytes_of_text s))"

text \<open>
  The decoder returns the three text fields; the C returns pointers into the frame and the
  lengths. The sum of the lengths is at most 20 + 100 K + 255 + 1 M, far below the limit
  of \<open>size_t\<close>, so it is computed without wrap-around.
\<close>

definition aimee_skills_trigger_request_decode ::
  "u8 list option \<Rightarrow> (u8 list \<times> u8 list \<times> u8 list) option" where
  "aimee_skills_trigger_request_decode inp =
     (case inp of
        None \<Rightarrow> None
      | Some bs \<Rightarrow>
          if length bs < TRIGGER_HEADER_LEN
             \<or> aimee_skills_get_u32 bs \<noteq> TRIGGER_REQUEST_MAGIC
             \<or> aimee_skills_get_u32 (drop 4 bs) \<noteq> WIRE_VERSION then None
          else
            let c_len = unat (aimee_skills_get_u32 (drop 8 bs));
                t_len = unat (aimee_skills_get_u32 (drop 12 bs));
                s_len = unat (aimee_skills_get_u32 (drop 16 bs)) in
            if c_len > TRIGGER_CONTENT_MAX \<or> t_len = 0 \<or> t_len > TRIGGER_TOOL_MAX
               \<or> s_len > TRIGGER_SUBJECT_MAX then None
            else if TRIGGER_HEADER_LEN + c_len + t_len + s_len \<noteq> length bs then None
            else
              let c_text = take c_len (drop TRIGGER_HEADER_LEN bs);
                  t_text = take t_len (drop (TRIGGER_HEADER_LEN + c_len) bs);
                  s_text = take s_len (drop (TRIGGER_HEADER_LEN + c_len + t_len) bs) in
              if \<not> aimee_skills_nonzero_text c_text \<or> \<not> aimee_skills_nonzero_text t_text
                 \<or> \<not> aimee_skills_nonzero_text s_text then None
              else Some (c_text, t_text, s_text))"

text \<open>\<open>match\<close> is a C int; anything but 0 and 1 is refused.\<close>

definition aimee_skills_trigger_response_encode :: "int \<Rightarrow> nat option \<Rightarrow> u8 list option" where
  "aimee_skills_trigger_response_encode match out_cap =
     (case out_cap of
        None \<Rightarrow> None
      | Some capacity \<Rightarrow>
          if (match \<noteq> 0 \<and> match \<noteq> 1) \<or> capacity < TRIGGER_RESPONSE_LEN then None
          else Some (aimee_skills_put_u32 TRIGGER_RESPONSE_MAGIC
                     @ aimee_skills_put_u32 WIRE_VERSION
                     @ aimee_skills_put_u32 (of_int match)))"

definition aimee_skills_trigger_response_decode :: "u8 list option \<Rightarrow> int option" where
  "aimee_skills_trigger_response_decode inp =
     (case inp of
        None \<Rightarrow> None
      | Some bs \<Rightarrow>
          if length bs \<noteq> TRIGGER_RESPONSE_LEN
             \<or> aimee_skills_get_u32 bs \<noteq> TRIGGER_RESPONSE_MAGIC
             \<or> aimee_skills_get_u32 (drop 4 bs) \<noteq> WIRE_VERSION
             \<or> aimee_skills_get_u32 (drop 8 bs) > 1 then None
          else Some (uint (aimee_skills_get_u32 (drop 8 bs))))"

section \<open>The codecs are correct\<close>

text \<open>A frame with a fixed header of 4-byte fields splits back into them.\<close>

lemma drop_fields:
  "drop 4 (aimee_skills_put_u32 a @ r) = r"
  "drop 8 (aimee_skills_put_u32 a @ aimee_skills_put_u32 b @ r) = r"
  "drop 12 (aimee_skills_put_u32 a @ aimee_skills_put_u32 b @ aimee_skills_put_u32 c @ r) = r"
  "drop 16 (aimee_skills_put_u32 a @ aimee_skills_put_u32 b @ aimee_skills_put_u32 c
            @ aimee_skills_put_u32 d @ r) = r"
  "drop 20 (aimee_skills_put_u32 a @ aimee_skills_put_u32 b @ aimee_skills_put_u32 c
            @ aimee_skills_put_u32 d @ aimee_skills_put_u32 e @ r) = r"
  by simp_all

lemma unat_of_nat_small: "n < 2 ^ 32 \<Longrightarrow> unat (of_nat n :: u32) = n"
  by (simp add: unat_of_nat)

text \<open>Reading a field and writing it again gives the bytes of the field.\<close>

lemma put_get_field:
  "k + 4 \<le> length bs \<Longrightarrow>
     aimee_skills_put_u32 (aimee_skills_get_u32 (drop k bs)) @ drop (k + 4) bs = drop k bs"
  using append_take_drop_id [of 4 "drop k bs"] by (simp add: put_get_u32_take add.commute)

text \<open>The size is 0 exactly when a text is missing or too long.\<close>

lemma trigger_request_size_pos:
  "aimee_skills_trigger_request_size (Some c) (Some t) s = n \<Longrightarrow> 0 < n \<Longrightarrow> 
     c_at t 0 \<noteq> nul \<and> length c \<le> TRIGGER_CONTENT_MAX \<and> length t \<le> TRIGGER_TOOL_MAX
     \<and> length (text_or_empty s) \<le> TRIGGER_SUBJECT_MAX
     \<and> n = TRIGGER_HEADER_LEN + length c + length t + length (text_or_empty s)"
  by (auto simp: aimee_skills_trigger_request_size_def Let_def split: if_splits)

lemma text_or_empty_simps [simp]: "text_or_empty None = []" "text_or_empty (Some s) = s"
  by (simp_all add: text_or_empty_def)

lemma trigger_request_roundtrip:
  assumes enc: "aimee_skills_trigger_request_encode (Some c) (Some t) s cap = Some bs"
    and texts: "cstr c" "cstr t" "cstr (text_or_empty s)"
  shows "aimee_skills_trigger_request_decode (Some bs) =
           Some (bytes_of_text c, bytes_of_text t, bytes_of_text (text_or_empty s))"
proof -
  let ?s = "text_or_empty s"
  from enc have pos: "0 < aimee_skills_trigger_request_size (Some c) (Some t) s"
    by (auto simp: aimee_skills_trigger_request_encode_def Let_def split: option.splits if_splits)
  note sz = trigger_request_size_pos [OF refl pos]
  from enc have bs: "bs = aimee_skills_put_u32 TRIGGER_REQUEST_MAGIC
      @ aimee_skills_put_u32 WIRE_VERSION @ aimee_skills_put_u32 (of_nat (length c))
      @ aimee_skills_put_u32 (of_nat (length t)) @ aimee_skills_put_u32 (of_nat (length ?s))
      @ bytes_of_text c @ bytes_of_text t @ bytes_of_text ?s"
    by (auto simp: aimee_skills_trigger_request_encode_def Let_def split: option.splits if_splits)
  have len: "unat (of_nat (length c) :: u32) = length c" "unat (of_nat (length t) :: u32) = length t"
    "unat (of_nat (length ?s) :: u32) = length ?s"
    using sz by (auto intro!: unat_of_nat_small simp: wire_lens)
  have "t \<noteq> []" using sz texts c_at_0 by auto
  with sz texts show ?thesis
    by (simp add: aimee_skills_trigger_request_decode_def bs drop_fields len Let_def wire_lens
        flip: drop_drop)
qed

lemma trigger_request_canonical:
  assumes dec: "aimee_skills_trigger_request_decode (Some bs) = Some (c, t, s)"
    and cap: "length bs \<le> cap"
  shows "aimee_skills_trigger_request_encode (Some (text_of_bytes c)) (Some (text_of_bytes t))
           (Some (text_of_bytes s)) (Some cap) = Some bs
         \<and> cstr (text_of_bytes c) \<and> cstr (text_of_bytes t) \<and> cstr (text_of_bytes s)"
proof -
  let ?c = "unat (aimee_skills_get_u32 (drop 8 bs))"
  let ?t = "unat (aimee_skills_get_u32 (drop 12 bs))"
  let ?s = "unat (aimee_skills_get_u32 (drop 16 bs))"
  from dec have hdr: "20 \<le> length bs" "aimee_skills_get_u32 bs = TRIGGER_REQUEST_MAGIC"
      "aimee_skills_get_u32 (drop 4 bs) = WIRE_VERSION"
    and lens: "?c \<le> TRIGGER_CONTENT_MAX" "0 < ?t" "?t \<le> TRIGGER_TOOL_MAX" "?s \<le> TRIGGER_SUBJECT_MAX"
      "20 + ?c + ?t + ?s = length bs"
    and parts: "c = take ?c (drop 20 bs)" "t = take ?t (drop (20 + ?c) bs)"
      "s = take ?s (drop (20 + ?c + ?t) bs)"
    and texts: "aimee_skills_nonzero_text c" "aimee_skills_nonzero_text t" "aimee_skills_nonzero_text s"
    by (auto simp: aimee_skills_trigger_request_decode_def Let_def wire_lens split: if_splits)
  have ls: "length c = ?c" "length t = ?t" "length s = ?s"
    using lens parts by simp_all
  have body: "c @ t @ s = drop 20 bs"
  proof -
    have "s = drop ?t (drop ?c (drop 20 bs))"
      using lens parts(3) by (simp add: add.commute add.left_commute)
    moreover have "t = take ?t (drop ?c (drop 20 bs))"
      using parts(2) by (simp add: add.commute)
    ultimately have "t @ s = drop ?c (drop 20 bs)"
      by (simp only: append_take_drop_id)
    with parts(1) show ?thesis by (metis append_take_drop_id)
  qed
  have "aimee_skills_put_u32 TRIGGER_REQUEST_MAGIC @ aimee_skills_put_u32 WIRE_VERSION
      @ aimee_skills_put_u32 (of_nat ?c) @ aimee_skills_put_u32 (of_nat ?t)
      @ aimee_skills_put_u32 (of_nat ?s) @ drop 20 bs = bs"
    using hdr put_get_field [of 0 bs] put_get_field [of 4 bs] put_get_field [of 8 bs]
      put_get_field [of 12 bs] put_get_field [of 16 bs] by simp
  moreover have "c_at (text_of_bytes t) 0 \<noteq> nul"
    using texts(2) lens(2) ls(2) by (metis c_at_0 nonzero_text_cstr length_text_of_bytes list.size(3)
        less_numeral_extra(3))
  moreover have "bs \<noteq> []" using hdr(1) by auto
  ultimately show ?thesis
    using lens cap texts body
    by (simp add: aimee_skills_trigger_request_encode_def aimee_skills_trigger_request_size_def
        Let_def ls wire_lens nonzero_text_cstr)
qed

text \<open>Both directions together: the trigger request is a codec.\<close>

definition trigger_frame :: "string \<times> string \<times> string \<Rightarrow> u8 list" where
  "trigger_frame = (\<lambda>(c, t, s). case aimee_skills_trigger_request_encode (Some c) (Some t) (Some s)
       (Some (aimee_skills_trigger_request_size (Some c) (Some t) (Some s))) of
     Some bs \<Rightarrow> bs | None \<Rightarrow> [])"

definition trigger_fields :: "u8 list \<Rightarrow> (string \<times> string \<times> string) option" where
  "trigger_fields bs = map_option (\<lambda>(c, t, s). (text_of_bytes c, text_of_bytes t, text_of_bytes s))
     (aimee_skills_trigger_request_decode (Some bs))"

definition trigger_valid :: "string \<times> string \<times> string \<Rightarrow> bool" where
  "trigger_valid = (\<lambda>(c, t, s). cstr c \<and> cstr t \<and> cstr s
     \<and> 0 < aimee_skills_trigger_request_size (Some c) (Some t) (Some s))"

lemma trigger_request_encode_total:
  "0 < aimee_skills_trigger_request_size c t s \<Longrightarrow>
   aimee_skills_trigger_request_size c t s \<le> cap \<Longrightarrow>
   \<exists>bs. aimee_skills_trigger_request_encode c t s (Some cap) = Some bs"
  by (simp add: aimee_skills_trigger_request_encode_def Let_def)

lemma trigger_frame_encode:
  "trigger_valid (c, t, s) \<Longrightarrow>
   aimee_skills_trigger_request_encode (Some c) (Some t) (Some s)
     (Some (aimee_skills_trigger_request_size (Some c) (Some t) (Some s))) = Some (trigger_frame (c, t, s))"
  using trigger_request_encode_total [OF _ order_refl, of "Some c" "Some t" "Some s"]
  by (auto simp: trigger_frame_def trigger_valid_def)

text \<open>The capacity only decides whether the frame is written, not what it holds.\<close>

lemma trigger_request_encode_cap:
  "aimee_skills_trigger_request_encode c t s (Some cap) = Some bs \<Longrightarrow>
   aimee_skills_trigger_request_encode c t s
     (Some (aimee_skills_trigger_request_size c t s)) = Some bs"
  by (auto simp: aimee_skills_trigger_request_encode_def Let_def split: if_splits)

interpretation trigger_codec: wire_codec trigger_frame trigger_fields trigger_valid
proof
  fix x :: "string \<times> string \<times> string"
  assume v: "trigger_valid x"
  obtain c t s where x: "x = (c, t, s)" by (cases x)
  from v x have "cstr c" "cstr t" "cstr (text_or_empty (Some s))"
    by (auto simp: trigger_valid_def)
  with trigger_request_roundtrip [OF trigger_frame_encode] v x
  show "trigger_fields (trigger_frame x) = Some x"
    by (auto simp: trigger_fields_def)
next
  fix bs x
  assume "trigger_fields bs = Some x"
  then obtain c t s where d: "aimee_skills_trigger_request_decode (Some bs) = Some (c, t, s)"
    and x: "x = (text_of_bytes c, text_of_bytes t, text_of_bytes s)"
    by (auto simp: trigger_fields_def)
  note e = trigger_request_canonical [OF d order_refl]
  then have "0 < aimee_skills_trigger_request_size (Some (text_of_bytes c)) (Some (text_of_bytes t))
      (Some (text_of_bytes s))"
    by (auto simp: aimee_skills_trigger_request_encode_def Let_def split: if_splits)
  with e x trigger_request_encode_cap [OF e [THEN conjunct1]]
  show "trigger_valid x \<and> trigger_frame x = bs"
    by (auto simp: trigger_valid_def trigger_frame_def)
qed

definition trigger_answer :: "int \<Rightarrow> u8 list" where
  "trigger_answer m = (case aimee_skills_trigger_response_encode m (Some TRIGGER_RESPONSE_LEN) of
     Some bs \<Rightarrow> bs | None \<Rightarrow> [])"

lemma word_le_1: "(w :: u32) \<le> 1 \<longleftrightarrow> w = 0 \<or> w = 1"
  by (auto simp: word_le_nat_alt word_unat_eq_iff le_Suc_eq)

text \<open>A list of four bytes per field is the concatenation of its fields.\<close>

lemma three_fields:
  assumes "length bs = 12"
  shows "bs = aimee_skills_put_u32 (aimee_skills_get_u32 bs)
      @ aimee_skills_put_u32 (aimee_skills_get_u32 (drop 4 bs))
      @ aimee_skills_put_u32 (aimee_skills_get_u32 (drop 8 bs))"
  using assms put_get_field [of 0 bs] put_get_field [of 4 bs] put_get_field [of 8 bs] by simp

interpretation answer_codec: wire_codec trigger_answer
  "\<lambda>bs. aimee_skills_trigger_response_decode (Some bs)" "\<lambda>m. m = 0 \<or> m = 1"
proof
  fix x :: int
  assume "x = 0 \<or> x = 1"
  then show "aimee_skills_trigger_response_decode (Some (trigger_answer x)) = Some x"
    by (auto simp: trigger_answer_def aimee_skills_trigger_response_encode_def
        aimee_skills_trigger_response_decode_def drop_fields TRIGGER_RESPONSE_LEN_def)
next
  fix bs x
  assume d: "aimee_skills_trigger_response_decode (Some bs) = Some x"
  then have h: "length bs = 12" "aimee_skills_get_u32 bs = TRIGGER_RESPONSE_MAGIC"
    "aimee_skills_get_u32 (drop 4 bs) = WIRE_VERSION" "aimee_skills_get_u32 (drop 8 bs) \<le> 1"
    "x = uint (aimee_skills_get_u32 (drop 8 bs))"
    by (auto simp: aimee_skills_trigger_response_decode_def TRIGGER_RESPONSE_LEN_def
        not_less split: if_splits)
  then have "x = 0 \<or> x = 1" by (auto simp: word_le_1)
  moreover have "bs = aimee_skills_put_u32 TRIGGER_RESPONSE_MAGIC
      @ aimee_skills_put_u32 WIRE_VERSION @ aimee_skills_put_u32 (of_int x)"
    using three_fields [OF h(1)] h by simp
  ultimately show "(x = 0 \<or> x = 1) \<and> trigger_answer x = bs"
    by (auto simp: trigger_answer_def aimee_skills_trigger_response_encode_def TRIGGER_RESPONSE_LEN_def)
qed

end
