(* ===== verification/Skill_Trigger.thy ===== *)
theory Skill_Trigger
  imports Skill_Prelude
begin

text \<open>
  The trigger policy of \<open>skill_trigger_policy.c\<close>: does the \<open>triggers:\<close> block in the
  frontmatter of a skill match a tool call? The operations follow the file's functions in
  order; a region given by a pointer and a length is the string of its bytes.
\<close>

section \<open>Tokens\<close>

definition token_char :: "char \<Rightarrow> bool" where
  "token_char c \<longleftrightarrow> c_isalnum c \<or> c = CHR ''_'' \<or> c = CHR ''-'' \<or> c = CHR ''.''"

text \<open>
  The loop of \<open>value_contains_token\<close>: skip to the next token, take it, compare it. At the
  end of the value the token is empty, and differs from the needle, which is not.
\<close>

function value_contains_token_loop :: "string \<Rightarrow> string \<Rightarrow> bool" where
  "value_contains_token_loop needle v =
     (if v = [] then False
      else let p = dropWhile (\<lambda>c. \<not> token_char c) v;
               run = takeWhile token_char p;
               rest = dropWhile token_char p in
        if length run = length needle \<and> starts_with needle run then True
        else value_contains_token_loop needle rest)"
  by pat_completeness auto
termination
  by (relation "measure (\<lambda>(needle, v). length v)") (simp_all add: skip_run_decreases)

declare value_contains_token_loop.simps [simp del]

definition value_contains_token :: "string \<Rightarrow> string \<Rightarrow> bool" where
  "value_contains_token value needle \<longleftrightarrow> needle \<noteq> [] \<and> value_contains_token_loop needle value"

section \<open>Quoted patterns\<close>

definition is_quote :: "char \<Rightarrow> bool" where
  "is_quote c \<longleftrightarrow> c = CHR 0x22 \<or> c = CHR 0x27"

text \<open>
  The loop of \<open>patterns_match\<close>: the result is whether a pattern occurs in the subject and
  whether a quoted pattern was seen. A pattern is cut to the 127 characters its buffer
  holds; a quote that is not closed ends at the end of the value.
\<close>

function patterns_match_loop :: "string \<Rightarrow> string \<Rightarrow> bool \<Rightarrow> bool \<times> bool" where
  "patterns_match_loop subject v saw_quoted =
     (if v = [] then (False, saw_quoted)
      else case dropWhile (\<lambda>c. \<not> is_quote c) v of
        [] \<Rightarrow> (False, saw_quoted)
      | quote # start \<Rightarrow>
          let body = takeWhile (\<lambda>c. c \<noteq> quote) start;
              after = dropWhile (\<lambda>c. c \<noteq> quote) start;
              rest = (if after = [] then [] else tl after) in
          if body \<noteq> [] then
            (if c_strstr subject (c_buf 128 body) \<noteq> None then (True, True)
             else patterns_match_loop subject rest True)
          else patterns_match_loop subject rest saw_quoted)"
  by pat_completeness auto

lemma patterns_match_decreases:
  assumes "dropWhile (\<lambda>c. \<not> is_quote c) v = quote # start"
  shows "length (dropWhile (\<lambda>c. c \<noteq> quote) start) - Suc 0 < length v"
proof -
  have "length (quote # start) \<le> length v"
    by (metis assms length_dropWhile_le)
  moreover have "length (dropWhile (\<lambda>c. c \<noteq> quote) start) \<le> length start"
    by (simp add: length_dropWhile_le)
  ultimately show ?thesis by simp
qed

termination patterns_match_loop
  by (relation "measure (\<lambda>(subject, v, saw). length v)") (auto simp: patterns_match_decreases)

declare patterns_match_loop.simps [simp del]

definition patterns_match :: "string \<Rightarrow> string \<Rightarrow> bool" where
  "patterns_match value subject =
     (case patterns_match_loop subject value False of
        (hit, saw_quoted) \<Rightarrow>
          if hit then True
          else if saw_quoted then False else value_contains_token value subject)"

section \<open>The value of a key\<close>

definition line_value :: "string \<Rightarrow> string \<Rightarrow> string option" where
  "line_value line key =
     (let p = dropWhile c_isspace line in
      if length p < length key + 1 \<or> \<not> starts_with key p \<or> p ! length key \<noteq> CHR '':'' then None
      else Some (strip_right c_isspace (dropWhile c_isspace (drop (length key + 1) p))))"

section \<open>The decision\<close>

record trigger_state =
  in_triggers :: bool
  saw_triggers :: bool
  saw_tool :: bool
  tool_match :: bool
  saw_pattern :: bool
  pattern_match :: bool

definition trigger_init :: trigger_state where
  "trigger_init = \<lparr>in_triggers = False, saw_triggers = False, saw_tool = False,
     tool_match = False, saw_pattern = False, pattern_match = False\<rparr>"

text \<open>What an indented line inside the block adds.\<close>

definition trigger_entry :: "string \<Rightarrow> string \<Rightarrow> string \<Rightarrow> trigger_state \<Rightarrow> trigger_state" where
  "trigger_entry tool_name subject line st =
     (case line_value line ''tool'' of
        Some value \<Rightarrow>
          st\<lparr>saw_tool := True,
             tool_match := (if value_contains_token value tool_name then True else tool_match st)\<rparr>
      | None \<Rightarrow>
          (case (case line_value line ''arg_pattern'' of
                   Some value \<Rightarrow> Some value | None \<Rightarrow> line_value line ''path_pattern'') of
             Some value \<Rightarrow>
               st\<lparr>saw_pattern := True,
                  pattern_match := (if patterns_match value subject then True else pattern_match st)\<rparr>
           | None \<Rightarrow> st))"

text \<open>
  The loop over the header: \<open>p\<close> is the rest of the content from the current line on, \<open>n\<close>
  the distance to \<open>header_end\<close>. The comparison with \<open>triggers:\<close> reads from \<open>p\<close> and is not
  bounded by the line, as in the source.
\<close>

function trigger_loop ::
  "string \<Rightarrow> string \<Rightarrow> string \<Rightarrow> nat \<Rightarrow> trigger_state \<Rightarrow> trigger_state" where
  "trigger_loop tool_name subject p n st =
     (if n = 0 then st
      else let line = first_line (take n p);
               adv = (if length line < n then length line + 1 else n) in
        if line = [] then trigger_loop tool_name subject (drop adv p) (n - adv) st
        else if \<not> c_isspace (hd line) then
          (if starts_with ''triggers:'' p then
             trigger_loop tool_name subject (drop adv p) (n - adv)
               (st\<lparr>in_triggers := True, saw_triggers := True\<rparr>)
           else if in_triggers st then st
           else trigger_loop tool_name subject (drop adv p) (n - adv) st)
        else if in_triggers st then
          trigger_loop tool_name subject (drop adv p) (n - adv)
            (trigger_entry tool_name subject line st)
        else trigger_loop tool_name subject (drop adv p) (n - adv) st)"
  by pat_completeness auto
termination
  by (relation "measure (\<lambda>(tool_name, subject, p, n, st). n)") auto

declare trigger_loop.simps [simp del]

text \<open>The C int result is 0 or 1: a bool. NULL arguments are None.\<close>

definition skill_trigger_policy_matches_content ::
  "string option \<Rightarrow> string option \<Rightarrow> string option \<Rightarrow> bool" where
  "skill_trigger_policy_matches_content content tool_name subject =
     (case (content, tool_name) of
        (Some c, Some t) \<Rightarrow>
          if c_at t 0 = nul then False
          else if \<not> fm_opens c then False
          else
            (case fm_header c of
               None \<Rightarrow> False
             | Some (start, header_len) \<Rightarrow>
                 let subj = (case subject of None \<Rightarrow> [] | Some s \<Rightarrow> s);
                     st = trigger_loop t subj (drop start c) header_len trigger_init in
                 saw_triggers st \<and> (\<not> saw_tool st \<or> tool_match st)
                 \<and> (\<not> saw_pattern st \<or> pattern_match st))
      | _ \<Rightarrow> False)"

section \<open>What the token scan finds\<close>

text \<open>
  A word is a token of a text when it occurs there, is made of token characters only, and
  is not part of a longer run of token characters.
\<close>

definition token_of :: "string \<Rightarrow> string \<Rightarrow> bool" where
  "token_of w v \<longleftrightarrow> w \<noteq> [] \<and> list_all token_char w
     \<and> (\<exists>a b. v = a @ w @ b \<and> (a = [] \<or> \<not> token_char (last a)) \<and> (b = [] \<or> \<not> token_char (hd b)))"

lemma token_of_Nil [simp]: "\<not> token_of w []"
  by (simp add: token_of_def)

lemma takeWhile_maximal:
  "list_all P w \<Longrightarrow> b = [] \<or> \<not> P (hd b) \<Longrightarrow> takeWhile P (w @ b) = w"
  by (cases b) (auto simp: list_all_iff takeWhile_append)

lemma hd_dropWhile': "dropWhile P v = [] \<or> \<not> P (hd (dropWhile P v))"
  using hd_dropWhile by blast

text \<open>One step of the scan: the first token, or a token of what is left.\<close>

lemma token_of_step:
  assumes v: "v = skip @ run @ rest"
    and skip: "list_all (\<lambda>c. \<not> token_char c) skip"
    and run: "list_all token_char run"
    and rest: "rest = [] \<or> \<not> token_char (hd rest)"
    and w: "w \<noteq> []"
  shows "token_of w v \<longleftrightarrow> w = run \<or> token_of w rest"
proof
  assume "token_of w v"
  then obtain a b where ab: "v = a @ w @ b" "a = [] \<or> \<not> token_char (last a)"
      "b = [] \<or> \<not> token_char (hd b)" and all: "list_all token_char w"
    by (auto simp: token_of_def)
  from ab(1) v have eq: "skip @ (run @ rest) = a @ (w @ b)" by simp
  consider (in_skip) d where "skip = a @ d" "d \<noteq> []" "d @ run @ rest = w @ b"
    | (in_run) d e where "a = skip @ d" "run = d @ e" "e \<noteq> []" "e @ rest = w @ b"
    | (past) d where "a = skip @ run @ d" "rest = d @ w @ b"
  proof -
    from eq show thesis
    proof (cases rule: append_cases)
      case (left d)
      show thesis
      proof (cases "d = []")
        case True
        show thesis
        proof (cases "run = []")
          case True
          with left \<open>d = []\<close> show thesis by (intro past [of "[]"]) simp_all
        next
          case False
          with left \<open>d = []\<close> show thesis by (intro in_run [of "[]" run]) simp_all
        qed
      qed (use left in_skip in blast)
    next
      case (right d)
      note a = this(1)
      from right(2) show thesis
      proof (cases rule: append_cases)
        case (left e)
        show thesis
        proof (cases "e = []")
          case True
          with left a show thesis by (intro past [of "[]"]) simp_all
        qed (use left a in_run in blast)
      next
        case (right e)
        with a show thesis by (intro past [of e]) simp_all
      qed
    qed
  qed
  then show "w = run \<or> token_of w rest"
  proof cases
    case (in_skip d)
    then have "hd w = hd d" using w by (cases d; cases w) auto
    moreover have "\<not> token_char (hd d)" using in_skip(1,2) skip by (cases d) auto
    moreover have "token_char (hd w)" using all w by (cases w) auto
    ultimately show ?thesis by simp
  next
    case (in_run d e)
    have "d = []"
    proof (rule ccontr)
      assume "d \<noteq> []"
      with in_run(1) ab(2) have "\<not> token_char (last d)" by auto
      with in_run(2) run \<open>d \<noteq> []\<close> show False by (auto simp: list_all_iff)
    qed
    with in_run have "w @ b = run @ rest" by simp
    with takeWhile_maximal [OF all ab(3)] takeWhile_maximal [OF run rest] show ?thesis by simp
  next
    case (past d)
    have "d = [] \<or> \<not> token_char (last d)" using past(1) ab(2) by auto
    with past(2) ab(3) all w show ?thesis unfolding token_of_def by blast
  qed
next
  assume "w = run \<or> token_of w rest"
  then show "token_of w v"
  proof
    assume "w = run"
    moreover have "skip = [] \<or> \<not> token_char (last skip)"
      using skip by (auto simp: list_all_iff)
    ultimately show ?thesis using v run rest w unfolding token_of_def by blast
  next
    assume "token_of w rest"
    then obtain a b where ab: "rest = a @ w @ b" "a = [] \<or> \<not> token_char (last a)"
        "b = [] \<or> \<not> token_char (hd b)" and all: "list_all token_char w"
      by (auto simp: token_of_def)
    have "a \<noteq> []" using ab(1) rest all w by (cases a; cases w) auto
    with ab v have "v = (skip @ run @ a) @ w @ b" "\<not> token_char (last (skip @ run @ a))" by auto
    with ab(3) all w show ?thesis unfolding token_of_def by blast
  qed
qed

lemma token_of_nonempty: "token_of w v \<Longrightarrow> w \<noteq> []"
  by (simp add: token_of_def)

lemma value_contains_token_loop_unfold:
  assumes "v \<noteq> []"
  shows "value_contains_token_loop needle v \<longleftrightarrow>
    needle = takeWhile token_char (dropWhile (\<lambda>c. \<not> token_char c) v)
    \<or> value_contains_token_loop needle (dropWhile token_char (dropWhile (\<lambda>c. \<not> token_char c) v))"
proof -
  have "(length r = length needle \<and> starts_with needle r) \<longleftrightarrow> needle = r" for r
    by (auto simp: starts_with_def)
  with assms show ?thesis
    by (subst value_contains_token_loop.simps) (simp only: Let_def if_False if_bool_eq_disj, blast)
qed

lemma value_contains_token_loop_iff:
  "needle \<noteq> [] \<Longrightarrow> value_contains_token_loop needle v \<longleftrightarrow> token_of needle v"
proof (induction needle v rule: value_contains_token_loop.induct)
  case (1 needle v)
  let ?p = "dropWhile (\<lambda>c. \<not> token_char c) v"
  let ?run = "takeWhile token_char ?p"
  let ?rest = "dropWhile token_char ?p"
  have step: "token_of needle v \<longleftrightarrow> needle = ?run \<or> token_of needle ?rest"
  proof (rule token_of_step)
    show "v = takeWhile (\<lambda>c. \<not> token_char c) v @ ?run @ ?rest" by simp
    show "list_all (\<lambda>c. \<not> token_char c) (takeWhile (\<lambda>c. \<not> token_char c) v)"
      "list_all token_char ?run"
      by (auto simp: list_all_iff dest: set_takeWhileD)
    show "?rest = [] \<or> \<not> token_char (hd ?rest)" by (rule hd_dropWhile')
    show "needle \<noteq> []" by (rule "1.prems")
  qed
  show ?case
  proof (cases "v = []")
    case True
    then show ?thesis by (simp add: value_contains_token_loop.simps)
  next
    case False
    show ?thesis
    proof (cases "needle = ?run")
      case True
      with step False show ?thesis by (simp add: value_contains_token_loop_unfold)
    next
      case neq: False
      with False have "value_contains_token_loop needle ?rest = token_of needle ?rest"
        by (intro "1.IH") (auto simp: "1.prems" starts_with_def)
      with step False neq show ?thesis by (simp add: value_contains_token_loop_unfold)
    qed
  qed
qed

lemma value_contains_token_iff: "value_contains_token v needle \<longleftrightarrow> token_of needle v"
  using value_contains_token_loop_iff [of needle v] token_of_nonempty [of needle v]
  by (auto simp: value_contains_token_def)

section \<open>What the pattern scan finds\<close>

text \<open>One round of the pattern loop.\<close>

lemma patterns_match_stop:
  "dropWhile (\<lambda>c. \<not> is_quote c) v = [] \<Longrightarrow> patterns_match_loop subject v saw = (False, saw)"
  by (subst patterns_match_loop.simps) (simp del: dropWhile_eq_Nil_conv)

lemma patterns_match_step:
  assumes "dropWhile (\<lambda>c. \<not> is_quote c) v = quote # start"
  shows "patterns_match_loop subject v saw =
    (let body = takeWhile (\<lambda>c. c \<noteq> quote) start;
         rest = tl (dropWhile (\<lambda>c. c \<noteq> quote) start) in
     if body \<noteq> [] \<and> sublist (take 127 body) subject then (True, True)
     else patterns_match_loop subject rest (if body \<noteq> [] then True else saw))"
proof -
  from assms have "v \<noteq> []" by auto
  moreover have "(if x = [] then [] else tl x) = tl x" for x :: string by (cases x) simp_all
  moreover have "c_strstr subject (c_buf 128 b) \<noteq> None \<longleftrightarrow> sublist (take 127 b) subject" for b
    by (simp only: c_strstr_sublist c_buf_def) simp
  ultimately show ?thesis
    by (subst patterns_match_loop.simps) (simp only: assms if_False list.case Let_def, auto)
qed

section \<open>What the header loop computes\<close>

text \<open>The same loop on the lines of the header.\<close>

fun trigger_lines :: "string \<Rightarrow> string \<Rightarrow> string list \<Rightarrow> trigger_state \<Rightarrow> trigger_state" where
  "trigger_lines tool_name subject [] st = st"
| "trigger_lines tool_name subject (line # ls) st =
     (if line = [] then trigger_lines tool_name subject ls st
      else if \<not> c_isspace (hd line) then
        (if starts_with ''triggers:'' line then
           trigger_lines tool_name subject ls (st\<lparr>in_triggers := True, saw_triggers := True\<rparr>)
         else if in_triggers st then st
         else trigger_lines tool_name subject ls st)
      else if in_triggers st then
        trigger_lines tool_name subject ls (trigger_entry tool_name subject line st)
      else trigger_lines tool_name subject ls st)"

lemma trigger_key_on_line:
  assumes "n \<le> length p" and "first_line (take n p) \<noteq> []"
    and "n < length p \<Longrightarrow> p ! n = nl"
  shows "starts_with ''triggers:'' (first_line (take n p)) \<longleftrightarrow> starts_with ''triggers:'' p"
proof -
  have "first_line (take n p) = first_line p"
  proof (cases "n < length p")
    case True
    with assms(3) id_take_nth_drop [OF True] have "p = take n p @ nl # drop (Suc n) p"
      by simp
    then show ?thesis
      by (metis (mono_tags, lifting) first_line_def takeWhile_append1 takeWhile_append2
          takeWhile_tail takeWhile_eq_all_conv)
  next
    case False
    with assms(1) show ?thesis by simp
  qed
  then show ?thesis by (simp add: starts_with_first_line del: starts_with_Cons)
qed

text \<open>
  The region ends at \<open>header_end\<close>, which points to a newline: the unbounded comparison
  with the key never matches across it.
\<close>

lemma trigger_loop_lines:
  assumes "n \<le> length p" and "n < length p \<Longrightarrow> p ! n = nl"
  shows "trigger_loop tool_name subject p n st =
           trigger_lines tool_name subject (lines_of (take n p)) st"
  using assms
proof (induction tool_name subject p n st rule: trigger_loop.induct)
  case (1 tool_name subject p n st)
  show ?case
  proof (cases "n = 0")
    case True
    then show ?thesis by (simp add: trigger_loop.simps)
  next
    case False
    let ?line = "first_line (take n p)"
    define adv where "adv = (if length ?line < n then length ?line + 1 else n)"
    have adv: "adv \<le> n" by (simp add: adv_def)
    have nonempty: "take n p \<noteq> []" using False "1.prems"(1) by auto
    have "length ?line \<le> n" using length_first_line [of "take n p"] by simp
    then have rest: "take (n - adv) (drop adv p) = drop (length ?line + 1) (take n p)"
      by (auto simp: adv_def drop_take)
    have lines: "lines_of (take n p) = ?line # lines_of (take (n - adv) (drop adv p))"
      using nonempty by (subst lines_of.simps) (simp add: rest)
    have pre: "n - adv \<le> length (drop adv p)"
      "n - adv < length (drop adv p) \<Longrightarrow> drop adv p ! (n - adv) = nl"
      using "1.prems" adv by auto
    note IH = "1.IH" [OF False refl adv_def]
    show ?thesis
    proof (cases "?line = []")
      case True
      with IH(1) pre False show ?thesis
        by (subst trigger_loop.simps) (simp add: lines adv_def)
    next
      case nonempty_line: False
      note key = trigger_key_on_line [OF "1.prems"(1) nonempty_line "1.prems"(2)]
      show ?thesis
        using False nonempty_line IH(2-) pre key
        by (subst trigger_loop.simps)
          (simp add: lines adv_def [symmetric] del: starts_with_Cons)
    qed
  qed
qed

section \<open>The specification of a trigger match\<close>

text \<open>
  The block of a header: the indented lines from the first \<open>triggers:\<close> line up to the
  next top-level line that is not one.
\<close>

definition opens_block :: "string \<Rightarrow> bool" where
  "opens_block l \<longleftrightarrow> starts_with ''triggers:'' l"

definition in_block :: "string \<Rightarrow> bool" where
  "in_block l \<longleftrightarrow> l = [] \<or> c_isspace (hd l) \<or> opens_block l"

definition entry_line :: "string \<Rightarrow> bool" where
  "entry_line l \<longleftrightarrow> l \<noteq> [] \<and> c_isspace (hd l)"

definition trigger_block :: "string list \<Rightarrow> string list" where
  "trigger_block ls = filter entry_line (takeWhile in_block (dropWhile (\<lambda>l. \<not> opens_block l) ls))"

definition pattern_value :: "string \<Rightarrow> string option" where
  "pattern_value l = (case line_value l ''arg_pattern'' of
     Some v \<Rightarrow> Some v | None \<Rightarrow> line_value l ''path_pattern'')"

text \<open>
  The abstract policy: the header has a block; if the block names tools, one of them is the
  tool; if it has patterns, one of them matches the subject.
\<close>

definition trigger_policy :: "string \<Rightarrow> string \<Rightarrow> string list \<Rightarrow> bool" where
  "trigger_policy tool_name subject ls \<longleftrightarrow>
     (\<exists>l \<in> set ls. opens_block l)
     \<and> ((\<forall>l \<in> set (trigger_block ls). line_value l ''tool'' = None)
        \<or> (\<exists>l \<in> set (trigger_block ls). \<exists>v. line_value l ''tool'' = Some v \<and> token_of tool_name v))
     \<and> ((\<forall>l \<in> set (trigger_block ls). pattern_value l = None)
        \<or> (\<exists>l \<in> set (trigger_block ls). \<exists>v. pattern_value l = Some v \<and> patterns_match v subject))"

lemma opens_block_top: "opens_block l \<Longrightarrow> l \<noteq> [] \<and> \<not> c_isspace (hd l)"
  by (cases l) (auto simp: opens_block_def c_chars ord_def)

lemma line_value_starts: "line_value l key = Some v \<Longrightarrow> starts_with key (dropWhile c_isspace l)"
  by (auto simp: line_value_def Let_def split: if_splits)

text \<open>A line has one key: a tool line is no pattern line.\<close>

lemma tool_line_no_pattern: "line_value l ''tool'' = Some v \<Longrightarrow> pattern_value l = None"
proof (cases "pattern_value l")
  case (Some w)
  assume "line_value l ''tool'' = Some v"
  then have "starts_with ''tool'' (dropWhile c_isspace l)" by (rule line_value_starts)
  moreover from Some have "starts_with ''arg_pattern'' (dropWhile c_isspace l)
      \<or> starts_with ''path_pattern'' (dropWhile c_isspace l)"
    by (auto simp: pattern_value_def split: option.splits dest: line_value_starts simp del: starts_with_Cons)
  ultimately show ?thesis by (auto split: list.splits)
qed

text \<open>The state after a list of entry lines, field by field.\<close>

lemma trigger_entry_fields:
  "in_triggers (trigger_entry t s l st) = in_triggers st"
  "saw_triggers (trigger_entry t s l st) = saw_triggers st"
  "saw_tool (trigger_entry t s l st) \<longleftrightarrow> saw_tool st \<or> line_value l ''tool'' \<noteq> None"
  "tool_match (trigger_entry t s l st) \<longleftrightarrow>
     tool_match st \<or> (\<exists>v. line_value l ''tool'' = Some v \<and> token_of t v)"
  "saw_pattern (trigger_entry t s l st) \<longleftrightarrow> saw_pattern st \<or> pattern_value l \<noteq> None"
  "pattern_match (trigger_entry t s l st) \<longleftrightarrow>
     pattern_match st \<or> (\<exists>v. pattern_value l = Some v \<and> patterns_match v s)"
  using tool_line_no_pattern [of l]
  by (auto simp: trigger_entry_def value_contains_token_iff pattern_value_def split: option.splits)

definition block_from :: "string list \<Rightarrow> string list" where
  "block_from ls = filter entry_line (takeWhile in_block ls)"

lemma block_from_simps:
  "block_from [] = []"
  "\<not> in_block l \<Longrightarrow> block_from (l # ls) = []"
  "in_block l \<Longrightarrow> block_from (l # ls) = (if entry_line l then l # block_from ls else block_from ls)"
  by (simp_all add: block_from_def)

lemma trigger_lines_in_block:
  assumes "in_triggers st" and "saw_triggers st"
  shows "saw_triggers (trigger_lines t s ls st)"
    and "saw_tool (trigger_lines t s ls st) \<longleftrightarrow>
      saw_tool st \<or> (\<exists>l \<in> set (block_from ls). line_value l ''tool'' \<noteq> None)"
    and "tool_match (trigger_lines t s ls st) \<longleftrightarrow> tool_match st
      \<or> (\<exists>l \<in> set (block_from ls). \<exists>v. line_value l ''tool'' = Some v \<and> token_of t v)"
    and "saw_pattern (trigger_lines t s ls st) \<longleftrightarrow>
      saw_pattern st \<or> (\<exists>l \<in> set (block_from ls). pattern_value l \<noteq> None)"
    and "pattern_match (trigger_lines t s ls st) \<longleftrightarrow> pattern_match st
      \<or> (\<exists>l \<in> set (block_from ls). \<exists>v. pattern_value l = Some v \<and> patterns_match v s)"
  using assms
proof (induction ls arbitrary: st)
  case Nil
  { case 1 then show ?case by simp next case 2 then show ?case by (simp add: block_from_simps)
    next case 3 then show ?case by (simp add: block_from_simps)
    next case 4 then show ?case by (simp add: block_from_simps)
    next case 5 then show ?case by (simp add: block_from_simps) }
next
  case (Cons l ls)
  consider "l = []" | "opens_block l" "l \<noteq> []" "\<not> c_isspace (hd l)"
    | "entry_line l" | "\<not> in_block l" "l \<noteq> []" "\<not> c_isspace (hd l)" "\<not> opens_block l"
    using opens_block_top [of l] by (auto simp: in_block_def entry_line_def)
  note kinds = this
  note unfolds = opens_block_def [symmetric] block_from_simps in_block_def entry_line_def
    trigger_entry_fields Cons.IH
  { case 1 then show ?case by (cases rule: kinds) (auto simp: unfolds simp del: starts_with_Cons)
    next case 2 then show ?case by (cases rule: kinds) (auto simp: unfolds simp del: starts_with_Cons)
    next case 3 then show ?case by (cases rule: kinds) (auto simp: unfolds simp del: starts_with_Cons)
    next case 4 then show ?case by (cases rule: kinds) (auto simp: unfolds simp del: starts_with_Cons)
    next case 5 then show ?case by (cases rule: kinds) (auto simp: unfolds simp del: starts_with_Cons) }
qed

text \<open>Lines before the block change nothing.\<close>

lemma trigger_lines_before:
  assumes "\<not> in_triggers st"
  shows "trigger_lines t s ls st =
    (case dropWhile (\<lambda>l. \<not> opens_block l) ls of
       [] \<Rightarrow> st
     | l # rest \<Rightarrow> trigger_lines t s rest (st\<lparr>in_triggers := True, saw_triggers := True\<rparr>))"
  using assms
proof (induction ls)
  case Nil
  then show ?case by simp
next
  case (Cons l ls)
  then show ?case
    using opens_block_top [of l] by (auto simp: opens_block_def simp del: starts_with_Cons)
qed

lemma trigger_block_alt:
  "trigger_block ls = (case dropWhile (\<lambda>l. \<not> opens_block l) ls of
     [] \<Rightarrow> [] | l # rest \<Rightarrow> block_from rest)"
proof (cases "dropWhile (\<lambda>l. \<not> opens_block l) ls")
  case Nil
  show ?thesis by (simp only: trigger_block_def Nil takeWhile.simps filter.simps list.case)
next
  case (Cons l rest)
  then have "opens_block l" by (simp add: dropWhile_eq_Cons_conv)
  with Cons opens_block_top [of l] show ?thesis
    by (simp add: trigger_block_def block_from_def in_block_def entry_line_def)
qed

lemma trigger_lines_policy:
  "(let st = trigger_lines t s ls trigger_init in
      saw_triggers st \<and> (\<not> saw_tool st \<or> tool_match st) \<and> (\<not> saw_pattern st \<or> pattern_match st))
   \<longleftrightarrow> trigger_policy t s ls"
proof (cases "dropWhile (\<lambda>l. \<not> opens_block l) ls")
  case Nil
  then have none: "\<not> (\<exists>l \<in> set ls. opens_block l)" by simp
  have "trigger_lines t s ls trigger_init = trigger_init"
    by (subst trigger_lines_before) (simp_all only: Nil list.case, simp add: trigger_init_def)
  with none show ?thesis by (simp add: trigger_init_def trigger_policy_def)
next
  case (Cons l rest)
  then have "opens_block l" by (simp add: dropWhile_eq_Cons_conv)
  moreover have "l \<in> set ls" by (metis Cons list.set_intros(1) set_dropWhileD)
  ultimately have "\<exists>l \<in> set ls. opens_block l" by blast
  with Cons show ?thesis
    by (simp add: trigger_lines_before trigger_lines_in_block trigger_block_alt trigger_init_def
        trigger_policy_def) auto
qed

text \<open>
  The header of a skill: its frontmatter region, if it has one.
\<close>

definition header_text :: "string \<Rightarrow> string option" where
  "header_text content =
     (if fm_opens content
      then map_option (\<lambda>(start, header_len). take header_len (drop start content)) (fm_header content)
      else None)"

lemma trigger_matches_policy:
  assumes "t \<noteq> []" and "cstr t"
  shows "skill_trigger_policy_matches_content (Some c) (Some t) s \<longleftrightarrow>
    (\<exists>h. header_text c = Some h \<and> trigger_policy t (case s of None \<Rightarrow> [] | Some x \<Rightarrow> x) (lines_of h))"
proof (cases "fm_opens c \<and> fm_header c \<noteq> None")
  case False
  then consider "\<not> fm_opens c" | "fm_header c = None" by blast
  then show ?thesis
    by cases (simp_all add: skill_trigger_policy_matches_content_def header_text_def)
next
  case True
  then obtain i k where fm: "fm_opens c" "fm_header c = Some (i, k)" by auto
  note b = fm_header_bounds [OF fm(2)]
  have end_nl: "drop i c ! k = nl" "k \<le> length (drop i c)"
    using b by (auto simp: c_at_def split: list.splits dest: sym) (metis add_leE hd_drop_conv_nth
      drop_all linorder_not_le list.distinct(1) list.sel(1) nth_drop)
  from assms have "c_at t 0 \<noteq> nul" by (cases t) (auto simp: c_at_def)
  with fm end_nl show ?thesis
    by (simp add: skill_trigger_policy_matches_content_def header_text_def trigger_loop_lines
        trigger_lines_policy [symmetric] Let_def)
qed

end
