(* ===== verification/Skill_Adapter.thy ===== *)
theory Skill_Adapter
  imports Skill_Wire Skill_Trigger
begin

text \<open>
  The C process handler of \<open>module_adapter.c\<close>: it dispatches on the stage of an
  invocation, decodes the request, asks the policy and encodes the answer.

  Outside the repository: \<open>aimee_module_invocation_cancelled\<close> (a field of the invocation
  here) and the success of \<open>malloc\<close> (the argument \<open>alloc\<close>, from a size to whether the
  allocation succeeds). A NULL pointer is None. A handler returns its status and, with
  OK, the bytes it leaves in the response buffer.
\<close>

datatype module_status =
  StatusOK | StatusCapabilityAbsent | StatusCancelled | StatusDeadlineExceeded
  | StatusInvalidRequest | StatusInternal

record invocation =
  stage_id :: u32
  cancelled :: bool

type_synonym handler_result = "module_status \<times> u8 list"

section \<open>Stage 1: review nudge\<close>

text \<open>Both operands are positive when \<open>%\<close> is reached, so C's remainder is \<open>mod\<close>.\<close>

definition review_fires :: "u32 \<Rightarrow> u32 \<Rightarrow> bool" where
  "review_fires count interval \<longleftrightarrow>
     sint interval > 0 \<and> sint count > 0 \<and> sint count mod sint interval = 0"

definition handle_review :: "u8 list option \<Rightarrow> nat \<Rightarrow> handler_result" where
  "handle_review request_body response_capacity =
     (case request_body of
        None \<Rightarrow> (StatusInvalidRequest, [])
      | Some req \<Rightarrow>
          if length req \<noteq> REQUEST_LEN \<or> response_capacity < RESPONSE_LEN
             \<or> aimee_skills_get_u32 req \<noteq> REQUEST_MAGIC
             \<or> aimee_skills_get_u32 (drop 4 req) \<noteq> WIRE_VERSION
          then (StatusInvalidRequest, [])
          else
            let count = aimee_skills_get_u32 (drop 8 req);
                interval = aimee_skills_get_u32 (drop 12 req);
                fire = (if review_fires count interval then 1 else 0) in
            (StatusOK, aimee_skills_put_u32 RESPONSE_MAGIC @ aimee_skills_put_u32 fire))"

section \<open>Stage 2: trigger match\<close>

definition handle_trigger :: "(nat \<Rightarrow> bool) \<Rightarrow> u8 list option \<Rightarrow> nat \<Rightarrow> handler_result" where
  "handle_trigger alloc request_body response_capacity =
     (if response_capacity < TRIGGER_RESPONSE_LEN then (StatusInvalidRequest, [])
      else
        (case aimee_skills_trigger_request_decode request_body of
           None \<Rightarrow> (StatusInvalidRequest, [])
         | Some (content_bytes, tool_bytes, subject_bytes) \<Rightarrow>
             if \<not> alloc (length content_bytes + 1) \<or> \<not> alloc (length tool_bytes + 1)
                \<or> \<not> alloc (length subject_bytes + 1)
             then (StatusInternal, [])
             else
               let match = skill_trigger_policy_matches_content (Some (text_of_bytes content_bytes))
                             (Some (text_of_bytes tool_bytes)) (Some (text_of_bytes subject_bytes)) in
               (case aimee_skills_trigger_response_encode (if match then 1 else 0)
                       (Some response_capacity) of
                  None \<Rightarrow> (StatusInternal, [])
                | Some bs \<Rightarrow> (StatusOK, bs))))"

section \<open>Dispatch\<close>

definition aimee_module_handler ::
  "(nat \<Rightarrow> bool) \<Rightarrow> invocation option \<Rightarrow> u8 list option \<Rightarrow> nat \<Rightarrow> bool \<Rightarrow> handler_result" where
  "aimee_module_handler alloc invocation request_body response_capacity response_len_ok =
     (case invocation of
        None \<Rightarrow> (StatusInvalidRequest, [])
      | Some iv \<Rightarrow>
          if \<not> response_len_ok then (StatusInvalidRequest, [])
          else if cancelled iv then (StatusCancelled, [])
          else if stage_id iv = STAGE_CONTEXT then handle_review request_body response_capacity
          else if stage_id iv = STAGE_TRIGGER then handle_trigger alloc request_body response_capacity
          else (StatusInvalidRequest, []))"

section \<open>The review request and response as codecs\<close>

definition review_request :: "u32 \<times> u32 \<Rightarrow> u8 list" where
  "review_request = (\<lambda>(count, interval).
     case aimee_skills_request_encode count interval (Some REQUEST_LEN) of Some bs \<Rightarrow> bs | None \<Rightarrow> [])"

text \<open>What \<open>handle_review\<close> accepts, as a decoder: it answers OK.\<close>

definition review_fields :: "u8 list \<Rightarrow> (u32 \<times> u32) option" where
  "review_fields bs =
     (if fst (handle_review (Some bs) RESPONSE_LEN) = StatusOK
      then Some (aimee_skills_get_u32 (drop 8 bs), aimee_skills_get_u32 (drop 12 bs)) else None)"

interpretation review_codec: wire_codec review_request review_fields "\<lambda>_. True"
proof
  fix x :: "u32 \<times> u32"
  show "review_fields (review_request x) = Some x"
    by (auto simp: review_fields_def review_request_def handle_review_def Let_def drop_fields
        aimee_skills_request_encode_def wire_lens split: prod.splits)
next
  fix bs x
  assume "review_fields bs = Some x"
  then have h: "length bs = 16" "aimee_skills_get_u32 bs = REQUEST_MAGIC"
    "aimee_skills_get_u32 (drop 4 bs) = WIRE_VERSION"
    "x = (aimee_skills_get_u32 (drop 8 bs), aimee_skills_get_u32 (drop 12 bs))"
    by (auto simp: review_fields_def handle_review_def wire_lens split: if_splits)
  then show "True \<and> review_request x = bs"
    using put_get_field [of 0 bs] put_get_field [of 4 bs] put_get_field [of 8 bs]
      put_get_field [of 12 bs]
    by (simp add: review_request_def aimee_skills_request_encode_def)
qed

text \<open>The answer of \<open>handle_review\<close> is what the client's decoder reads.\<close>

lemma handle_review_answer:
  "handle_review (Some bs) cap = (StatusOK, r) \<Longrightarrow>
   aimee_skills_response_decode (Some r) =
     Some (if review_fires (aimee_skills_get_u32 (drop 8 bs)) (aimee_skills_get_u32 (drop 12 bs))
           then 1 else 0)"
  by (auto simp: handle_review_def aimee_skills_response_decode_def drop_fields Let_def wire_lens
      split: if_splits)

lemma handle_review_ok:
  "RESPONSE_LEN \<le> cap \<Longrightarrow> \<exists>r. handle_review (Some (review_request (count, interval))) cap = (StatusOK, r)"
  by (auto simp: handle_review_def review_request_def aimee_skills_request_encode_def drop_fields
      Let_def wire_lens)

lemma review_request_fields:
  "aimee_skills_get_u32 (drop 8 (review_request (count, interval))) = count"
  "aimee_skills_get_u32 (drop 12 (review_request (count, interval))) = interval"
  by (simp_all add: review_request_def aimee_skills_request_encode_def drop_fields)

end
