(* ===== verification/Skill_Go.thy ===== *)
theory Skill_Go
  imports Skill_Adapter
begin

text \<open>
  The production handler, \<open>server-go/modules/skills/skills.go\<close>, and its parity with the C
  handler, which the repository keeps as the wire and behaviour fixture.

  A Go string or byte slice is the list of its bytes, as characters. A loop over a position
  is the recursion on what is left after it. \<open>bytes.TrimSpace\<close> is the Go library's: it
  decodes UTF-8 and drops the runes of \<open>unicode.IsSpace\<close>, so it trims more than C's
  \<open>isspace\<close>: that is where parity needs a hypothesis.
\<close>

section \<open>Review nudge\<close>

definition go_handleContext :: "u8 list \<Rightarrow> handler_result" where
  "go_handleContext request =
     (if length request \<noteq> 16
         \<or> aimee_skills_get_u32 (take 4 request) \<noteq> 0x58435453
         \<or> aimee_skills_get_u32 (take 4 (drop 4 request)) \<noteq> 1
      then (StatusInvalidRequest, [])
      else
        let count = sint (aimee_skills_get_u32 (take 4 (drop 8 request)));
            interval = sint (aimee_skills_get_u32 (take 4 (drop 12 request)));
            fire = (if interval > 0 \<and> count > 0 \<and> count mod interval = 0 then 1 else 0) in
        (StatusOK, aimee_skills_put_u32 0x57454956 @ aimee_skills_put_u32 fire))"

section \<open>Trigger match\<close>

definition go_triggerTokenByte :: "char \<Rightarrow> bool" where
  "go_triggerTokenByte value \<longleftrightarrow>
     (97 \<le> ord value \<and> ord value \<le> 122) \<or> (65 \<le> ord value \<and> ord value \<le> 90)
     \<or> (48 \<le> ord value \<and> ord value \<le> 57)
     \<or> value = CHR ''_'' \<or> value = CHR ''-'' \<or> value = CHR ''.''"

function go_token_loop :: "string \<Rightarrow> string \<Rightarrow> bool" where
  "go_token_loop needle value =
     (if value = [] then False
      else let tail = dropWhile (\<lambda>c. \<not> go_triggerTokenByte c) value in
        if takeWhile go_triggerTokenByte tail = needle then True
        else go_token_loop needle (dropWhile go_triggerTokenByte tail))"
  by pat_completeness auto
termination
  by (relation "measure (\<lambda>(needle, v). length v)") (simp_all add: skip_run_decreases)

declare go_token_loop.simps [simp del]

definition go_triggerValueContainsToken :: "string \<Rightarrow> string \<Rightarrow> bool" where
  "go_triggerValueContainsToken value needle \<longleftrightarrow> needle \<noteq> [] \<and> go_token_loop needle value"

text \<open>The result is whether a pattern matched and \<open>sawQuoted\<close>.\<close>

function go_patterns_loop :: "string \<Rightarrow> string \<Rightarrow> bool \<Rightarrow> bool \<times> bool" where
  "go_patterns_loop subject value sawQuoted =
     (if value = [] then (False, sawQuoted)
      else case dropWhile (\<lambda>c. c \<noteq> CHR 0x27 \<and> c \<noteq> CHR 0x22) value of
        [] \<Rightarrow> (False, sawQuoted)
      | quote # tail \<Rightarrow>
          let quoted = takeWhile (\<lambda>c. c \<noteq> quote) tail;
              rest = (case dropWhile (\<lambda>c. c \<noteq> quote) tail of [] \<Rightarrow> [] | _ # r \<Rightarrow> r) in
          if quoted \<noteq> [] then
            (if sublist (if length quoted > 127 then take 127 quoted else quoted) subject
             then (True, True)
             else go_patterns_loop subject rest True)
          else go_patterns_loop subject rest sawQuoted)"
  by pat_completeness auto

lemma go_patterns_decreases:
  assumes "dropWhile (\<lambda>c. c \<noteq> CHR 0x27 \<and> c \<noteq> CHR 0x22) v = quote # tail"
  shows "length (case dropWhile (\<lambda>c. c \<noteq> quote) tail of [] \<Rightarrow> [] | _ # r \<Rightarrow> r) < length v"
proof -
  have "length (quote # tail) \<le> length v"
    by (metis assms length_dropWhile_le)
  moreover have "length (dropWhile (\<lambda>c. c \<noteq> quote) tail) \<le> length tail"
    by (simp add: length_dropWhile_le)
  ultimately show ?thesis by (auto split: list.splits)
qed

termination go_patterns_loop
  by (relation "measure (\<lambda>(subject, v, saw). length v)")
    (simp_all add: go_patterns_decreases split del: if_split)

declare go_patterns_loop.simps [simp del]

definition go_triggerPatternsMatch :: "string \<Rightarrow> string \<Rightarrow> bool" where
  "go_triggerPatternsMatch value subject =
     (case go_patterns_loop subject value False of
        (hit, sawQuoted) \<Rightarrow>
          if hit then True
          else if sawQuoted then False
          else go_triggerValueContainsToken value subject)"

text \<open>
  \<open>bytes.TrimSpace\<close>: the UTF-8 encodings of the runes of \<open>unicode.IsSpace\<close>, dropped at
  both ends. An encoding at an end is what \<open>DecodeRune\<close> and \<open>DecodeLastRune\<close> decode there.
\<close>

definition go_space_runes :: "string list" where
  "go_space_runes =
  [[CHR 0x09], [CHR 0x0A], [CHR 0x0B], [CHR 0x0C], [CHR 0x0D], [CHR 0x20],
   [CHR 0xC2, CHR 0x85], [CHR 0xC2, CHR 0xA0], [CHR 0xE1, CHR 0x9A, CHR 0x80],
   [CHR 0xE2, CHR 0x80, CHR 0x80], [CHR 0xE2, CHR 0x80, CHR 0x81], [CHR 0xE2, CHR 0x80, CHR 0x82],
   [CHR 0xE2, CHR 0x80, CHR 0x83], [CHR 0xE2, CHR 0x80, CHR 0x84], [CHR 0xE2, CHR 0x80, CHR 0x85],
   [CHR 0xE2, CHR 0x80, CHR 0x86], [CHR 0xE2, CHR 0x80, CHR 0x87], [CHR 0xE2, CHR 0x80, CHR 0x88],
   [CHR 0xE2, CHR 0x80, CHR 0x89], [CHR 0xE2, CHR 0x80, CHR 0x8A], [CHR 0xE2, CHR 0x80, CHR 0xA8],
   [CHR 0xE2, CHR 0x80, CHR 0xA9], [CHR 0xE2, CHR 0x80, CHR 0xAF],
   [CHR 0xE2, CHR 0x81, CHR 0x9F], [CHR 0xE3, CHR 0x80, CHR 0x80]]"

function go_trim_front :: "string list \<Rightarrow> string \<Rightarrow> string" where
  "go_trim_front runes s =
     (case find (\<lambda>r. r \<noteq> [] \<and> starts_with r s) runes of
        None \<Rightarrow> s
      | Some r \<Rightarrow> go_trim_front runes (drop (length r) s))"
  by pat_completeness auto
termination
proof (relation "measure (\<lambda>(runes, s). length s)", simp)
  fix runes :: "string list" and s r
  assume "find (\<lambda>r. r \<noteq> [] \<and> starts_with r s) runes = Some r"
  then have "r \<noteq> []" "take (length r) s = r" by (auto simp: find_Some_iff starts_with_def)
  moreover from this have "s \<noteq> []" by auto
  ultimately show "((runes, drop (length r) s), runes, s) \<in> measure (\<lambda>(runes, s). length s)"
    by simp
qed

declare go_trim_front.simps [simp del]

definition go_TrimSpace :: "string \<Rightarrow> string" where
  "go_TrimSpace s = rev (go_trim_front (map rev go_space_runes) (rev (go_trim_front go_space_runes s)))"

definition go_triggerLineValue :: "string \<Rightarrow> string \<Rightarrow> string option" where
  "go_triggerLineValue line key =
     (let line' = go_TrimSpace line; pre = key @ '':'' in
      if \<not> starts_with pre line' then None
      else Some (go_TrimSpace (drop (length pre) line')))"

text \<open>\<open>bytes.Split\<close> at newlines.\<close>

fun go_Split :: "string \<Rightarrow> string list" where
  "go_Split [] = [[]]"
| "go_Split (c # s) =
     (if c = nl then [] # go_Split s
      else case go_Split s of [] \<Rightarrow> [[c]] | l # ls \<Rightarrow> (c # l) # ls)"

definition go_trigger_entry :: "string \<Rightarrow> string \<Rightarrow> string \<Rightarrow> trigger_state \<Rightarrow> trigger_state" where
  "go_trigger_entry toolName subject line st =
     (case go_triggerLineValue line ''tool'' of
        Some value \<Rightarrow>
          st\<lparr>saw_tool := True,
             tool_match := tool_match st \<or> go_triggerValueContainsToken value toolName\<rparr>
      | None \<Rightarrow>
          (case go_triggerLineValue line ''arg_pattern'' of
             Some value \<Rightarrow>
               st\<lparr>saw_pattern := True,
                  pattern_match := pattern_match st \<or> go_triggerPatternsMatch value subject\<rparr>
           | None \<Rightarrow>
               (case go_triggerLineValue line ''path_pattern'' of
                  Some value \<Rightarrow>
                    st\<lparr>saw_pattern := True,
                       pattern_match := pattern_match st \<or> go_triggerPatternsMatch value subject\<rparr>
                | None \<Rightarrow> st)))"

fun go_trigger_lines :: "string \<Rightarrow> string \<Rightarrow> string list \<Rightarrow> trigger_state \<Rightarrow> trigger_state" where
  "go_trigger_lines toolName subject [] st = st"
| "go_trigger_lines toolName subject (line # ls) st =
     (if length line = 0 then go_trigger_lines toolName subject ls st
      else if hd line \<noteq> CHR '' '' \<and> hd line \<noteq> tab \<and> hd line \<noteq> cr \<and> hd line \<noteq> nl
              \<and> hd line \<noteq> CHR 0x0B \<and> hd line \<noteq> CHR 0x0C then
        (if starts_with ''triggers:'' line then
           go_trigger_lines toolName subject ls (st\<lparr>in_triggers := True, saw_triggers := True\<rparr>)
         else if in_triggers st then st
         else go_trigger_lines toolName subject ls st)
      else if \<not> in_triggers st then go_trigger_lines toolName subject ls st
      else go_trigger_lines toolName subject ls (go_trigger_entry toolName subject line st))"

definition go_triggerMatches :: "string \<Rightarrow> string \<Rightarrow> string \<Rightarrow> bool" where
  "go_triggerMatches content toolName subject =
     (if toolName = [] \<or> length content < 4 \<or> take 3 content \<noteq> ''---''
         \<or> (content ! 3 \<noteq> nl \<and> content ! 3 \<noteq> cr) then False
      else
        (case c_strchr content nl of
           None \<Rightarrow> False
         | Some headerStart \<Rightarrow>
             let headerTail = drop (headerStart + 1) content in
             (case c_strstr headerTail (nl # ''---'') of
                None \<Rightarrow> False
              | Some headerEnd \<Rightarrow>
                  let st = go_trigger_lines toolName subject (go_Split (take headerEnd headerTail))
                             trigger_init in
                  saw_triggers st \<and> (\<not> saw_tool st \<or> tool_match st)
                  \<and> (\<not> saw_pattern st \<or> pattern_match st))))"

definition go_handleTrigger :: "u8 list \<Rightarrow> handler_result" where
  "go_handleTrigger request =
     (if length request < 20 \<or> aimee_skills_get_u32 (take 4 request) \<noteq> 0x51544b53
         \<or> aimee_skills_get_u32 (take 4 (drop 4 request)) \<noteq> 1
      then (StatusInvalidRequest, [])
      else
        let contentLen = unat (aimee_skills_get_u32 (take 4 (drop 8 request)));
            toolLen = unat (aimee_skills_get_u32 (take 4 (drop 12 request)));
            subjectLen = unat (aimee_skills_get_u32 (take 4 (drop 16 request)));
            total = 20 + contentLen + toolLen + subjectLen in
        if contentLen > 100 * 1024 \<or> toolLen = 0 \<or> toolLen > 255 \<or> subjectLen > 1024 * 1024
           \<or> total \<noteq> length request
        then (StatusInvalidRequest, [])
        else
          let contentEnd = 20 + contentLen; toolEnd = contentEnd + toolLen in
          if 0 \<in> set (take (total - 20) (drop 20 request)) then (StatusInvalidRequest, [])
          else
            let match = go_triggerMatches
                  (text_of_bytes (take (contentEnd - 20) (drop 20 request)))
                  (text_of_bytes (take (toolEnd - contentEnd) (drop contentEnd request)))
                  (text_of_bytes (take (total - toolEnd) (drop toolEnd request))) in
            (StatusOK, aimee_skills_put_u32 0x52544b53 @ aimee_skills_put_u32 1
               @ aimee_skills_put_u32 (if match then 1 else 0)))"

definition go_Handle :: "invocation \<Rightarrow> u8 list \<Rightarrow> handler_result" where
  "go_Handle iv request =
     (if stage_id iv \<noteq> 1 \<and> stage_id iv \<noteq> 2 then (StatusInvalidRequest, [])
      else if cancelled iv then (StatusCancelled, [])
      else if stage_id iv = 1 then go_handleContext request
      else go_handleTrigger request)"

section \<open>Parity of the parts\<close>

lemma go_token_char: "go_triggerTokenByte c \<longleftrightarrow> token_char c"
  by (auto simp: go_triggerTokenByte_def token_char_def c_chars)

lemma go_token_loop_parity: "go_token_loop needle v \<longleftrightarrow> value_contains_token_loop needle v"
proof (induction needle v rule: value_contains_token_loop.induct)
  case (1 needle v)
  have f: "go_triggerTokenByte = token_char" by (rule ext) (rule go_token_char)
  show ?case
  proof (cases "v = []")
    case True
    then show ?thesis by (simp add: go_token_loop.simps value_contains_token_loop.simps)
  next
    case False
    show ?thesis
    proof (cases "takeWhile token_char (dropWhile (\<lambda>c. \<not> token_char c) v) = needle")
      case True
      with False show ?thesis
        by (subst go_token_loop.simps) (simp add: value_contains_token_loop_unfold f Let_def)
    next
      case neq: False
      with False have "go_token_loop needle (dropWhile token_char (dropWhile (\<lambda>c. \<not> token_char c) v))
          = value_contains_token_loop needle (dropWhile token_char (dropWhile (\<lambda>c. \<not> token_char c) v))"
        by (intro "1.IH") (auto simp: starts_with_def)
      with False neq show ?thesis
        by (subst go_token_loop.simps) (auto simp: value_contains_token_loop_unfold f Let_def)
    qed
  qed
qed

lemma go_contains_token_parity: "go_triggerValueContainsToken v needle \<longleftrightarrow> value_contains_token v needle"
  by (simp add: go_triggerValueContainsToken_def value_contains_token_def go_token_loop_parity)

lemma go_patterns_stop:
  "dropWhile (\<lambda>c. c \<noteq> CHR 0x27 \<and> c \<noteq> CHR 0x22) v = [] \<Longrightarrow> go_patterns_loop subject v saw = (False, saw)"
  by (subst go_patterns_loop.simps) (simp del: dropWhile_eq_Nil_conv)

lemma go_patterns_step:
  assumes "dropWhile (\<lambda>c. c \<noteq> CHR 0x27 \<and> c \<noteq> CHR 0x22) v = quote # start"
  shows "go_patterns_loop subject v saw =
    (let body = takeWhile (\<lambda>c. c \<noteq> quote) start;
         rest = tl (dropWhile (\<lambda>c. c \<noteq> quote) start) in
     if body \<noteq> [] \<and> sublist (take 127 body) subject then (True, True)
     else go_patterns_loop subject rest (if body \<noteq> [] then True else saw))"
proof -
  from assms have "v \<noteq> []" by auto
  moreover have "(case x of [] \<Rightarrow> [] | _ # r \<Rightarrow> r) = tl x" for x :: string by (cases x) simp_all
  moreover have "(if 127 < length b then take 127 b else b) = take 127 b" for b :: string by simp
  ultimately show ?thesis
    by (subst go_patterns_loop.simps) (simp only: assms if_False list.case Let_def, auto)
qed

lemma go_patterns_loop_parity: "go_patterns_loop subject v saw = patterns_match_loop subject v saw"
proof (induction "length v" arbitrary: v saw rule: less_induct)
  case less
  have q: "(\<lambda>c. c \<noteq> CHR 0x27 \<and> c \<noteq> CHR 0x22) = (\<lambda>c. \<not> is_quote c)"
    by (auto simp: is_quote_def)
  show ?case
  proof (cases "dropWhile (\<lambda>c. \<not> is_quote c) v")
    case Nil
    then show ?thesis by (simp only: patterns_match_stop go_patterns_stop q)
  next
    case (Cons quote start)
    have "length (tl (dropWhile (\<lambda>c. c \<noteq> quote) start)) < length v"
      using patterns_match_decreases [OF Cons] by simp
    note IH = less [OF this]
    show ?thesis
      by (simp only: patterns_match_step [OF Cons] go_patterns_step [unfolded q, OF Cons] Let_def IH)
  qed
qed

lemma go_patterns_parity: "go_triggerPatternsMatch v subject \<longleftrightarrow> patterns_match v subject"
  by (simp add: go_triggerPatternsMatch_def patterns_match_def go_patterns_loop_parity
      go_contains_token_parity)

section \<open>Parity of the decision on ASCII content\<close>

text \<open>On text below 128 the two libraries agree on what a space is.\<close>

definition ascii :: "string \<Rightarrow> bool" where
  "ascii s \<longleftrightarrow> (\<forall>c \<in> set s. ord c < 128)"

lemma ascii_simps [simp]:
  "ascii []" "ascii (c # s) \<longleftrightarrow> ord c < 128 \<and> ascii s" "ascii (s @ t) \<longleftrightarrow> ascii s \<and> ascii t"
  "ascii (rev s) \<longleftrightarrow> ascii s"
  by (auto simp: ascii_def)

lemma ascii_take [intro]: "ascii s \<Longrightarrow> ascii (take n s)"
  and ascii_drop [intro]: "ascii s \<Longrightarrow> ascii (drop n s)"
  and ascii_dropWhile [intro]: "ascii s \<Longrightarrow> ascii (dropWhile P s)"
  by (auto simp: ascii_def dest: in_set_takeD in_set_dropD set_dropWhileD)

lemma ascii_strip_right [intro]: "ascii s \<Longrightarrow> ascii (strip_right P s)"
  by (simp add: strip_right_def ascii_dropWhile)

lemma c_isspace_values:
  "c_isspace c \<longleftrightarrow> c \<in> {CHR 0x09, CHR 0x0A, CHR 0x0B, CHR 0x0C, CHR 0x0D, CHR 0x20}"
proof -
  have at: "ord c = n \<longleftrightarrow> c = char_of n" if "n < 256" for n
    using that by (metis char_of_ord ord_char_of)
  have "c_isspace c \<longleftrightarrow> ord c = 9 \<or> ord c = 10 \<or> ord c = 11 \<or> ord c = 12 \<or> ord c = 13 \<or> ord c = 32"
    unfolding c_isspace_def by linarith
  moreover have "char_of (9 :: nat) = CHR 0x09" "char_of (10 :: nat) = CHR 0x0A"
    "char_of (11 :: nat) = CHR 0x0B" "char_of (12 :: nat) = CHR 0x0C"
    "char_of (13 :: nat) = CHR 0x0D" "char_of (32 :: nat) = CHR 0x20"
    by (simp_all add: char_of_def bit_0)
  ultimately show ?thesis by (simp only: at insert_iff empty_iff) simp
qed

text \<open>The first rune that can be dropped from a text, or none.\<close>

definition go_first_space :: "string list \<Rightarrow> string \<Rightarrow> string option" where
  "go_first_space runes s = find (\<lambda>r. r \<noteq> [] \<and> starts_with r s) runes"

lemma go_trim_front_unfold:
  "go_trim_front runes s =
     (case go_first_space runes s of None \<Rightarrow> s | Some r \<Rightarrow> go_trim_front runes (drop (length r) s))"
  by (subst go_trim_front.simps) (simp add: go_first_space_def)

text \<open>
  A table of runes that are the six ASCII spaces or open with a byte above 127, as the
  table read in either direction is.
\<close>

definition space_table :: "string list \<Rightarrow> bool" where
  "space_table runes \<longleftrightarrow>
     (\<forall>r \<in> set runes. r \<noteq> [] \<and> ((\<exists>c. r = [c] \<and> c_isspace c) \<or> 128 \<le> ord (hd r)))
     \<and> (\<forall>c. c_isspace c \<longrightarrow> [c] \<in> set runes)"

lemma space_table_runes: "space_table go_space_runes" "space_table (map rev go_space_runes)"
  unfolding space_table_def go_space_runes_def c_isspace_values
  by (simp_all add: ord_def)

lemma go_first_space_ascii:
  assumes t: "space_table runes" and c: "ord c < 128"
  shows "go_first_space runes (c # s) = (if c_isspace c then Some [c] else None)"
proof (cases "go_first_space runes (c # s)")
  case None
  then have "\<forall>r \<in> set runes. \<not> (r \<noteq> [] \<and> starts_with r (c # s))"
    by (auto simp: go_first_space_def find_None_iff)
  then have "[c] \<notin> set runes" by auto
  with t None show ?thesis by (auto simp: space_table_def)
next
  case (Some r)
  then have r: "r \<in> set runes" "r \<noteq> []" "starts_with r (c # s)"
    by (auto simp: go_first_space_def find_Some_iff)
  from r(2,3) have "hd r = c" by (cases r) auto
  with t c r have "r = [c]" "c_isspace c" unfolding space_table_def by fastforce+
  with Some show ?thesis by simp
qed

lemma go_trim_front_ascii:
  "space_table runes \<Longrightarrow> ascii s \<Longrightarrow> go_trim_front runes s = dropWhile c_isspace s"
proof (induction s)
  case Nil
  have "go_first_space runes [] = None"
    by (auto simp: go_first_space_def find_None_iff starts_with_def)
  then show ?case by (simp add: go_trim_front_unfold)
next
  case (Cons c s)
  then show ?case
    by (subst go_trim_front_unfold) (simp add: go_first_space_ascii)
qed

lemma go_TrimSpace_ascii:
  "ascii s \<Longrightarrow> go_TrimSpace s = strip_right c_isspace (dropWhile c_isspace s)"
  by (simp add: go_TrimSpace_def go_trim_front_ascii space_table_runes ascii_dropWhile strip_right_def)

lemma starts_with_snoc:
  "starts_with (key @ [c]) p \<longleftrightarrow> length key < length p \<and> starts_with key p \<and> p ! length key = c"
proof (cases "length key < length p")
  case True
  then have "take (length key + 1) p = take (length key) p @ [p ! length key]"
    by (simp add: take_Suc_conv_app_nth)
  with True show ?thesis by (simp add: starts_with_def)
next
  case False
  then show ?thesis by (auto simp: starts_with_def dest: arg_cong [of _ _ length])
qed

lemma go_line_value_ascii:
  assumes "ascii line"
  shows "go_triggerLineValue line key = line_value line key"
proof -
  let ?p = "dropWhile c_isspace line"
  let ?q = "strip_right c_isspace ?p"
  have trim: "go_TrimSpace line = ?q" using assms by (rule go_TrimSpace_ascii)
  obtain w where w: "?p = ?q @ w" "list_all c_isspace w" using strip_right_split by blast
  have colon: "\<not> c_isspace CHR '':''" by (simp add: c_chars ord_def)
  have iff: "starts_with (key @ '':'') ?q \<longleftrightarrow>
      length key < length ?p \<and> starts_with key ?p \<and> ?p ! length key = CHR '':''"
  proof
    assume "starts_with (key @ '':'') ?q"
    then have "starts_with (key @ '':'') ?p"
      by (metis prefix_order.trans prefix_strip_right starts_with_prefix)
    then show "length key < length ?p \<and> starts_with key ?p \<and> ?p ! length key = CHR '':''"
      by (simp add: starts_with_snoc)
  next
    assume h: "length key < length ?p \<and> starts_with key ?p \<and> ?p ! length key = CHR '':''"
    have "length key < length ?q"
    proof (rule ccontr)
      assume "\<not> length key < length ?q"
      with h w(1) have "?p ! length key \<in> set w"
        by (metis append_eq_conv_conj length_append linorder_not_less nat_add_left_cancel_less
            le_add_diff_inverse nth_append_right nth_mem)
      with h w(2) colon show False by (auto simp: list_all_iff)
    qed
    moreover from h have "take (length key + 1) ?p = key @ '':''"
      using starts_with_snoc [of key "CHR '':''" ?p] by (simp add: starts_with_def)
    ultimately show "starts_with (key @ '':'') ?q"
      by (subst (asm) w(1)) (simp add: starts_with_def)
  qed
  show ?thesis
  proof (cases "starts_with (key @ '':'') ?q")
    case False
    with iff show ?thesis
      by (auto simp: go_triggerLineValue_def line_value_def trim Let_def)
  next
    case True
    then have le: "length key + 1 \<le> length ?q" by (simp add: starts_with_snoc)
    have "ascii (drop (length key + 1) ?q)"
      using assms by (intro ascii_drop ascii_strip_right ascii_dropWhile)
    with True iff trim_after_strip [OF le] show ?thesis
      by (auto simp: go_triggerLineValue_def line_value_def trim Let_def go_TrimSpace_ascii)
  qed
qed

text \<open>The two ways to cut a header into lines differ in empty lines only.\<close>

lemma go_Split_line: "nl \<notin> set l \<Longrightarrow> go_Split l = [l]"
  by (induction l) auto

lemma go_Split_append: "nl \<notin> set l \<Longrightarrow> go_Split (l @ nl # r) = l # go_Split r"
  by (induction l) auto

lemma go_Split_lines: "filter (\<lambda>l. l \<noteq> []) (go_Split s) = filter (\<lambda>l. l \<noteq> []) (lines_of s)"
proof (induction s rule: lines_of.induct)
  case (1 s)
  show ?case
  proof (cases "s = []")
    case False
    note IH = "1.IH" [OF False]
    show ?thesis
    proof (cases rule: first_line_cases [of s])
      case all
      with False show ?thesis by (subst lines_of.simps) (simp add: go_Split_line)
    next
      case (cut r)
      then have "drop (length (first_line s) + 1) s = r"
        by (metis add.commute append_eq_conv_conj drop_Suc_Cons drop0 drop_drop plus_1_eq_Suc)
      with IH False have r: "filter (\<lambda>l. l \<noteq> []) (go_Split r) = filter (\<lambda>l. l \<noteq> []) (lines_of r)"
        and l: "lines_of s = first_line s # lines_of r"
        by (simp_all add: lines_of.simps [of s])
      have "go_Split s = first_line s # go_Split r"
        by (subst cut) (rule go_Split_append [OF first_line_no_nl])
      with r l show ?thesis by simp
    qed
  qed simp
qed

lemma trigger_lines_filter: "trigger_lines t s (filter (\<lambda>l. l \<noteq> []) ls) st = trigger_lines t s ls st"
  by (induction ls arbitrary: st) auto

lemma go_trigger_lines_filter:
  "go_trigger_lines t s (filter (\<lambda>l. l \<noteq> []) ls) st = go_trigger_lines t s ls st"
  by (induction ls arbitrary: st) auto

lemma go_trigger_entry_ascii: "ascii l \<Longrightarrow> go_trigger_entry t s l st = trigger_entry t s l st"
  by (auto simp: go_trigger_entry_def trigger_entry_def go_line_value_ascii go_contains_token_parity
      go_patterns_parity split: option.splits)

lemma go_trigger_lines_ascii:
  "\<forall>l \<in> set ls. ascii l \<Longrightarrow> go_trigger_lines t s ls st = trigger_lines t s ls st"
proof (induction ls arbitrary: st)
  case (Cons l ls)
  have "(hd l \<noteq> CHR '' '' \<and> hd l \<noteq> tab \<and> hd l \<noteq> cr \<and> hd l \<noteq> nl \<and> hd l \<noteq> CHR 0x0B \<and> hd l \<noteq> CHR 0x0C)
      \<longleftrightarrow> \<not> c_isspace (hd l)"
    by (auto simp: c_isspace_values)
  with Cons show ?case by (simp add: go_trigger_entry_ascii del: starts_with_Cons)
qed simp

lemma ascii_lines_of: "ascii s \<Longrightarrow> l \<in> set (lines_of s) \<Longrightarrow> ascii l"
proof (induction s rule: lines_of.induct)
  case (1 s)
  have "ascii (first_line s)" using "1.prems"(1) by (auto simp: ascii_def first_line_def dest: set_takeWhileD)
  moreover have "s \<noteq> []" using "1.prems"(2) by auto
  moreover from this "1.prems"(2) have "l = first_line s \<or> l \<in> set (lines_of (drop (length (first_line s) + 1) s))"
    by (subst (asm) lines_of.simps) simp
  ultimately show ?case using "1.IH" "1.prems"(1) by (auto intro: ascii_drop)
qed

lemma go_policy_parity:
  assumes t: "cstr t" and h: "\<And>h. header_text c = Some h \<Longrightarrow> ascii h"
  shows "go_triggerMatches c t s = skill_trigger_policy_matches_content (Some c) (Some t) (Some s)"
proof (cases "t = []")
  case True
  then show ?thesis by (simp add: go_triggerMatches_def skill_trigger_policy_matches_content_def c_at_def)
next
  case False
  have opens: "fm_opens c \<longleftrightarrow> \<not> (length c < 4 \<or> take 3 c \<noteq> ''---'' \<or> (c ! 3 \<noteq> nl \<and> c ! 3 \<noteq> cr))"
    by (auto simp: fm_opens_def c_at_def starts_with_def numeral_3_eq_3)
  show ?thesis
  proof (cases "header_text c")
    case None
    then have "\<not> fm_opens c \<or> fm_header c = None" by (auto simp: header_text_def split: if_splits)
    with opens trigger_matches_policy [OF False t, of c "Some s"] None show ?thesis
      by (auto simp: go_triggerMatches_def fm_header_def split: option.splits)
  next
    case (Some hd)
    then obtain i k where fm: "fm_opens c" "fm_header c = Some (i, k)" "hd = take k (drop i c)"
      by (auto simp: header_text_def split: if_splits)
    then obtain j where j: "c_strchr c nl = Some j" "i = j + 1"
        "c_strstr (drop (j + 1) c) (nl # ''---'') = Some k"
      by (auto simp: fm_header_def split: option.splits)
    have lines: "go_trigger_lines t s (go_Split hd) trigger_init = trigger_lines t s (lines_of hd) trigger_init"
    proof -
      have "go_trigger_lines t s (go_Split hd) trigger_init =
          go_trigger_lines t s (filter (\<lambda>l. l \<noteq> []) (lines_of hd)) trigger_init"
        by (metis go_Split_lines go_trigger_lines_filter)
      also have "\<dots> = trigger_lines t s (filter (\<lambda>l. l \<noteq> []) (lines_of hd)) trigger_init"
        using ascii_lines_of [OF h [OF Some]] by (intro go_trigger_lines_ascii) auto
      finally show ?thesis by (simp add: trigger_lines_filter)
    qed
    have "skill_trigger_policy_matches_content (Some c) (Some t) (Some s) \<longleftrightarrow> trigger_policy t s (lines_of hd)"
      using Some trigger_matches_policy [OF False t, of c "Some s"] by simp
    also have "\<dots> \<longleftrightarrow> go_triggerMatches c t s"
      using False fm opens j lines
      by (auto simp: go_triggerMatches_def trigger_lines_policy [symmetric] Let_def)
    finally show ?thesis by simp
  qed
qed

section \<open>Parity of the handlers\<close>

lemma nonzero_text_zero: "aimee_skills_nonzero_text t \<longleftrightarrow> 0 \<notin> set t"
  by (auto simp: aimee_skills_nonzero_text_def)

text \<open>
  The Go handler checks the three texts for NUL bytes in one piece, the C decoder one by one.
\<close>

lemma three_texts:
  "0 \<in> set (drop 20 bs) \<longleftrightarrow> 0 \<in> set (take a (drop 20 bs))
    \<or> 0 \<in> set (take b (drop (20 + a) bs)) \<or> 0 \<in> set (drop (20 + a + b) bs)"
proof -
  have "drop 20 bs = take a (drop 20 bs) @ take b (drop a (drop 20 bs)) @ drop b (drop a (drop 20 bs))"
    by (simp only: append_take_drop_id)
  moreover have "drop a (drop 20 bs) = drop (20 + a) bs" "drop b (drop (20 + a) bs) = drop (20 + a + b) bs"
    by (simp_all add: add.commute)
  ultimately have "drop 20 bs = take a (drop 20 bs) @ take b (drop (20 + a) bs) @ drop (20 + a + b) bs"
    by metis
  then have "set (drop 20 bs) = set (take a (drop 20 bs)) \<union> (set (take b (drop (20 + a) bs))
      \<union> set (drop (20 + a + b) bs))"
    by (metis set_append)
  then show ?thesis by blast
qed

lemma go_context_parity:
  "RESPONSE_LEN \<le> cap \<Longrightarrow> go_handleContext req = handle_review (Some req) cap"
  by (simp add: go_handleContext_def handle_review_def review_fires_def get_u32_take wire_lens
      wire_magics Let_def)

lemma go_trigger_parity:
  assumes cap: "TRIGGER_RESPONSE_LEN \<le> cap" and alloc: "\<And>n. alloc n"
    and h: "\<And>c t s h. aimee_skills_trigger_request_decode (Some req) = Some (c, t, s) \<Longrightarrow>
      header_text (text_of_bytes c) = Some h \<Longrightarrow> ascii h"
  shows "go_handleTrigger req = handle_trigger alloc (Some req) cap"
proof -
  let ?c = "unat (aimee_skills_get_u32 (drop 8 req))"
  let ?t = "unat (aimee_skills_get_u32 (drop 12 req))"
  let ?s = "unat (aimee_skills_get_u32 (drop 16 req))"
  let ?ok = "20 \<le> length req \<and> aimee_skills_get_u32 req = TRIGGER_REQUEST_MAGIC
    \<and> aimee_skills_get_u32 (drop 4 req) = WIRE_VERSION \<and> ?c \<le> TRIGGER_CONTENT_MAX \<and> ?t \<noteq> 0
    \<and> ?t \<le> TRIGGER_TOOL_MAX \<and> ?s \<le> TRIGGER_SUBJECT_MAX \<and> 20 + ?c + ?t + ?s = length req"
  let ?ct = "take ?c (drop 20 req)" and ?tt = "take ?t (drop (20 + ?c) req)"
    and ?st = "drop (20 + ?c + ?t) req"
  show ?thesis
  proof (cases ?ok)
    case False
    then consider "length req < 20" | "aimee_skills_get_u32 req \<noteq> TRIGGER_REQUEST_MAGIC"
      | "aimee_skills_get_u32 (drop 4 req) \<noteq> WIRE_VERSION" | "TRIGGER_CONTENT_MAX < ?c" | "?t = 0"
      | "TRIGGER_TOOL_MAX < ?t" | "TRIGGER_SUBJECT_MAX < ?s" | "20 + ?c + ?t + ?s \<noteq> length req"
      by linarith
    then show ?thesis
      by cases (simp_all add: go_handleTrigger_def handle_trigger_def
          aimee_skills_trigger_request_decode_def get_u32_take wire_lens wire_magics Let_def)
  next
    case True
    let ?nz = "0 \<notin> set ?ct \<and> 0 \<notin> set ?tt \<and> 0 \<notin> set ?st"
    have whole: "take ?s (drop (20 + ?c + ?t) req) = ?st"
      by (rule take_all) (use True in \<open>simp only: length_drop, linarith\<close>)
    have dec: "aimee_skills_trigger_request_decode (Some req) =
        (if ?nz then Some (?ct, ?tt, ?st) else None)"
      using True by (simp add: aimee_skills_trigger_request_decode_def nonzero_text_zero wire_lens
          wire_magics Let_def whole)
    have go: "go_handleTrigger req = (if \<not> ?nz then (StatusInvalidRequest, [])
        else (StatusOK, aimee_skills_put_u32 0x52544b53 @ aimee_skills_put_u32 1
          @ aimee_skills_put_u32 (if go_triggerMatches (text_of_bytes ?ct) (text_of_bytes ?tt)
               (text_of_bytes ?st) then 1 else 0)))"
      using True three_texts [of req ?c ?t]
      by (simp add: go_handleTrigger_def get_u32_take wire_lens wire_magics Let_def)
    show ?thesis
    proof (cases ?nz)
      case False
      with go dec show ?thesis by (simp add: handle_trigger_def)
    next
      case nz: True
      then have "cstr (text_of_bytes ?tt)"
        by (simp add: nonzero_text_cstr [symmetric] nonzero_text_zero)
      with h dec nz have "go_triggerMatches (text_of_bytes ?ct) (text_of_bytes ?tt) (text_of_bytes ?st)
          = skill_trigger_policy_matches_content (Some (text_of_bytes ?ct)) (Some (text_of_bytes ?tt))
              (Some (text_of_bytes ?st))"
        by (intro go_policy_parity) auto
      with go dec nz alloc cap show ?thesis
        by (simp add: handle_trigger_def aimee_skills_trigger_response_encode_def wire_magics)
    qed
  qed
qed

end
