(* ===== verification/Skill_Poison.thy ===== *)
theory Skill_Poison
  imports Skill_Prelude
begin

text \<open>
  \<open>skill_body_poison_check\<close> of \<open>skill.c\<close>, the scan of a new skill body for text that
  tries to redirect the agent.
\<close>

section \<open>The poison check\<close>

text \<open>
  One round of the line loop takes up to 255 characters of the current line, and steps over
  a newline if it stopped at one: a longer line is seen in pieces.
\<close>

definition poison_line :: "string \<Rightarrow> string" where
  "poison_line p = take 255 (first_line p)"

definition poison_rest :: "string \<Rightarrow> string" where
  "poison_rest p =
     (let q = drop (length (poison_line p)) p in
      case q of [] \<Rightarrow> [] | c # r \<Rightarrow> if c = nl then r else q)"

lemma poison_rest_decreases: "p \<noteq> [] \<Longrightarrow> length (poison_rest p) < length p"
proof (cases p)
  case (Cons c r)
  show ?thesis
  proof (cases "c = nl")
    case True
    with Cons show ?thesis by (simp add: poison_rest_def poison_line_def first_line_def)
  next
    case False
    with Cons have "0 < length (poison_line p)" by (simp add: poison_line_def first_line_def)
    moreover have "length (poison_rest p) \<le> length (drop (length (poison_line p)) p)"
      by (cases "drop (length (poison_line p)) p") (simp_all add: poison_rest_def del: length_drop)
    moreover have "0 < length p" using Cons by simp
    ultimately show ?thesis unfolding length_drop by linarith
  qed
qed simp

definition system_line :: "string \<Rightarrow> bool" where
  "system_line line =
     (let lp = dropWhile (\<lambda>c. c = CHR '' '' \<or> c = tab) line in
      starts_with_nocase ''SYSTEM:'' lp \<or> starts_with ''<|system|>'' lp \<or> starts_with ''<system>'' lp)"

function poison_lines :: "string \<Rightarrow> bool" where
  "poison_lines p =
     (if p = [] then False
      else if system_line (poison_line p) then True
      else poison_lines (poison_rest p))"
  by pat_completeness auto
termination
  by (relation "measure length") (simp_all add: poison_rest_decreases)

declare poison_lines.simps [simp del]

lemma poison_lines_Nil [simp]: "\<not> poison_lines []"
  by (simp add: poison_lines.simps)

text \<open>The result is the message put in the error buffer, None when the body is accepted.\<close>

definition skill_body_poison_check :: "string option \<Rightarrow> string option" where
  "skill_body_poison_check body =
     (case body of
        None \<Rightarrow> None
      | Some b \<Rightarrow>
          if c_at b 0 = nul then None
          else if c_strcasestr b ''ignore previous instructions'' \<noteq> None
                  \<or> c_strcasestr b ''ignore all instructions'' \<noteq> None
          then Some ''skill body rejected: prompt injection pattern detected (ignore instructions)''
          else if (case c_strcasestr b ''disregard'' of
                     None \<Rightarrow> False
                   | Some dis \<Rightarrow>
                       (case c_strcasestr (drop dis b) ''instruction'' of
                          None \<Rightarrow> False | Some instr \<Rightarrow> instr < 60))
          then Some ''skill body rejected: prompt injection pattern detected (disregard instructions)''
          else if poison_lines b
          then Some ''skill body rejected: prompt injection pattern detected (SYSTEM block)''
          else None)"

section \<open>What the check finds\<close>

lemma c_strcasestr_sublist:
  "c_strcasestr s p \<noteq> None \<longleftrightarrow> sublist (map c_tolower p) (map c_tolower s)"
proof -
  have "c_strcasestr s p \<noteq> None \<longleftrightarrow> (\<exists>i \<le> length s. prefix (map c_tolower p) (drop i (map c_tolower s)))"
    by (auto simp: c_strcasestr_def find_suffix_None starts_with_nocase_prefix drop_map)
  also have "\<dots> \<longleftrightarrow> c_strstr (map c_tolower s) (map c_tolower p) \<noteq> None"
    by (auto simp: c_strstr_def find_suffix_None starts_with_prefix)
  finally show ?thesis by (simp only: c_strstr_sublist)
qed

text \<open>The scan sees a line whole when it fits the buffer, and in pieces of 255 characters otherwise.\<close>

function line_pieces :: "string \<Rightarrow> string list" where
  "line_pieces l = (if length l \<le> 255 then [l] else take 255 l # line_pieces (drop 255 l))"
  by pat_completeness auto
termination
  by (relation "measure length") auto

declare line_pieces.simps [simp del]

lemma pieces_short: "length l \<le> 255 \<Longrightarrow> line_pieces l = [l]"
  by (simp add: line_pieces.simps)

lemma pieces_long: "255 < length l \<Longrightarrow> line_pieces l = take 255 l # line_pieces (drop 255 l)"
  by (subst line_pieces.simps) simp

lemma lines_of_step: "s \<noteq> [] \<Longrightarrow> lines_of s = first_line s # lines_of (drop (length (first_line s) + 1) s)"
  by (subst lines_of.simps) simp

lemma first_line_drop:
  assumes "k \<le> length (first_line s)"
  shows "first_line (drop k s) = drop k (first_line s)"
proof (cases rule: first_line_cases [of s])
  case all
  then have "nl \<notin> set (drop k s)" by (meson in_set_dropD)
  then have "first_line (drop k s) = drop k s" by (auto simp: first_line_def takeWhile_eq_all_conv)
  with all(2) show ?thesis by simp
next
  case (cut r)
  have "drop k s = drop k (first_line s) @ nl # r" using cut assms by (metis drop_append diff_is_0_eq drop0)
  moreover have "nl \<notin> set (drop k (first_line s))" using first_line_no_nl by (meson in_set_dropD)
  ultimately show ?thesis by (simp add: first_line_append)
qed

lemma poison_step:
  assumes "s \<noteq> []"
  shows "length (first_line s) \<le> 255 \<Longrightarrow> poison_rest s = drop (length (first_line s) + 1) s"
    and "255 < length (first_line s) \<Longrightarrow> poison_rest s = drop 255 s"
    and "255 < length (first_line s)
      \<Longrightarrow> lines_of (drop 255 s) = drop 255 (first_line s) # lines_of (drop (length (first_line s) + 1) s)"
proof -
  show "poison_rest s = drop (length (first_line s) + 1) s" if "length (first_line s) \<le> 255"
  proof (cases rule: first_line_cases [of s])
    case all
    then show ?thesis using that by (simp add: poison_rest_def poison_line_def)
  next
    case (cut r)
    then have "drop (length (first_line s)) s = nl # r" by (metis append_eq_conv_conj)
    moreover from this have "drop (length (first_line s) + 1) s = r"
      by (metis add.commute drop_drop drop_Suc_Cons drop0 One_nat_def)
    ultimately show ?thesis using that by (simp add: poison_rest_def poison_line_def)
  qed
  assume l: "255 < length (first_line s)"
  have fd: "first_line (drop 255 s) = drop 255 (first_line s)" using first_line_drop l by simp
  obtain c r where c: "drop 255 s = c # r"
    using l length_first_line [of s] by (cases "drop 255 s") auto
  have "c \<noteq> nl" using fd l by (auto simp: c first_line_def)
  then show "poison_rest s = drop 255 s" using l by (simp add: poison_rest_def poison_line_def c)
  show "lines_of (drop 255 s) = drop 255 (first_line s) # lines_of (drop (length (first_line s) + 1) s)"
  proof -
    have "drop 255 s \<noteq> []" using c by simp
    moreover have "drop (length (drop 255 (first_line s)) + 1) (drop 255 s) = drop (length (first_line s) + 1) s"
      using l by simp
    ultimately show ?thesis using lines_of_step [of "drop 255 s"] unfolding fd by argo
  qed
qed

lemma poison_lines_pieces:
  "poison_lines p \<longleftrightarrow> list_ex (\<lambda>l. list_ex system_line (line_pieces l)) (lines_of p)"
proof (induction p rule: poison_lines.induct)
  case (1 s)
  show ?case
  proof (cases "s = [] \<or> system_line (poison_line s)")
    case True
    then show ?thesis
      by (cases "s = []"; cases "length (first_line s) \<le> 255")
        (simp_all add: poison_lines.simps [of s] lines_of_step poison_line_def pieces_short pieces_long)
  next
    case False
    then have n: "s \<noteq> []" "\<not> system_line (poison_line s)" by auto
    have IH: "poison_lines s \<longleftrightarrow> list_ex (\<lambda>l. list_ex system_line (line_pieces l)) (lines_of (poison_rest s))"
      using "1.IH" [OF n] n by (simp add: poison_lines.simps [of s])
    show ?thesis
    proof (cases "length (first_line s) \<le> 255")
      case True
      then show ?thesis
        using IH n(2) by (simp add: poison_step(1) [OF n(1)] lines_of_step [OF n(1)] pieces_short poison_line_def)
    next
      case long: False
      then have l: "255 < length (first_line s)" by simp
      show ?thesis
        using IH n(2)
        by (simp add: poison_step(2,3) [OF n(1) l] lines_of_step [OF n(1)] pieces_long [OF l] poison_line_def)
    qed
  qed
qed

lemma sublist_map_set: "sublist (map f p) (map f b) \<Longrightarrow> x \<in> set p \<Longrightarrow> f x \<in> f ` set b"
  using set_mono_sublist [of "map f p" "map f b"] by auto

lemma nocase_absent:
  "x \<in> set p \<Longrightarrow> c_tolower x \<notin> c_tolower ` set b \<Longrightarrow> c_strcasestr b p = None"
  using c_strcasestr_sublist [of b p] sublist_map_set [of c_tolower p b x] by argo

text \<open>What the check accepts, for every body.\<close>

lemma poison_check_pieces_iff:
  assumes "cstr b"
  shows "skill_body_poison_check (Some b) = None \<longleftrightarrow>
    \<not> sublist (map c_tolower ''ignore previous instructions'') (map c_tolower b)
    \<and> \<not> sublist (map c_tolower ''ignore all instructions'') (map c_tolower b)
    \<and> \<not> (\<exists>i j. c_strcasestr b ''disregard'' = Some i
           \<and> c_strcasestr (drop i b) ''instruction'' = Some j \<and> j < 60)
    \<and> \<not> list_ex (\<lambda>l. list_ex system_line (line_pieces l)) (lines_of b)"
proof (cases "b = []")
  case True
  then show ?thesis by (simp add: skill_body_poison_check_def c_at_def c_strcasestr_def starts_with_nocase_def)
next
  case False
  then have nn: "c_at b 0 \<noteq> nul" using assms(1) by (cases b) (auto simp: c_at_def)
  show ?thesis
    unfolding poison_lines_pieces [symmetric] c_strcasestr_sublist [symmetric] skill_body_poison_check_def option.case
    using nn by (auto split: option.splits if_splits)
qed

text \<open>On a body whose lines fit the buffer the check is what it says it looks for.\<close>

lemma poison_check_iff:
  assumes "cstr b" "list_all (\<lambda>l. length l \<le> 255) (lines_of b)"
  shows "skill_body_poison_check (Some b) = None \<longleftrightarrow>
    \<not> sublist (map c_tolower ''ignore previous instructions'') (map c_tolower b)
    \<and> \<not> sublist (map c_tolower ''ignore all instructions'') (map c_tolower b)
    \<and> \<not> (\<exists>i j. c_strcasestr b ''disregard'' = Some i
           \<and> c_strcasestr (drop i b) ''instruction'' = Some j \<and> j < 60)
    \<and> \<not> list_ex system_line (lines_of b)"
proof -
  have "list_ex (\<lambda>l. list_ex system_line (line_pieces l)) (lines_of b) \<longleftrightarrow> list_ex system_line (lines_of b)"
    using assms(2) by (auto simp: list_ex_iff list_all_iff pieces_short)
  then show ?thesis using poison_check_pieces_iff [OF assms(1)] by simp
qed

section \<open>Markers cut by the buffer\<close>

text \<open>Blanks that push a marker over the end of the first piece hide it from the scan.\<close>

lemma blanks_skipped: "c \<noteq> CHR '' '' \<Longrightarrow> c \<noteq> tab
    \<Longrightarrow> dropWhile (\<lambda>c. c = CHR '' '' \<or> c = tab) (replicate k (CHR '' '') @ c # r) = c # r"
  by (induction k) auto

lemma system_line_padded: "system_line (replicate k (CHR '' '') @ ''SYSTEM:'' @ r)"
  by (simp add: system_line_def blanks_skipped starts_with_nocase_def)

lemma lower_marker: "map c_tolower ''SYTEM:'' = ''sytem:''"
  by code_simp

lemma padded_pieces:
  assumes "249 \<le> k" "k \<le> 254" "length r \<le> 248"
  shows "\<not> list_ex system_line (line_pieces (replicate k (CHR '' '') @ ''SYSTEM:'' @ r))"
proof -
  let ?l = "replicate k (CHR '' '') @ ''SYSTEM:'' @ r" and ?j = "255 - k"
  have j: "?j \<in> {1, 2, 3, 4, 5, 6}" using assms(1,2) by auto
  have t: "take 255 ?l = replicate k (CHR '' '') @ take ?j ''SYSTEM:''"
    and d: "drop 255 ?l = drop ?j ''SYSTEM:'' @ r" using j assms(2) by auto
  have "length (drop 255 ?l) \<le> 255" unfolding d using j assms(3) by auto
  then have p: "line_pieces ?l = [take 255 ?l, drop 255 ?l]"
    using assms(1) by (simp add: pieces_long pieces_short)
  have "\<not> system_line (take 255 ?l)" unfolding t
    using j by (auto simp: system_line_def blanks_skipped starts_with_nocase_def)
  moreover have "\<not> system_line (drop 255 ?l)" unfolding d
    using j lower_marker by (auto simp: system_line_def starts_with_nocase_def)
  ultimately show ?thesis unfolding p by simp
qed

end
