(* ===== verification/Skill_Patch.thy ===== *)
theory Skill_Patch
  imports Skill_Prelude
begin

text \<open>
  The replacement loop of \<open>skill_manage_patch\<close> in \<open>skill.c\<close>.
\<close>

section \<open>Replacing in a patch\<close>

text \<open>
  The loop of \<open>skill_manage_patch\<close>: the number of replacements and the pieces it appends
  to the result, in order.
\<close>

function patch_loop :: "bool \<Rightarrow> string \<Rightarrow> string \<Rightarrow> string \<Rightarrow> nat \<Rightarrow> nat \<times> string list" where
  "patch_loop replace_all old_string new_string p hits =
     (if old_string = [] then (hits, [p])
      else case c_strstr p old_string of
        None \<Rightarrow> (hits, [p])
      | Some i \<Rightarrow>
          if \<not> replace_all \<and> hits > 0 then (hits, [p])
          else
            (case patch_loop replace_all old_string new_string (drop (i + length old_string) p) (hits + 1) of
               (n, rest) \<Rightarrow> (n, take i p # new_string # rest)))"
  by pat_completeness auto

lemma c_strstr_bound: "c_strstr p w = Some i \<Longrightarrow> i + length w \<le> length p \<and> take (length w) (drop i p) = w"
proof -
  assume "c_strstr p w = Some i"
  then have "i \<le> length p" "take (length w) (drop i p) = w"
    by (auto simp: c_strstr_def starts_with_def dest: find_suffix_Some)
  moreover from this(2) have "length w \<le> length (drop i p)"
    by (metis length_take min.cobounded2 min.commute)
  ultimately show ?thesis by simp
qed

lemma c_strstr_decreases:
  "w \<noteq> [] \<Longrightarrow> c_strstr p w = Some i \<Longrightarrow> length p - (i + length w) < length p"
  using c_strstr_bound [of p w i] by (cases w) auto

termination patch_loop
  by (relation "measure (\<lambda>(replace_all, old_string, new_string, p, hits). length p)")
    (simp_all add: c_strstr_decreases)

declare patch_loop.simps [simp del]

section \<open>What the loop computes\<close>

text \<open>Pieces with a separator between them.\<close>

fun join_with :: "string \<Rightarrow> string list \<Rightarrow> string" where
  "join_with w [] = []"
| "join_with w [x] = x"
| "join_with w (x # y # xs) = x @ w @ join_with w (y # xs)"

lemma join_with_Cons: "xs \<noteq> [] \<Longrightarrow> join_with w (x # xs) = x @ w @ join_with w xs"
  by (cases xs) simp_all

lemma c_strstr_split:
  assumes "c_strstr p w = Some i"
  shows "p = take i p @ w @ drop (i + length w) p"
proof -
  from c_strstr_bound [OF assms] have "drop i p = w @ drop (length w) (drop i p)"
    by (metis append_take_drop_id)
  then show ?thesis by (metis add.commute append_take_drop_id drop_drop)
qed

text \<open>Nothing before the first hit contains the needle.\<close>

lemma c_strstr_before:
  assumes "c_strstr p w = Some i" "w \<noteq> []"
  shows "\<not> sublist w (take i p)"
proof
  assume "sublist w (take i p)"
  then obtain a b where ab: "take i p = a @ w @ b" by (auto simp: sublist_def)
  from assms(1) have i: "i \<le> length p" "\<forall>j < i. \<not> starts_with w (drop j p)"
    by (auto simp: c_strstr_def dest: find_suffix_Some)
  have "length a < i"
    using ab i(1) assms(2) by (metis append_is_Nil_conv length_append length_greater_0_conv
      length_take less_add_same_cancel1 min.absorb2 min.commute)
  moreover have "p = a @ w @ b @ drop i p"
    by (metis ab append.assoc append_take_drop_id)
  then have "starts_with w (drop (length a) p)"
    by (metis append_eq_conv_conj starts_with_append)
  ultimately show False using i(2) by blast
qed

lemma patch_loop_hits_le: "fst (patch_loop ra old new p h) \<ge> h"
proof (induction ra old new p h rule: patch_loop.induct)
  case (1 ra old new p h)
  show ?case
  proof (cases "c_strstr p old")
    case None
    then show ?thesis by (subst patch_loop.simps) simp
  next
    case (Some i)
    then show ?thesis
      using "1.IH" [OF _ Some] by (subst patch_loop.simps) (auto simp: case_prod_beta)
  qed
qed

text \<open>Replacing every occurrence.\<close>

lemma patch_loop_all:
  assumes "old \<noteq> []"
  shows "\<exists>ps. ps \<noteq> [] \<and> p = join_with old ps \<and> concat (snd (patch_loop True old new p h)) = join_with new ps
    \<and> fst (patch_loop True old new p h) = h + (length ps - 1) \<and> (\<forall>x \<in> set ps. \<not> sublist old x)"
proof (induction "length p" arbitrary: p h rule: less_induct)
  case less
  show ?case
  proof (cases "c_strstr p old")
    case None
    then have "patch_loop True old new p h = (h, [p])"
      using assms by (subst patch_loop.simps) simp
    moreover have "\<not> sublist old p" using None c_strstr_sublist by blast
    ultimately show ?thesis by (intro exI [of _ "[p]"]) simp
  next
    case (Some i)
    let ?r = "drop (i + length old) p"
    have "length ?r < length p" using c_strstr_decreases [OF assms Some] by simp
    from less [OF this, of "h + 1"] obtain ps where ps: "ps \<noteq> []" "?r = join_with old ps"
      "concat (snd (patch_loop True old new ?r (h + 1))) = join_with new ps"
      "fst (patch_loop True old new ?r (h + 1)) = h + 1 + (length ps - 1)"
      "\<forall>x \<in> set ps. \<not> sublist old x" by blast
    have step: "patch_loop True old new p h
      = (fst (patch_loop True old new ?r (h + 1)),
         take i p # new # snd (patch_loop True old new ?r (h + 1)))"
      using assms Some by (subst patch_loop.simps) (simp add: case_prod_beta)
    have len: "Suc (length ps - Suc 0) = length ps" using ps(1) by (cases ps) simp_all
    have "p = join_with old (take i p # ps)"
      unfolding join_with_Cons [OF ps(1)] ps(2) [symmetric] by (rule c_strstr_split [OF Some])
    then show ?thesis
      using ps step c_strstr_before [OF Some assms]
      by (intro exI [of _ "take i p # ps"])
        (auto simp: join_with_Cons len)
  qed
qed

text \<open>Replacing the first occurrence.\<close>

lemma patch_loop_once:
  assumes "old \<noteq> []" "c_strstr p old = Some i"
  shows "patch_loop False old new p 0 = (1, [take i p, new, drop (i + length old) p])"
proof -
  have "patch_loop False old new r 1 = (1, [r])" for r
    using assms(1) by (subst patch_loop.simps) (simp split: option.splits)
  then show ?thesis
    using assms by (subst patch_loop.simps) simp
qed

lemma patch_loop_none:
  "old \<noteq> [] \<Longrightarrow> fst (patch_loop ra old new p 0) = 0 \<longleftrightarrow> \<not> sublist old p"
proof -
  assume old: "old \<noteq> []"
  show ?thesis
  proof (cases "c_strstr p old")
    case None
    then show ?thesis
      using old c_strstr_sublist [of p old] by (subst patch_loop.simps) simp
  next
    case (Some i)
    have "fst (patch_loop ra old new p 0) \<ge> 1"
      using old Some patch_loop_hits_le [of 1 ra old new "drop (i + length old) p"]
      by (subst patch_loop.simps) (simp add: case_prod_beta)
    then show ?thesis using Some c_strstr_sublist [of p old] by auto
  qed
qed

end
