(* ===== verification/Skill_Json.thy ===== *)
theory Skill_Json
  imports Complex_Main Skill_Prelude
begin

text \<open>
  The interface of cJSON, which is not part of the repository. Its functions are the fields
  of \<open>cjson\<close>; the documented facts on them the theorems use are the conjuncts of
  \<open>cjson_ok\<close>. Numbers are doubles in cJSON and rationals here: the laws say only that an integer
  of at most 2^53, which a double holds exactly, is read back. A cJSON tree is a value; a change through a pointer into a tree is
  \<open>cj_child_put\<close> on the item \<open>cj_get\<close> found.

  The second part builds one concrete tree type with a printer and a parser for which the laws
  hold, so that a theorem that assumes them can be applied.
\<close>

section \<open>The interface\<close>

record 'j cjson =
  cj_parse :: "string \<Rightarrow> 'j option"
  cj_print :: "'j \<Rightarrow> string option"
  cj_print_unformatted :: "'j \<Rightarrow> string option"
  cj_create_object :: "'j option"
  cj_get :: "'j \<Rightarrow> string \<Rightarrow> 'j option"
  cj_is_object :: "'j \<Rightarrow> bool"
  cj_items :: "'j \<Rightarrow> 'j list option"
  cj_string :: "'j \<Rightarrow> string option"
  cj_number :: "'j \<Rightarrow> rat option"
  cj_is_true :: "'j \<Rightarrow> bool"
  cj_mk_string :: "string \<Rightarrow> 'j"
  cj_mk_number :: "rat \<Rightarrow> 'j"
  cj_mk_bool :: "bool \<Rightarrow> 'j"
  cj_add :: "'j \<Rightarrow> string \<Rightarrow> 'j \<Rightarrow> 'j"
  cj_replace :: "'j \<Rightarrow> string \<Rightarrow> 'j \<Rightarrow> 'j"
  cj_delete :: "'j \<Rightarrow> string \<Rightarrow> 'j"
  cj_child_put :: "'j \<Rightarrow> string \<Rightarrow> 'j \<Rightarrow> 'j"

text \<open>Keys that differ in letter case only: replacing and deleting do not tell them apart.\<close>

definition same_key :: "string \<Rightarrow> string \<Rightarrow> bool" where
  "same_key k l \<longleftrightarrow> map c_tolower k = map c_tolower l"

definition no_variant :: "'j cjson \<Rightarrow> 'j \<Rightarrow> string \<Rightarrow> bool" where
  "no_variant J obj k \<longleftrightarrow> (\<forall>l. same_key k l \<longrightarrow> l \<noteq> k \<longrightarrow> cj_get J obj l = None)"

definition cjson_get_laws :: "'j cjson \<Rightarrow> bool" where
  "cjson_get_laws J \<longleftrightarrow>
     (\<forall>obj k v l. cj_is_object J obj \<longrightarrow>
        cj_get J (cj_add J obj k v) l
          = (if l = k \<and> cj_get J obj k = None then Some v else cj_get J obj l))
     \<and> (\<forall>obj k v l. cj_get J obj k \<noteq> None \<longrightarrow>
          cj_get J (cj_child_put J obj k v) l = (if l = k then Some v else cj_get J obj l))
     \<and> (\<forall>obj k v l. \<not> same_key k l \<longrightarrow> cj_get J (cj_replace J obj k v) l = cj_get J obj l)
     \<and> (\<forall>obj k v. no_variant J obj k \<longrightarrow> cj_get J obj k \<noteq> None
          \<longrightarrow> cj_get J (cj_replace J obj k v) k = Some v \<and> no_variant J (cj_replace J obj k v) k)
     \<and> (\<forall>obj k l. \<not> same_key k l \<longrightarrow> cj_get J (cj_delete J obj k) l = cj_get J obj l)
     \<and> (\<forall>obj k l. cj_get J obj l = None \<longrightarrow> cj_get J (cj_delete J obj k) l = None)"

definition cjson_value_laws :: "'j cjson \<Rightarrow> bool" where
  "cjson_value_laws J \<longleftrightarrow>
     (\<forall>s. cj_string J (cj_mk_string J s) = Some s) \<and> (\<forall>n. \<bar>n\<bar> \<le> 2 ^ 53 \<longrightarrow> cj_number J (cj_mk_number J (of_int n)) = Some (of_int n))
     \<and> (\<forall>b. cj_is_true J (cj_mk_bool J b) = b)
     \<and> (\<forall>obj. cj_create_object J = Some obj \<longrightarrow> cj_is_object J obj \<and> (\<forall>k. cj_get J obj k = None))
     \<and> (\<forall>obj k v. cj_is_object J obj \<longrightarrow> cj_is_object J (cj_add J obj k v)
          \<and> cj_is_object J (cj_child_put J obj k v) \<and> cj_is_object J (cj_replace J obj k v)
          \<and> cj_is_object J (cj_delete J obj k))"

text \<open>What is printed is text and parses back to the tree, also with a newline after it.\<close>

definition cjson_text_laws :: "'j cjson \<Rightarrow> bool" where
  "cjson_text_laws J \<longleftrightarrow>
     (\<forall>obj s. cj_is_object J obj \<longrightarrow> cj_print J obj = Some s
        \<longrightarrow> cstr s \<and> cj_parse J (s @ [nl]) = Some obj)
     \<and> (\<forall>obj s. cj_is_object J obj \<longrightarrow> cj_print_unformatted J obj = Some s
        \<longrightarrow> cstr s \<and> cj_parse J s = Some obj)"

definition cjson_ok :: "'j cjson \<Rightarrow> bool" where
  "cjson_ok J \<longleftrightarrow> cjson_get_laws J \<and> cjson_value_laws J \<and> cjson_text_laws J"

lemma cj_get_add:
  "cjson_ok J \<Longrightarrow> cj_is_object J obj \<Longrightarrow> cj_get J (cj_add J obj k v) l
     = (if l = k \<and> cj_get J obj k = None then Some v else cj_get J obj l)"
  unfolding cjson_ok_def cjson_get_laws_def by metis

lemma cj_get_child_put:
  "cjson_ok J \<Longrightarrow> cj_get J obj k \<noteq> None
   \<Longrightarrow> cj_get J (cj_child_put J obj k v) l = (if l = k then Some v else cj_get J obj l)"
  unfolding cjson_ok_def cjson_get_laws_def by metis

lemma cj_get_replace_other:
  "cjson_ok J \<Longrightarrow> \<not> same_key k l \<Longrightarrow> cj_get J (cj_replace J obj k v) l = cj_get J obj l"
  unfolding cjson_ok_def cjson_get_laws_def by metis

lemma cj_get_replace:
  "cjson_ok J \<Longrightarrow> no_variant J obj k \<Longrightarrow> cj_get J obj k \<noteq> None \<Longrightarrow> cj_get J (cj_replace J obj k v) k = Some v"
  unfolding cjson_ok_def cjson_get_laws_def by metis

lemma cj_get_delete_other:
  "cjson_ok J \<Longrightarrow> \<not> same_key k l \<Longrightarrow> cj_get J (cj_delete J obj k) l = cj_get J obj l"
  unfolding cjson_ok_def cjson_get_laws_def by metis

lemma cj_get_delete_None:
  "cjson_ok J \<Longrightarrow> cj_get J obj l = None \<Longrightarrow> cj_get J (cj_delete J obj k) l = None"
  unfolding cjson_ok_def cjson_get_laws_def by metis

lemma cj_values [simp]:
  "cjson_ok J \<Longrightarrow> cj_string J (cj_mk_string J s) = Some s"
  "cjson_ok J \<Longrightarrow> \<bar>n\<bar> \<le> 2 ^ 53 \<Longrightarrow> cj_number J (cj_mk_number J (of_int n)) = Some (of_int n)"
  "cjson_ok J \<Longrightarrow> cj_is_true J (cj_mk_bool J b) = b"
  unfolding cjson_ok_def cjson_value_laws_def by metis+

text \<open>An int is stored and read back.\<close>

lemma cj_number_int [simp]:
  fixes w :: "32 word"
  assumes "cjson_ok J"
  shows "cj_number J (cj_mk_number J (signed w)) = Some (signed w)"
  using cj_values(2) [OF assms, of "sint w"] sint_greater_eq [of w] sint_less [of w]
  by (simp add: abs_le_iff)

lemma cj_number_0 [simp]: "cjson_ok J \<Longrightarrow> cj_number J (cj_mk_number J 0) = Some 0"
  using cj_values(2) [of J 0] by simp

lemma cj_created:
  "cjson_ok J \<Longrightarrow> cj_create_object J = Some obj \<Longrightarrow> cj_is_object J obj"
  "cjson_ok J \<Longrightarrow> cj_create_object J = Some obj \<Longrightarrow> cj_get J obj k = None"
  unfolding cjson_ok_def cjson_value_laws_def by metis+

lemma cj_objects [simp]:
  "cjson_ok J \<Longrightarrow> cj_is_object J obj \<Longrightarrow> cj_is_object J (cj_add J obj k v)"
  "cjson_ok J \<Longrightarrow> cj_is_object J obj \<Longrightarrow> cj_is_object J (cj_child_put J obj k v)"
  "cjson_ok J \<Longrightarrow> cj_is_object J obj \<Longrightarrow> cj_is_object J (cj_replace J obj k v)"
  "cjson_ok J \<Longrightarrow> cj_is_object J obj \<Longrightarrow> cj_is_object J (cj_delete J obj k)"
  unfolding cjson_ok_def cjson_value_laws_def by metis+

lemma cj_print_parse:
  "cjson_ok J \<Longrightarrow> cj_is_object J obj \<Longrightarrow> cj_print J obj = Some s \<Longrightarrow> cj_parse J (s @ [nl]) = Some obj"
  "cjson_ok J \<Longrightarrow> cj_is_object J obj \<Longrightarrow> cj_print J obj = Some s \<Longrightarrow> cstr s"
  unfolding cjson_ok_def cjson_text_laws_def by metis+

lemma cj_unformatted_parse:
  "cjson_ok J \<Longrightarrow> cj_is_object J obj \<Longrightarrow> cj_print_unformatted J obj = Some s \<Longrightarrow> cj_parse J s = Some obj"
  unfolding cjson_ok_def cjson_text_laws_def by metis

section \<open>A tree type for which the laws hold\<close>

datatype json = JNull | JBool bool | JNum rat | JStr string | JArr "json list" | JObj "(string \<times> json) list"

text \<open>A printer that is easy to invert: numbers in unary, everything else with a tag.\<close>

definition enc_nat :: "nat \<Rightarrow> string" where
  "enc_nat n = replicate n (CHR ''i'') @ ''.''"

fun dec_nat :: "string \<Rightarrow> (nat \<times> string) option" where
  "dec_nat [] = None"
| "dec_nat (c # r) =
     (if c = CHR ''.'' then Some (0, r)
      else if c = CHR ''i'' then map_option (\<lambda>(n, t). (Suc n, t)) (dec_nat r) else None)"

lemma dec_enc_nat [simp]: "dec_nat (enc_nat n @ r) = Some (n, r)"
  by (induction n) (simp_all add: enc_nat_def)

definition enc_int :: "int \<Rightarrow> string" where
  "enc_int z = (if 0 \<le> z then ''p'' else ''m'') @ enc_nat (nat \<bar>z\<bar>)"

definition dec_int :: "string \<Rightarrow> (int \<times> string) option" where
  "dec_int s =
     (case s of
        [] \<Rightarrow> None
      | c # r \<Rightarrow> map_option (\<lambda>(n, t). (if c = CHR ''p'' then int n else - int n, t)) (dec_nat r))"

lemma dec_enc_int [simp]: "dec_int (enc_int z @ r) = Some (z, r)"
  by (simp add: enc_int_def dec_int_def)

definition enc_rat :: "rat \<Rightarrow> string" where
  "enc_rat r = enc_int (fst (quotient_of r)) @ enc_int (snd (quotient_of r))"

definition dec_rat :: "string \<Rightarrow> (rat \<times> string) option" where
  "dec_rat s =
     (case dec_int s of
        None \<Rightarrow> None
      | Some (a, t) \<Rightarrow>
          (case dec_int t of None \<Rightarrow> None | Some (b, u) \<Rightarrow> Some (rat_of_int a / rat_of_int b, u)))"

lemma dec_enc_rat [simp]: "dec_rat (enc_rat q @ r) = Some (q, r)"
  using quotient_of_div [of q "fst (quotient_of q)" "snd (quotient_of q)"]
  by (simp add: enc_rat_def dec_rat_def)

fun enc_chars :: "string \<Rightarrow> string" where
  "enc_chars [] = '';''"
| "enc_chars (c # s) = '','' @ enc_nat (ord c) @ enc_chars s"

fun dec_list :: "(string \<Rightarrow> ('a \<times> string) option) \<Rightarrow> nat \<Rightarrow> string \<Rightarrow> ('a list \<times> string) option" where
  "dec_list p 0 s = None"
| "dec_list p (Suc n) [] = None"
| "dec_list p (Suc n) (c # r) =
     (if c = CHR '';'' then Some ([], r)
      else if c = CHR '','' then
        (case p r of
           None \<Rightarrow> None
         | Some (x, t) \<Rightarrow>
             (case dec_list p n t of None \<Rightarrow> None | Some (xs, u) \<Rightarrow> Some (x # xs, u)))
      else None)"

definition dec_chars :: "string \<Rightarrow> (string \<times> string) option" where
  "dec_chars s = map_option (\<lambda>(ns, t). (map char_of ns, t)) (dec_list dec_nat (length s) s)"

lemma dec_list_chars: "length s < n \<Longrightarrow> dec_list dec_nat n (enc_chars s @ r) = Some (map ord s, r)"
proof (induction s arbitrary: n)
  case Nil
  then show ?case by (cases n) simp_all
next
  case (Cons c s)
  then show ?case by (cases n) simp_all
qed

lemma length_enc_chars: "length s < length (enc_chars s)"
  by (induction s) simp_all

lemma dec_enc_chars [simp]: "dec_chars (enc_chars s @ r) = Some (s, r)"
proof -
  have "dec_list dec_nat (length (enc_chars s @ r)) (enc_chars s @ r) = Some (map ord s, r)"
    by (rule dec_list_chars) (use length_enc_chars [of s] in simp)
  then show ?thesis by (simp add: dec_chars_def comp_def)
qed

fun enc_json :: "json \<Rightarrow> string" where
  "enc_json JNull = ''n''"
| "enc_json (JBool b) = (if b then ''t'' else ''f'')"
| "enc_json (JNum q) = ''d'' @ enc_rat q"
| "enc_json (JStr s) = ''s'' @ enc_chars s"
| "enc_json (JArr js) = ''a'' @ concat (map (\<lambda>j. '','' @ enc_json j) js) @ '';''"
| "enc_json (JObj kvs) = ''o'' @ concat (map (\<lambda>(k, j). '','' @ enc_chars k @ enc_json j) kvs) @ '';''"

fun dec_json :: "nat \<Rightarrow> string \<Rightarrow> (json \<times> string) option" where
  "dec_json 0 s = None"
| "dec_json (Suc n) [] = None"
| "dec_json (Suc n) (c # r) =
     (if c = CHR ''n'' then Some (JNull, r)
      else if c = CHR ''t'' then Some (JBool True, r)
      else if c = CHR ''f'' then Some (JBool False, r)
      else if c = CHR ''d'' then map_option (\<lambda>(q, t). (JNum q, t)) (dec_rat r)
      else if c = CHR ''s'' then map_option (\<lambda>(s, t). (JStr s, t)) (dec_chars r)
      else if c = CHR ''a'' then
        map_option (\<lambda>(js, t). (JArr js, t)) (dec_list (dec_json n) (length r) r)
      else if c = CHR ''o'' then
        map_option (\<lambda>(kvs, t). (JObj kvs, t))
          (dec_list (\<lambda>s. case dec_chars s of
                       None \<Rightarrow> None
                     | Some (k, t) \<Rightarrow>
                         (case dec_json n t of None \<Rightarrow> None | Some (j, u) \<Rightarrow> Some ((k, j), u)))
             (length r) r)
      else None)"

lemma enc_json_not_Nil [simp]: "enc_json j \<noteq> []"
  by (cases j) simp_all

lemma dec_list_items:
  assumes "\<And>x r. x \<in> set xs \<Longrightarrow> p (enc x @ r) = Some (x, r)" "length xs < n"
  shows "dec_list p n (concat (map (\<lambda>x. '','' @ enc x) xs) @ '';'' @ r) = Some (xs, r)"
  using assms
proof (induction xs arbitrary: n)
  case Nil
  then show ?case by (cases n) simp_all
next
  case (Cons x xs)
  then obtain m where n: "n = Suc m" "length xs < m" by (cases n) auto
  have "p (enc x @ t) = Some (x, t)" for t using Cons.prems(1) by simp
  with Cons n show ?case by simp
qed

lemma items_length: "length xs \<le> length (concat (map (\<lambda>x. '','' @ enc x) xs))"
  by (induction xs) simp_all

lemma dec_enc_json: "length (enc_json j) \<le> n \<Longrightarrow> dec_json n (enc_json j @ r) = Some (j, r)"
proof (induction j arbitrary: n r)
  case (JArr js)
  then obtain m where n: "n = Suc m" by (cases n) simp_all
  let ?body = "concat (map (\<lambda>j. '','' @ enc_json j) js) @ '';''"
  have "dec_json m (enc_json x @ t) = Some (x, t)" if "x \<in> set js" for x t
  proof (rule JArr.IH [OF that])
    from that have "length ('','' @ enc_json x) \<le> length (concat (map (\<lambda>j. '','' @ enc_json j) js))"
      by (induction js) auto
    then show "length (enc_json x) \<le> m" using JArr.prems n by simp
  qed
  then have "dec_list (dec_json m) (length (?body @ r)) (concat (map (\<lambda>j. '','' @ enc_json j) js) @ '';'' @ r)
      = Some (js, r)"
    by (rule dec_list_items) (use items_length [of js enc_json] in simp_all)
  with n show ?case by simp
next
  case (JObj kvs)
  then obtain m where n: "n = Suc m" by (cases n) simp_all
  define enc where "enc = (\<lambda>(k, j). enc_chars k @ enc_json j)"
  define p where "p = (\<lambda>s. case dec_chars s of
                       None \<Rightarrow> None
                     | Some (k, t) \<Rightarrow>
                         (case dec_json m t of None \<Rightarrow> None | Some (j, u) \<Rightarrow> Some ((k, j), u)))"
  have e: "(\<lambda>(k, j). '','' @ enc_chars k @ enc_json j) = (\<lambda>x. '','' @ enc x)"
    by (auto simp: enc_def)
  let ?body = "concat (map (\<lambda>x. '','' @ enc x) kvs) @ '';''"
  have "p (enc x @ t) = Some (x, t)" if x: "x \<in> set kvs" for x t
  proof -
    obtain k j where kj: "x = (k, j)" by (cases x)
    from x have "length ('','' @ enc x) \<le> length (concat (map (\<lambda>x. '','' @ enc x) kvs))"
      by (induction kvs) auto
    moreover have "length (concat (map (\<lambda>x. '','' @ enc x) kvs)) < m"
      using JObj.prems n unfolding enc_json.simps e by simp
    ultimately have "length (enc_json j) \<le> m" by (simp add: kj enc_def)
    then have "dec_json m (enc_json j @ t) = Some (j, t)"
      using JObj.IH [OF x] kj by simp
    then show ?thesis by (simp add: p_def enc_def kj)
  qed
  then have "dec_list p (length (?body @ r)) (concat (map (\<lambda>x. '','' @ enc x) kvs) @ '';'' @ r)
      = Some (kvs, r)"
    by (rule dec_list_items) (use items_length [of kvs enc] in simp_all)
  moreover have "enc_json (JObj kvs) = ''o'' @ concat (map (\<lambda>x. '','' @ enc x) kvs) @ '';''"
    unfolding enc_json.simps e by (rule refl)
  ultimately show ?case using n by (simp add: p_def del: enc_json.simps(6))
next
  case JNull
  then show ?case by (cases n) simp_all
next
  case (JBool b)
  then show ?case by (cases n; cases b) simp_all
next
  case (JNum q)
  then show ?case by (cases n) simp_all
next
  case (JStr s)
  then show ?case by (cases n) simp_all
qed

definition dec_text :: "string \<Rightarrow> json option" where
  "dec_text s =
     (case dec_json (length s) s of
        None \<Rightarrow> None | Some (j, r) \<Rightarrow> if r = [] \<or> r = [nl] then Some j else None)"

lemma dec_text_enc: "dec_text (enc_json j @ [nl]) = Some j" "dec_text (enc_json j) = Some j"
  using dec_enc_json [of j "length (enc_json j @ [nl])" "[nl]"] dec_enc_json [of j "length (enc_json j)" "[]"]
  by (simp_all add: dec_text_def)

lemma cstr_enc: "cstr (enc_nat n)" "cstr (enc_int z)" "cstr (enc_rat q)" "cstr (enc_chars s)"
proof -
  show nat: "cstr (enc_nat n)" for n by (auto simp: enc_nat_def cstr_def)
  then show int: "cstr (enc_int z)" for z by (simp add: enc_int_def)
  then show "cstr (enc_rat q)" by (simp add: enc_rat_def)
  show "cstr (enc_chars s)" using nat by (induction s) simp_all
qed

lemma cstr_enc_json: "cstr (enc_json j)"
proof (induction j)
  case (JArr js)
  then show ?case by (induction js) simp_all
next
  case (JObj kvs)
  have "list_all (\<lambda>(k, j). cstr (enc_json j)) kvs"
    unfolding list_all_iff using JObj.IH by fastforce
  then show ?case by (induction kvs) (auto simp: cstr_enc)
qed (simp_all add: cstr_enc)

text \<open>Objects as lists of items; the first item with a key counts.\<close>

definition json_get :: "json \<Rightarrow> string \<Rightarrow> json option" where
  "json_get j k = (case j of JObj kvs \<Rightarrow> map_of kvs k | _ \<Rightarrow> None)"

fun put_first :: "(string \<Rightarrow> bool) \<Rightarrow> string \<Rightarrow> json \<Rightarrow> (string \<times> json) list \<Rightarrow> (string \<times> json) list" where
  "put_first P k v [] = []"
| "put_first P k v (kv # kvs) = (if P (fst kv) then (k, v) # kvs else kv # put_first P k v kvs)"

fun drop_first :: "(string \<Rightarrow> bool) \<Rightarrow> (string \<times> json) list \<Rightarrow> (string \<times> json) list" where
  "drop_first P [] = []"
| "drop_first P (kv # kvs) = (if P (fst kv) then kvs else kv # drop_first P kvs)"

definition json_map :: "((string \<times> json) list \<Rightarrow> (string \<times> json) list) \<Rightarrow> json \<Rightarrow> json" where
  "json_map f j = (case j of JObj kvs \<Rightarrow> JObj (f kvs) | _ \<Rightarrow> j)"

definition json_ops :: "json cjson" where
  "json_ops = \<lparr>cj_parse = dec_text, cj_print = (\<lambda>j. Some (enc_json j)),
     cj_print_unformatted = (\<lambda>j. Some (enc_json j)), cj_create_object = Some (JObj []),
     cj_get = json_get,
     cj_is_object = (\<lambda>j. case j of JObj kvs \<Rightarrow> True | _ \<Rightarrow> False),
     cj_items = (\<lambda>j. case j of JArr js \<Rightarrow> Some js | _ \<Rightarrow> None),
     cj_string = (\<lambda>j. case j of JStr s \<Rightarrow> Some s | _ \<Rightarrow> None),
     cj_number = (\<lambda>j. case j of JNum q \<Rightarrow> Some q | _ \<Rightarrow> None),
     cj_is_true = (\<lambda>j. case j of JBool b \<Rightarrow> b | _ \<Rightarrow> False),
     cj_mk_string = JStr, cj_mk_number = JNum, cj_mk_bool = JBool,
     cj_add = (\<lambda>j k v. json_map (\<lambda>kvs. kvs @ [(k, v)]) j),
     cj_replace = (\<lambda>j k v. json_map (put_first (same_key k) k v) j),
     cj_delete = (\<lambda>j k. json_map (drop_first (same_key k)) j),
     cj_child_put = (\<lambda>j k v. json_map (put_first (\<lambda>l. l = k) k v) j)\<rparr>"

lemma same_key_refl [simp]: "same_key k k"
  by (simp add: same_key_def)

lemma map_of_put_first_other:
  "\<not> P l \<Longrightarrow> k \<noteq> l \<Longrightarrow> map_of (put_first P k v kvs) l = map_of kvs l"
  by (induction kvs) auto

lemma map_of_put_first:
  "P k \<Longrightarrow> (\<And>l. P l \<Longrightarrow> l \<noteq> k \<Longrightarrow> map_of kvs l = None) \<Longrightarrow> map_of kvs k \<noteq> None
   \<Longrightarrow> map_of (put_first P k v kvs) k = Some v"
proof (induction kvs)
  case (Cons kv kvs)
  obtain l w where kv: "kv = (l, w)" by (cases kv)
  show ?case
  proof (cases "P l")
    case True
    then show ?thesis using Cons.prems kv by simp
  next
    case False
    then have "l \<noteq> k" using Cons.prems(1) by blast
    moreover have "map_of kvs m = None" if "P m" "m \<noteq> k" for m
      using Cons.prems(2) [OF that] that(1) False kv by (auto split: if_splits)
    ultimately show ?thesis
      using Cons.IH [OF Cons.prems(1)] Cons.prems(3) False kv by simp
  qed
qed simp

lemma map_of_put_first_variant:
  "P l \<Longrightarrow> l \<noteq> k \<Longrightarrow> map_of kvs l = None \<Longrightarrow> map_of (put_first P k v kvs) l = None"
  by (induction kvs) (auto split: if_splits)

lemma map_of_drop_first: "\<not> P l \<Longrightarrow> map_of (drop_first P kvs) l = map_of kvs l"
  by (induction kvs) auto

lemma map_of_drop_first_None: "map_of kvs l = None \<Longrightarrow> map_of (drop_first P kvs) l = None"
  by (induction kvs) (auto split: if_splits)

lemma json_ops_get: "cjson_get_laws json_ops"
proof -
  have rep: "map_of (put_first (same_key k) k v kvs) k = Some v
      \<and> (\<forall>l. same_key k l \<longrightarrow> l \<noteq> k \<longrightarrow> map_of (put_first (same_key k) k v kvs) l = None)"
    if "\<forall>l. same_key k l \<longrightarrow> l \<noteq> k \<longrightarrow> map_of kvs l = None" "map_of kvs k \<noteq> None" for k v kvs
    using map_of_put_first [of "same_key k" k kvs v] map_of_put_first_variant [of "same_key k" _ k kvs v] that
    by auto
  have put: "map_of (put_first (\<lambda>l. l = k) k v kvs) l = (if l = k then Some v else map_of kvs l)"
    if "map_of kvs k \<noteq> None" for k v kvs l
    using map_of_put_first [of "\<lambda>l. l = k" k kvs v] map_of_put_first_other [of "\<lambda>l. l = k" l k v kvs] that
    by auto
  have other: "\<not> same_key k l \<Longrightarrow> map_of (put_first (same_key k) k v kvs) l = map_of kvs l" for k l v kvs
    by (rule map_of_put_first_other) auto
  show ?thesis unfolding cjson_get_laws_def no_variant_def
  proof (intro conjI allI impI)
    fix obj :: json and k l :: string and v :: json
    show "cj_is_object json_ops obj \<Longrightarrow> cj_get json_ops (cj_add json_ops obj k v) l
          = (if l = k \<and> cj_get json_ops obj k = None then Some v else cj_get json_ops obj l)"
      by (cases obj) (auto simp: json_ops_def json_get_def json_map_def map_of_append map_add_def split: option.splits)
    show "cj_get json_ops obj k \<noteq> None \<Longrightarrow>
          cj_get json_ops (cj_child_put json_ops obj k v) l = (if l = k then Some v else cj_get json_ops obj l)"
      by (cases obj) (auto simp: json_ops_def json_get_def json_map_def put)
    show "\<not> same_key k l \<Longrightarrow> cj_get json_ops (cj_replace json_ops obj k v) l = cj_get json_ops obj l"
      by (cases obj) (simp_all add: json_ops_def json_get_def json_map_def other)
    show "\<not> same_key k l \<Longrightarrow> cj_get json_ops (cj_delete json_ops obj k) l = cj_get json_ops obj l"
      by (cases obj) (simp_all add: json_ops_def json_get_def json_map_def map_of_drop_first)
    show "cj_get json_ops obj l = None \<Longrightarrow> cj_get json_ops (cj_delete json_ops obj k) l = None"
      by (cases obj) (simp_all add: json_ops_def json_get_def json_map_def map_of_drop_first_None)
  next
    fix obj :: json and k l :: string and v :: json
    assume a: "\<forall>l. same_key k l \<longrightarrow> l \<noteq> k \<longrightarrow> cj_get json_ops obj l = None" "cj_get json_ops obj k \<noteq> None"
    then obtain kvs where "obj = JObj kvs" by (cases obj) (auto simp: json_ops_def json_get_def)
    with a rep [of k kvs v] show "cj_get json_ops (cj_replace json_ops obj k v) k = Some v"
      "same_key k l \<Longrightarrow> l \<noteq> k \<Longrightarrow> cj_get json_ops (cj_replace json_ops obj k v) l = None"
      by (auto simp: json_ops_def json_get_def json_map_def)
  qed
qed

lemma json_ops_ok: "cjson_ok json_ops"
proof -
  have "cjson_value_laws json_ops"
    by (auto simp: cjson_value_laws_def json_ops_def json_get_def json_map_def split: json.splits)
  moreover have "cjson_text_laws json_ops"
    by (auto simp: cjson_text_laws_def json_ops_def dec_text_enc cstr_enc_json)
  ultimately show ?thesis using json_ops_get by (simp add: cjson_ok_def)
qed

end
