(* ===== verification/Skill_Fs.thy ===== *)
theory Skill_Fs
  imports Skill_Prelude "HOL-Library.AList"
begin

text \<open>
  The file system the module works on, as far as the C library shows it: a finite map from
  paths (lists of names) to regular files, directories and special files, and the calls of
  \<open>skill.c\<close> and \<open>skill_rollback.c\<close> on it.

  The environment decides which calls fail for reasons outside the model (permissions,
  input and output errors, memory): \<open>fault call path\<close> is such a failure, and every theorem
  that does not mention it holds for every choice of them. A call on a path fails always or
  never: a call that fails once and works the next time is not modelled. Relative paths start at the
  root of the map. Symbolic links are not modelled, so \<open>stat\<close> and \<open>lstat\<close> agree, and a
  special file cannot be opened.
\<close>

section \<open>Files\<close>

datatype kind = Reg string | Dir | Special

type_synonym path = "string list"
type_synonym fs = "(path \<times> kind) list"

definition fs_at :: "fs \<Rightarrow> path \<Rightarrow> kind option" where
  "fs_at fs p = (if p = [] then Some Dir else map_of fs p)"

abbreviation is_dir :: "fs \<Rightarrow> path \<Rightarrow> bool" where
  "is_dir fs p \<equiv> fs_at fs p = Some Dir"

definition fs_put :: "path \<Rightarrow> kind \<Rightarrow> fs \<Rightarrow> fs" where
  "fs_put p k fs = AList.update p k fs"

definition fs_del :: "path \<Rightarrow> fs \<Rightarrow> fs" where
  "fs_del p fs = AList.delete p fs"

definition fs_names :: "fs \<Rightarrow> path \<Rightarrow> string list" where
  "fs_names fs d = map (\<lambda>(p, k). last p) (filter (\<lambda>(p, k). p \<noteq> [] \<and> butlast p = d) fs)"

definition fs_move :: "path \<Rightarrow> path \<Rightarrow> fs \<Rightarrow> fs" where
  "fs_move old new fs =
     map (\<lambda>(p, k). (if prefix old p then new @ drop (length old) p else p, k)) fs"

text \<open>Names a directory can hold, and file systems whose entries lie in directories.\<close>

definition name_ok :: "string \<Rightarrow> bool" where
  "name_ok n \<longleftrightarrow> n \<noteq> [] \<and> n \<noteq> ''.'' \<and> n \<noteq> ''..'' \<and> CHR ''/'' \<notin> set n \<and> cstr n"

definition fs_wf :: "fs \<Rightarrow> bool" where
  "fs_wf fs \<longleftrightarrow> distinct (map fst fs)
     \<and> (\<forall>(p, k) \<in> set fs. p \<noteq> [] \<and> is_dir fs (butlast p) \<and> name_ok (last p))"

lemma fs_at_Nil [simp]: "fs_at fs [] = Some Dir"
  by (simp add: fs_at_def)

lemma fs_at_put [simp]: "p \<noteq> [] \<Longrightarrow> fs_at (fs_put p k fs) = (fs_at fs)(p \<mapsto> k)"
  by (rule ext) (simp add: fs_at_def fs_put_def update_conv)

lemma fs_at_del [simp]: "p \<noteq> [] \<Longrightarrow> fs_at (fs_del p fs) = (fs_at fs)(p := None)"
  by (rule ext) (simp add: fs_at_def fs_del_def delete_conv)

lemma fs_at_entry: "p \<noteq> [] \<Longrightarrow> fs_at fs p \<noteq> None \<longleftrightarrow> p \<in> fst ` set fs"
  by (simp add: fs_at_def map_of_eq_None_iff)

lemma fs_names_iff: "n \<in> set (fs_names fs d) \<longleftrightarrow> fs_at fs (d @ [n]) \<noteq> None"
proof -
  have "n \<in> set (fs_names fs d) \<longleftrightarrow> (\<exists>p k. (p, k) \<in> set fs \<and> p \<noteq> [] \<and> butlast p = d \<and> n = last p)"
    by (auto simp: fs_names_def)
  also have "\<dots> \<longleftrightarrow> d @ [n] \<in> fst ` set fs"
    by (force simp: image_iff)
  also have "\<dots> \<longleftrightarrow> fs_at fs (d @ [n]) \<noteq> None"
    by (simp add: fs_at_entry del: not_None_eq)
  finally show ?thesis .
qed

lemma fs_wf_at:
  "fs_wf fs \<longleftrightarrow> distinct (map fst fs) \<and> [] \<notin> fst ` set fs
     \<and> (\<forall>d n. fs_at fs (d @ [n]) \<noteq> None \<longrightarrow> is_dir fs d \<and> name_ok n)"
  (is "?l \<longleftrightarrow> ?r")
proof
  assume l: ?l
  have "is_dir fs d \<and> name_ok n" if "fs_at fs (d @ [n]) \<noteq> None" for d n
  proof -
    from that have "d @ [n] \<in> fst ` set fs" by (simp add: fs_at_entry del: not_None_eq)
    then obtain k where "(d @ [n], k) \<in> set fs" by auto
    with l show ?thesis by (fastforce simp: fs_wf_def)
  qed
  with l show ?r by (force simp: fs_wf_def)
next
  assume r: ?r
  have "p \<noteq> [] \<and> is_dir fs (butlast p) \<and> name_ok (last p)" if "(p, k) \<in> set fs" for p k
  proof -
    from that r have p: "p \<noteq> []" by force
    with that have "fs_at fs (butlast p @ [last p]) \<noteq> None"
      using fs_at_entry [of p fs] by force
    with r p show ?thesis by blast
  qed
  with r show ?l by (auto simp: fs_wf_def)
qed

lemma fs_wf_parent: "fs_wf fs \<Longrightarrow> fs_at fs (d @ [n]) = Some k \<Longrightarrow> is_dir fs d \<and> name_ok n"
  unfolding fs_wf_at by blast

lemma fs_wf_prefix: "fs_wf fs \<Longrightarrow> fs_at fs (p @ q) \<noteq> None \<Longrightarrow> q \<noteq> [] \<Longrightarrow> is_dir fs p"
proof (induction q rule: rev_induct)
  case (snoc n q)
  then have "is_dir fs (p @ q)" using fs_wf_parent [of fs "p @ q" n] by auto
  with snoc show ?case by (cases "q = []") auto
qed simp

lemma fs_wf_names: "fs_wf fs \<Longrightarrow> fs_at fs p \<noteq> None \<Longrightarrow> n \<in> set p \<Longrightarrow> name_ok n"
proof (induction p rule: rev_induct)
  case (snoc m p)
  then have "is_dir fs p" "name_ok m" using fs_wf_parent [of fs p m] by auto
  with snoc show ?case by auto
qed simp

lemma fs_names_distinct: "fs_wf fs \<Longrightarrow> distinct (fs_names fs d)"
proof -
  assume wf: "fs_wf fs"
  let ?es = "filter (\<lambda>(p, k). p \<noteq> [] \<and> butlast p = d) fs"
  have "distinct (map fst ?es)" using wf by (simp add: fs_wf_def distinct_map_filter)
  moreover have "fs_names fs d = map last (map fst ?es)"
    by (simp add: fs_names_def case_prod_beta)
  moreover have "inj_on last (set (map fst ?es))"
  proof (rule inj_onI)
    fix x y assume "x \<in> set (map fst ?es)" "y \<in> set (map fst ?es)" and l: "last x = last y"
    then have "x \<noteq> []" "butlast x = d" "y \<noteq> []" "butlast y = d" by auto
    then have "x = d @ [last x]" "y = d @ [last y]" by (metis append_butlast_last_id)+
    with l show "x = y" by simp
  qed
  ultimately show ?thesis by (simp only: distinct_map [of last] simp_thms)
qed

text \<open>What keeps a file system well formed.\<close>

lemma fs_wf_put:
  assumes "fs_wf fs" "is_dir fs d" "name_ok n" "\<not> is_dir fs (d @ [n])"
  shows "fs_wf (fs_put (d @ [n]) k fs)"
proof -
  have no_child: "fs_at fs ((d @ [n]) @ [m]) = None" for m
    using assms(1,4) fs_wf_parent [of fs "d @ [n]" m] by (cases "fs_at fs ((d @ [n]) @ [m])") auto
  have "distinct (map fst (fs_put (d @ [n]) k fs))"
    using assms(1) by (simp add: fs_put_def fs_wf_def distinct_update)
  moreover have "[] \<notin> fst ` set (fs_put (d @ [n]) k fs)"
    using assms(1) by (auto simp: fs_put_def fs_wf_at dom_update)
  ultimately show ?thesis
    using assms no_child unfolding fs_wf_at by auto
qed

lemma fs_wf_del:
  assumes "fs_wf fs" "p \<noteq> []" "\<And>m. fs_at fs (p @ [m]) = None"
  shows "fs_wf (fs_del p fs)"
proof -
  have "distinct (map fst (fs_del p fs))"
    using assms(1) by (simp add: fs_del_def fs_wf_def AList.distinct_delete)
  moreover have "[] \<notin> fst ` set (fs_del p fs)"
    using assms(1) AList.dom_delete_subset [of p fs] unfolding fs_del_def fs_wf_at by blast
  moreover have "is_dir (fs_del p fs) d \<and> name_ok n" if "fs_at (fs_del p fs) (d @ [n]) \<noteq> None" for d n
  proof -
    from that assms(2) have at: "fs_at fs (d @ [n]) \<noteq> None" by (auto split: if_splits)
    then have "d \<noteq> p" using assms(3) by metis
    with at assms show ?thesis by (auto simp: fs_wf_at)
  qed
  ultimately show ?thesis unfolding fs_wf_at by blast
qed

lemma option_ext: "(\<And>k. a = Some k \<longleftrightarrow> b = Some k) \<Longrightarrow> a = b"
  by (cases a; cases b) auto

text \<open>Moving an entry with everything below it to a free place.\<close>

lemma fs_at_move:
  assumes wf: "fs_wf fs" and free: "\<And>q. fs_at fs (new @ q) = None"
    and apart: "\<not> prefix old new" "\<not> prefix new old"
  shows "fs_at (fs_move old new fs) q
    = (if prefix new q then fs_at fs (old @ drop (length new) q)
       else if prefix old q then None else fs_at fs q)"
    and "distinct (map fst (fs_move old new fs))"
proof -
  define f where "f p = (if prefix old p then new @ drop (length old) p else p)" for p :: path
  have mv: "fs_move old new fs = map (\<lambda>(p, k). (f p, k)) fs"
    by (simp add: fs_move_def f_def)
  have ne: "old \<noteq> []" "new \<noteq> []" using apart by auto
  have key: "p \<in> fst ` set fs \<Longrightarrow> \<not> prefix new p" for p
  proof
    assume p: "p \<in> fst ` set fs" "prefix new p"
    then obtain q where q: "p = new @ q" by (auto simp: prefix_def)
    then have "p \<noteq> []" using ne by simp
    then have "fs_at fs p \<noteq> None" using p(1) fs_at_entry by blast
    with q free show False by metis
  qed
  have key': "(new @ zs, b) \<notin> set fs" for zs b
    using key [of "new @ zs"] by force
  have inj: "inj_on f (fst ` set fs)"
    by (rule inj_onI) (auto simp: f_def prefix_def key' split: if_splits)
  have d: "distinct (map fst fs)" using wf by (simp add: fs_wf_def)
  have "map fst (map (\<lambda>(p, k). (f p, k)) fs) = map f (map fst fs)" by auto
  with d inj show d': "distinct (map fst (fs_move old new fs))"
    unfolding mv by (simp only: distinct_map [of f] set_map simp_thms)
  have mem: "(q, k) \<in> set (fs_move old new fs)
    \<longleftrightarrow> (if prefix new q then (old @ drop (length new) q, k) \<in> set fs
         else \<not> prefix old q \<and> (q, k) \<in> set fs)" for q k
  proof -
    have "(q, k) \<in> set (fs_move old new fs) \<longleftrightarrow> (\<exists>p. (p, k) \<in> set fs \<and> q = f p)"
      unfolding mv by auto
    also have "\<dots> \<longleftrightarrow> (if prefix new q then (old @ drop (length new) q, k) \<in> set fs
         else \<not> prefix old q \<and> (q, k) \<in> set fs)"
    proof (cases "prefix new q")
      case True
      then have "q = f p \<longleftrightarrow> p = old @ drop (length new) q" if "(p, k) \<in> set fs" for p
        using key [of p] that by (force simp: f_def prefix_def)
      with True show ?thesis by metis
    next
      case False
      then have "q = f p \<longleftrightarrow> p = q \<and> \<not> prefix old q" for p
        by (auto simp: f_def)
      with False show ?thesis by auto
    qed
    finally show ?thesis .
  qed
  show "fs_at (fs_move old new fs) q
    = (if prefix new q then fs_at fs (old @ drop (length new) q)
       else if prefix old q then None else fs_at fs q)"
  proof (cases "q = []")
    case True
    then show ?thesis using ne by simp
  next
    case False
    have "map_of (fs_move old new fs) q = Some k
      \<longleftrightarrow> (if prefix new q then map_of fs (old @ drop (length new) q) = Some k
           else \<not> prefix old q \<and> map_of fs q = Some k)" for k
      using mem [of q k] by (simp only: map_of_eq_Some_iff [OF d'] map_of_eq_Some_iff [OF d])
    then have "map_of (fs_move old new fs) q
      = (if prefix new q then map_of fs (old @ drop (length new) q)
         else if prefix old q then None else map_of fs q)"
      by (intro option_ext) simp
    then show ?thesis using False ne(1) by (simp add: fs_at_def)
  qed
qed

section \<open>The environment\<close>

datatype errno = ENOENT | EEXIST | ENOTDIR | EISDIR | ENOTEMPTY | EINVAL | EIO

datatype syscall =
    Stat | Lstat | Access | Mkdir | Opendir | Fopen_r | Fopen_w | Fread | Fwrite
  | Rename | Unlink | Rmdir | Flock | Malloc

text \<open>
  Everything the module gets from outside: the failures, how much of a failed write reaches
  the file (\<open>written\<close>) and how much a failed read returns (\<open>received\<close>), the environment
  variables, and the functions and constants of the rest of the program
  (\<open>config_default_dir\<close>, \<open>now_utc\<close>, \<open>MAX_FILE_SIZE\<close>, \<open>dstr_steal\<close> of the appended pieces,
  \<open>safe_strdup\<close>). \<open>now_utc env k\<close> is the k-th reading of the clock. C leaves the value of an
  int operation undefined when the result does not fit; \<open>out_of_int\<close> is what the machine gives.
\<close>

record env =
  fault :: "syscall \<Rightarrow> string \<Rightarrow> bool"
  written :: "string \<Rightarrow> nat"
  received :: "string \<Rightarrow> nat"
  getenv :: "string \<Rightarrow> string option"
  config_default_dir :: string
  now_utc :: "nat \<Rightarrow> string"
  getpid :: nat
  clock :: int
  out_of_int :: "int \<Rightarrow> 32 word"
  MAX_FILE_SIZE :: nat
  dstr_steal :: "string list \<Rightarrow> string option"
  safe_strdup :: "string \<Rightarrow> string option"

text \<open>The result of an operation on ints: the value if it fits.\<close>

definition fits_int :: "int \<Rightarrow> bool" where
  "fits_int z \<longleftrightarrow> - (2 ^ 31) \<le> z \<and> z < 2 ^ 31"

definition c_int :: "env \<Rightarrow> int \<Rightarrow> 32 word" where
  "c_int env z = (if fits_int z then word_of_int z else out_of_int env z)"

lemma sint_fits [simp]: "fits_int (sint w)" for w :: "32 word"
  using sint_greater_eq [of w] sint_less [of w] by (simp add: fits_int_def)

lemma sint_c_int: "fits_int z \<Longrightarrow> sint (c_int env z) = z"
  by (simp add: c_int_def sint_sbintrunc' signed_take_bit_int_eq_self_iff fits_int_def)

lemma c_int_sint [simp]: "c_int env (sint w) = w"
  by (simp add: c_int_def)

section \<open>Paths to files\<close>

fun walk :: "fs \<Rightarrow> path \<Rightarrow> string list \<Rightarrow> errno + path" where
  "walk fs cur [] = Inr cur"
| "walk fs cur (x # xs) =
     (case fs_at fs cur of
        None \<Rightarrow> Inl ENOENT
      | Some Dir \<Rightarrow> walk fs (if x = ''..'' then butlast cur else cur @ [x]) xs
      | Some _ \<Rightarrow> Inl ENOTDIR)"

definition locate :: "fs \<Rightarrow> string \<Rightarrow> errno + path" where
  "locate fs p = (if p = [] then Inl ENOENT else walk fs [] (path_parts p))"

definition sys_path :: "env \<Rightarrow> syscall \<Rightarrow> fs \<Rightarrow> string \<Rightarrow> errno + path" where
  "sys_path env call fs p = (if fault env call p then Inl EIO else locate fs p)"

lemma walk_append:
  "walk fs cur (xs @ ys) = (case walk fs cur xs of Inl e \<Rightarrow> Inl e | Inr q \<Rightarrow> walk fs q ys)"
  by (induction fs cur xs rule: walk.induct) (auto split: option.splits kind.splits)

text \<open>A path one name longer is looked up in the directory the shorter one leads to.\<close>

lemma locate_child:
  assumes "p \<noteq> []" "n \<noteq> []" "n \<noteq> ''.''" "n \<noteq> ''..''" "CHR ''/'' \<notin> set n"
  shows "locate fs (p @ CHR ''/'' # n) =
    (case locate fs p of
       Inl e \<Rightarrow> Inl e
     | Inr q \<Rightarrow> (case fs_at fs q of
                None \<Rightarrow> Inl ENOENT | Some Dir \<Rightarrow> Inr (q @ [n]) | Some _ \<Rightarrow> Inl ENOTDIR))"
  using assms
  by (auto simp: locate_def walk_append path_parts_single split: sum.splits option.splits kind.splits)

lemma walk_plain:
  assumes "''..'' \<notin> set xs" "walk fs cur xs = Inr q"
  shows "q = cur @ xs"
  using assms by (induction fs cur xs rule: walk.induct) (auto split: option.splits kind.splits)

lemma walk_prefix_dir:
  "walk fs cur xs = Inr q \<Longrightarrow> xs \<noteq> [] \<Longrightarrow> is_dir fs cur"
  by (cases xs) (auto split: option.splits kind.splits)

lemma walk_dirs:
  "''..'' \<notin> set xs \<Longrightarrow> (\<And>a b. xs = a @ b \<Longrightarrow> b \<noteq> [] \<Longrightarrow> is_dir fs (cur @ a)) \<Longrightarrow> walk fs cur xs = Inr (cur @ xs)"
proof (induction xs arbitrary: cur)
  case (Cons x xs)
  have "is_dir fs cur" using Cons.prems(2) [of "[]" "x # xs"] by simp
  moreover have "walk fs (cur @ [x]) xs = Inr ((cur @ [x]) @ xs)"
  proof (rule Cons.IH)
    show "''..'' \<notin> set xs" using Cons.prems(1) by simp
    fix a b assume "xs = a @ b" "b \<noteq> []"
    then show "is_dir fs ((cur @ [x]) @ a)" using Cons.prems(2) [of "x # a" b] by simp
  qed
  ultimately show ?case using Cons.prems(1) by auto
qed simp

text \<open>In a well-formed file system an existing plain path leads where it says.\<close>

lemma locate_plain:
  assumes "fs_wf fs" "p \<noteq> []" "path_parts p = xs" "''..'' \<notin> set xs" "xs = [] \<or> is_dir fs (butlast xs)"
  shows "locate fs p = Inr xs"
proof -
  have "is_dir fs a" if "xs = a @ b" "b \<noteq> []" for a b
  proof (cases "butlast b = []")
    case True
    then have "butlast xs = a" using that by (simp add: butlast_append)
    then show ?thesis using assms(5) that by auto
  next
    case False
    have "fs_at fs (a @ butlast b) \<noteq> None"
      using assms(5) that by (auto simp: butlast_append)
    then show ?thesis using fs_wf_prefix [OF assms(1)] False by blast
  qed
  then have "walk fs [] xs = Inr ([] @ xs)" by (intro walk_dirs) (use assms in auto)
  with assms show ?thesis by (simp add: locate_def)
qed

lemma locate_plain_Inr:
  "path_parts p = xs \<Longrightarrow> ''..'' \<notin> set xs \<Longrightarrow> locate fs p = Inr q \<Longrightarrow> q = xs"
  using walk_plain by (fastforce simp: locate_def split: if_splits)

section \<open>Calls\<close>

definition c_stat :: "env \<Rightarrow> syscall \<Rightarrow> fs \<Rightarrow> string \<Rightarrow> errno + kind" where
  "c_stat env call fs p =
     (case sys_path env call fs p of
        Inl e \<Rightarrow> Inl e
      | Inr q \<Rightarrow> (case fs_at fs q of None \<Rightarrow> Inl ENOENT | Some k \<Rightarrow> Inr k))"

definition c_access :: "env \<Rightarrow> fs \<Rightarrow> string \<Rightarrow> bool" where
  "c_access env fs p = (case c_stat env Access fs p of Inl e \<Rightarrow> False | Inr k \<Rightarrow> True)"

definition S_ISREG :: "kind \<Rightarrow> bool" where
  "S_ISREG k = (case k of Reg s \<Rightarrow> True | _ \<Rightarrow> False)"

definition S_ISDIR :: "kind \<Rightarrow> bool" where
  "S_ISDIR k = (case k of Dir \<Rightarrow> True | _ \<Rightarrow> False)"

definition c_mkdir :: "env \<Rightarrow> fs \<Rightarrow> string \<Rightarrow> errno + fs" where
  "c_mkdir env fs p =
     (case sys_path env Mkdir fs p of
        Inl e \<Rightarrow> Inl e
      | Inr q \<Rightarrow>
          (case fs_at fs q of
             Some k \<Rightarrow> Inl EEXIST
           | None \<Rightarrow> if is_dir fs (butlast q) then Inr (fs_put q Dir fs) else Inl ENOENT))"

text \<open>The names \<open>readdir\<close> returns until it returns NULL, \<open>.\<close> and \<open>..\<close> among them.\<close>

definition c_opendir :: "env \<Rightarrow> fs \<Rightarrow> string \<Rightarrow> errno + string list" where
  "c_opendir env fs p =
     (case sys_path env Opendir fs p of
        Inl e \<Rightarrow> Inl e
      | Inr q \<Rightarrow>
          (case fs_at fs q of
             None \<Rightarrow> Inl ENOENT
           | Some Dir \<Rightarrow> Inr (''.'' # ''..'' # fs_names fs q)
           | Some _ \<Rightarrow> Inl ENOTDIR))"

definition c_unlink :: "env \<Rightarrow> fs \<Rightarrow> string \<Rightarrow> errno + fs" where
  "c_unlink env fs p =
     (case sys_path env Unlink fs p of
        Inl e \<Rightarrow> Inl e
      | Inr q \<Rightarrow>
          (case fs_at fs q of
             None \<Rightarrow> Inl ENOENT | Some Dir \<Rightarrow> Inl EISDIR | Some _ \<Rightarrow> Inr (fs_del q fs)))"

definition c_rmdir :: "env \<Rightarrow> fs \<Rightarrow> string \<Rightarrow> errno + fs" where
  "c_rmdir env fs p =
     (case sys_path env Rmdir fs p of
        Inl e \<Rightarrow> Inl e
      | Inr q \<Rightarrow>
          (case fs_at fs q of
             None \<Rightarrow> Inl ENOENT
           | Some Dir \<Rightarrow>
               if q = [] then Inl EINVAL
               else if fs_names fs q \<noteq> [] then Inl ENOTEMPTY else Inr (fs_del q fs)
           | Some _ \<Rightarrow> Inl ENOTDIR))"

text \<open>\<open>fopen(p, "r")\<close>: a directory opens and then cannot be read.\<close>

definition c_fopen_r :: "env \<Rightarrow> fs \<Rightarrow> string \<Rightarrow> errno + kind" where
  "c_fopen_r env fs p =
     (case c_stat env Fopen_r fs p of
        Inl e \<Rightarrow> Inl e | Inr k \<Rightarrow> (case k of Special \<Rightarrow> Inl EIO | _ \<Rightarrow> Inr k))"

text \<open>
  \<open>fread\<close> of at most \<open>n\<close> bytes from the start: the bytes, and whether \<open>ferror\<close> is set. A read
  that fails returns the bytes it got before.
\<close>

definition c_fread :: "env \<Rightarrow> string \<Rightarrow> kind \<Rightarrow> nat \<Rightarrow> string \<times> bool" where
  "c_fread env p k n =
     (case k of
        Reg s \<Rightarrow> if fault env Fread p then (take (received env p) (take n s), True) else (take n s, False)
      | _ \<Rightarrow> ([], True))"

text \<open>
  \<open>fopen(p, "w")\<close>, the writes and \<open>fclose\<close>: None when the file cannot be opened, else the new
  state and whether everything was written.
\<close>

definition c_write_file :: "env \<Rightarrow> fs \<Rightarrow> string \<Rightarrow> string \<Rightarrow> (fs \<times> bool) option" where
  "c_write_file env fs p content =
     (case sys_path env Fopen_w fs p of
        Inl e \<Rightarrow> None
      | Inr q \<Rightarrow>
          if is_dir fs (butlast q) \<and> (case fs_at fs q of None \<Rightarrow> True | Some (Reg s) \<Rightarrow> True | _ \<Rightarrow> False)
          then if fault env Fwrite p
               then Some (fs_put q (Reg (take (written env p) content)) fs, False)
               else Some (fs_put q (Reg content) fs, True)
          else None)"

definition c_rename :: "env \<Rightarrow> fs \<Rightarrow> string \<Rightarrow> string \<Rightarrow> errno + fs" where
  "c_rename env fs old new =
     (case (sys_path env Rename fs old, locate fs new) of
        (Inr a, Inr b) \<Rightarrow>
          (case (fs_at fs a, fs_at fs b) of
             (None, _) \<Rightarrow> Inl ENOENT
           | (Some k, None) \<Rightarrow>
               if prefix a b then Inl EINVAL
               else if is_dir fs (butlast b) then Inr (fs_move a b fs) else Inl ENOENT
           | (Some k, Some l) \<Rightarrow>
               if a = b then Inr fs
               else if prefix a b \<or> prefix b a then Inl EINVAL
               else if S_ISDIR k \<and> \<not> S_ISDIR l then Inl ENOTDIR
               else if \<not> S_ISDIR k \<and> S_ISDIR l then Inl EISDIR
               else if S_ISDIR l \<and> fs_names fs b \<noteq> [] then Inl ENOTEMPTY
               else Inr (fs_move a b (fs_del b fs)))
      | (Inl e, _) \<Rightarrow> Inl e
      | (_, Inl e) \<Rightarrow> Inl e)"

text \<open>What a C function sees of bytes it takes for a string.\<close>

definition c_string :: "string \<Rightarrow> string" where
  "c_string s = takeWhile (\<lambda>c. c \<noteq> nul) s"

lemma cstr_c_string [simp, intro]: "cstr (c_string s)"
  by (auto simp: c_string_def cstr_def dest: set_takeWhileD)

lemma c_string_id [simp]: "cstr s \<Longrightarrow> c_string s = s"
  by (auto simp: c_string_def cstr_def takeWhile_eq_all_conv)

section \<open>What each call does to the map\<close>

lemma sys_path_Inr: "sys_path env call fs p = Inr q \<longleftrightarrow> \<not> fault env call p \<and> locate fs p = Inr q"
  by (simp add: sys_path_def)

lemma path_parts_names:
  "cstr p \<Longrightarrow> n \<in> set (path_parts p) \<Longrightarrow> n \<noteq> ''..'' \<Longrightarrow> name_ok n"
  by (auto simp: path_parts_def name_ok_def cstr_def dest!: split_on_infix set_mono_sublist)

lemma walk_names:
  "\<forall>n \<in> set cur. name_ok n \<Longrightarrow> \<forall>n \<in> set xs. n \<noteq> ''..'' \<longrightarrow> name_ok n \<Longrightarrow> walk fs cur xs = Inr q
   \<Longrightarrow> \<forall>n \<in> set q. name_ok n"
proof (induction fs cur xs rule: walk.induct)
  case (2 fs cur x xs)
  from "2.prems"(3) have d: "is_dir fs cur" by (auto split: option.splits kind.splits)
  have "\<forall>n \<in> set (if x = ''..'' then butlast cur else cur @ [x]). name_ok n"
    using "2.prems"(1,2) by (auto dest: in_set_butlastD)
  moreover have "walk fs (if x = ''..'' then butlast cur else cur @ [x]) xs = Inr q"
    using "2.prems"(3) d by simp
  moreover have "\<forall>n \<in> set xs. n \<noteq> ''..'' \<longrightarrow> name_ok n" using "2.prems"(2) by simp
  ultimately show ?case using "2.IH" [OF d refl] by metis
qed simp

lemma locate_names: "cstr p \<Longrightarrow> locate fs p = Inr q \<Longrightarrow> n \<in> set q \<Longrightarrow> name_ok n"
  using walk_names [of "[]" "path_parts p" fs q] path_parts_names [of p]
  by (auto simp: locate_def split: if_splits)

lemma c_stat_Inr:
  "c_stat env call fs p = Inr k
   \<longleftrightarrow> \<not> fault env call p \<and> (\<exists>q. locate fs p = Inr q \<and> fs_at fs q = Some k)"
  by (auto simp: c_stat_def sys_path_def split: sum.splits option.splits)

lemma c_mkdir_Inr:
  "c_mkdir env fs p = Inr fs' \<Longrightarrow> \<exists>q. locate fs p = Inr q \<and> q \<noteq> [] \<and> fs_at fs q = None
     \<and> is_dir fs (butlast q) \<and> fs' = fs_put q Dir fs"
  by (auto simp: c_mkdir_def sys_path_Inr split: sum.splits option.splits if_splits)

lemma c_unlink_Inr:
  "c_unlink env fs p = Inr fs' \<Longrightarrow> \<exists>q. locate fs p = Inr q \<and> q \<noteq> [] \<and> fs_at fs q \<noteq> None
     \<and> \<not> is_dir fs q \<and> fs' = fs_del q fs"
  by (auto simp: c_unlink_def sys_path_Inr split: sum.splits option.splits kind.splits)

lemma c_rmdir_Inr:
  "c_rmdir env fs p = Inr fs' \<Longrightarrow> \<exists>q. locate fs p = Inr q \<and> q \<noteq> [] \<and> is_dir fs q
     \<and> fs_names fs q = [] \<and> fs' = fs_del q fs"
  by (auto simp: c_rmdir_def sys_path_Inr split: sum.splits option.splits kind.splits if_splits)

lemma c_write_file_Some:
  "c_write_file env fs p s = Some (fs', ok) \<Longrightarrow> \<exists>q t. locate fs p = Inr q \<and> q \<noteq> []
     \<and> \<not> is_dir fs q \<and> is_dir fs (butlast q) \<and> fs' = fs_put q (Reg t) fs \<and> (ok \<longrightarrow> t = s)"
  by (auto simp: c_write_file_def sys_path_Inr split: sum.splits option.splits kind.splits if_splits)

lemma c_rename_Inr:
  "c_rename env fs old new = Inr fs' \<Longrightarrow> \<exists>a b. locate fs old = Inr a \<and> locate fs new = Inr b
     \<and> fs_at fs a \<noteq> None
     \<and> (a = b \<and> fs' = fs
        \<or> \<not> prefix a b \<and> fs_at fs b = None \<and> is_dir fs (butlast b) \<and> fs' = fs_move a b fs
        \<or> \<not> prefix a b \<and> \<not> prefix b a \<and> fs_at fs b \<noteq> None
          \<and> (is_dir fs b \<longrightarrow> is_dir fs a \<and> fs_names fs b = []) \<and> (is_dir fs a \<longrightarrow> is_dir fs b)
          \<and> fs' = fs_move a b (fs_del b fs))"
  by (auto simp: c_rename_def sys_path_Inr S_ISDIR_def
      split: sum.splits option.splits kind.splits if_splits)

text \<open>Every call keeps the file system well formed.\<close>

lemma fs_no_child:
  "fs_wf fs \<Longrightarrow> \<not> is_dir fs p \<Longrightarrow> q \<noteq> [] \<Longrightarrow> fs_at fs (p @ q) = None"
  using fs_wf_prefix by blast

lemma fs_empty_dir:
  assumes "fs_wf fs" "fs_names fs p = []" "q \<noteq> []"
  shows "fs_at fs (p @ q) = None"
proof (rule ccontr)
  assume at: "fs_at fs (p @ q) \<noteq> None"
  obtain n r where q: "q = n # r" using assms(3) by (cases q) auto
  have "fs_at fs (p @ [n]) \<noteq> None"
  proof (cases "r = []")
    case True
    then show ?thesis using at q by simp
  next
    case False
    then have "is_dir fs (p @ [n])" using fs_wf_prefix [OF assms(1), of "p @ [n]" r] at q by simp
    then show ?thesis by simp
  qed
  then have "n \<in> set (fs_names fs p)" unfolding fs_names_iff .
  with assms(2) show False by simp
qed

lemma fs_wf_put_at:
  assumes "fs_wf fs" "cstr p" "locate fs p = Inr q" "q \<noteq> []" "is_dir fs (butlast q)" "\<not> is_dir fs q"
  shows "fs_wf (fs_put q k fs)"
proof -
  have "name_ok (last q)" using locate_names [OF assms(2,3)] assms(4) by simp
  with fs_wf_put [of fs "butlast q" "last q" k] assms show ?thesis by simp
qed

lemma c_mkdir_wf: "c_mkdir env fs p = Inr fs' \<Longrightarrow> fs_wf fs \<Longrightarrow> cstr p \<Longrightarrow> fs_wf fs'"
  using c_mkdir_Inr [of env fs p fs'] fs_wf_put_at by fastforce

lemma c_write_file_wf: "c_write_file env fs p s = Some (fs', ok) \<Longrightarrow> fs_wf fs \<Longrightarrow> cstr p \<Longrightarrow> fs_wf fs'"
  using c_write_file_Some [of env fs p s fs' ok] fs_wf_put_at by fastforce

lemma c_unlink_wf: "c_unlink env fs p = Inr fs' \<Longrightarrow> fs_wf fs \<Longrightarrow> fs_wf fs'"
  using c_unlink_Inr [of env fs p fs'] fs_wf_del [of fs] fs_no_child [of fs] by fastforce

lemma c_rmdir_wf: "c_rmdir env fs p = Inr fs' \<Longrightarrow> fs_wf fs \<Longrightarrow> fs_wf fs'"
  using c_rmdir_Inr [of env fs p fs'] fs_wf_del [of fs] fs_empty_dir [of fs] by fastforce

lemma fs_wf_move:
  assumes wf: "fs_wf fs" and free: "\<And>q. fs_at fs (b @ q) = None"
    and apart: "\<not> prefix a b" "\<not> prefix b a" and b: "is_dir fs (butlast b)" "name_ok (last b)"
  shows "fs_wf (fs_move a b fs)"
proof -
  note at = fs_at_move(1) [OF wf free apart]
  have ne: "a \<noteq> []" "b \<noteq> []" using apart by auto
  have "is_dir (fs_move a b fs) d \<and> name_ok n" if n: "fs_at (fs_move a b fs) (d @ [n]) \<noteq> None" for d n
  proof (cases "prefix b (d @ [n])")
    case True
    then consider "d @ [n] = b" | "prefix b d" by (auto simp: prefix_snoc)
    then show ?thesis
    proof cases
      case 1
      then have "d = butlast b" "n = last b" by auto
      moreover have "\<not> prefix b d" using 1 by (auto dest: prefix_length_le)
      moreover have "\<not> prefix a d" using apart(1) 1 by (auto simp: prefix_def)
      ultimately show ?thesis using b at by simp
    next
      case 2
      then have "fs_at fs ((a @ drop (length b) d) @ [n]) \<noteq> None"
        using n at True by (simp add: prefix_def split: if_splits)
          (metis append_eq_conv_conj append.assoc drop_append)
      then have "is_dir fs (a @ drop (length b) d)" "name_ok n" using wf unfolding fs_wf_at by blast+
      with 2 show ?thesis using at by simp
    qed
  next
    case False
    then have q: "\<not> prefix a (d @ [n])" "fs_at fs (d @ [n]) \<noteq> None" using n at by (auto split: if_splits)
    then have "is_dir fs d" "name_ok n" using wf unfolding fs_wf_at by blast+
    moreover have "\<not> prefix a d" "\<not> prefix b d" using False q(1) by (auto simp: prefix_def)
    ultimately show ?thesis using at by simp
  qed
  moreover have "[] \<notin> fst ` set (fs_move a b fs)"
    using wf ne by (force simp: fs_move_def fs_wf_def split: if_splits)
  moreover have "distinct (map fst (fs_move a b fs))" by (rule fs_at_move(2) [OF wf free apart])
  ultimately show ?thesis unfolding fs_wf_at by blast
qed

lemma c_rename_wf:
  assumes "c_rename env fs old new = Inr fs'" "fs_wf fs" "cstr new"
  shows "fs_wf fs'"
proof -
  from c_rename_Inr [OF assms(1)] obtain a b where ab: "locate fs old = Inr a" "locate fs new = Inr b"
    and a: "fs_at fs a \<noteq> None"
    and c: "a = b \<and> fs' = fs
        \<or> \<not> prefix a b \<and> fs_at fs b = None \<and> is_dir fs (butlast b) \<and> fs' = fs_move a b fs
        \<or> \<not> prefix a b \<and> \<not> prefix b a \<and> fs_at fs b \<noteq> None
          \<and> (is_dir fs b \<longrightarrow> is_dir fs a \<and> fs_names fs b = []) \<and> (is_dir fs a \<longrightarrow> is_dir fs b)
          \<and> fs' = fs_move a b (fs_del b fs)" by blast
  have nm: "b \<noteq> [] \<Longrightarrow> name_ok (last b)" using locate_names [OF assms(3) ab(2)] by simp
  from c consider "fs' = fs" | "\<not> prefix a b" "fs_at fs b = None" "is_dir fs (butlast b)" "fs' = fs_move a b fs"
    | "\<not> prefix a b" "\<not> prefix b a" "fs_at fs b \<noteq> None" "is_dir fs b \<longrightarrow> fs_names fs b = []"
      "fs' = fs_move a b (fs_del b fs)" by metis
  then show ?thesis
  proof cases
    case 1
    with assms show ?thesis by simp
  next
    case 2
    have b: "b \<noteq> []" using 2(1) 2(2) by auto
    have free: "fs_at fs (b @ q) = None" for q
      using fs_no_child [OF assms(2), of b q] 2(2) by (cases "q = []") auto
    then have "\<not> prefix b a" using a by (auto simp: prefix_def)
    with 2 free nm b show ?thesis using fs_wf_move [OF assms(2)] by blast
  next
    case 3
    have b: "b \<noteq> []" using 3(2) by auto
    have below: "q \<noteq> [] \<Longrightarrow> fs_at fs (b @ q) = None" for q
      using fs_no_child [OF assms(2), of b q] fs_empty_dir [OF assms(2), of b q] 3(4) by blast
    have wf': "fs_wf (fs_del b fs)" using fs_wf_del [OF assms(2) b] below by simp
    have free: "fs_at (fs_del b fs) (b @ q) = None" for q using below b by (cases "q = []") auto
    have "fs_at fs (butlast b @ [last b]) \<noteq> None" using 3(3) b by simp
    then have "is_dir fs (butlast b)" using assms(2) unfolding fs_wf_at by blast
    moreover have "butlast b \<noteq> b" using b by (metis append_butlast_last_id not_Cons_self2 self_append_conv)
    ultimately have "is_dir (fs_del b fs) (butlast b)" using b by simp
    with fs_wf_move [OF wf' free 3(1,2)] nm b 3(5) show ?thesis by simp
  qed
qed

section \<open>Where a path leads depends on the directories only\<close>

lemma walk_dirs_mono:
  "(\<And>x. is_dir fs x \<Longrightarrow> is_dir fs' x) \<Longrightarrow> walk fs cur xs = Inr q \<Longrightarrow> walk fs' cur xs = Inr q"
proof (induction fs cur xs rule: walk.induct)
  case (2 fs cur x xs)
  then have d: "is_dir fs cur" by (auto split: option.splits kind.splits)
  with "2.prems"(2) have "walk fs (if x = ''..'' then butlast cur else cur @ [x]) xs = Inr q" by simp
  with "2.IH" [OF d refl "2.prems"(1)] "2.prems"(1) [OF d] show ?case by simp
qed simp

lemma locate_dirs_mono:
  "(\<And>x. is_dir fs x \<Longrightarrow> is_dir fs' x) \<Longrightarrow> locate fs p = Inr q \<Longrightarrow> locate fs' p = Inr q"
  by (cases "p = []") (simp_all add: locate_def walk_dirs_mono [of fs fs'])

text \<open>Renaming a regular file onto a free name or another file.\<close>

lemma c_rename_file:
  assumes "c_rename env fs old new = Inr fs'" "fs_wf fs"
    and "locate fs old = Inr a" "locate fs new = Inr b" "a \<noteq> b" "fs_at fs a = Some (Reg s)"
  shows "fs_at fs' = (fs_at fs)(a := None, b \<mapsto> Reg s)"
proof -
  from c_rename_Inr [OF assms(1)] assms(3-6) consider
      "\<not> prefix a b" "fs_at fs b = None" "fs' = fs_move a b fs"
    | "\<not> prefix a b" "\<not> prefix b a" "\<not> is_dir fs b" "fs' = fs_move a b (fs_del b fs)"
    by fastforce
  then obtain fs1 where fs1: "\<not> prefix a b" "\<not> prefix b a" "\<not> is_dir fs b" "fs' = fs_move a b fs1"
    "fs_wf fs1" "fs_at fs1 = (fs_at fs)(b := None)" "b \<noteq> []"
  proof cases
    case 1
    then have "b \<noteq> []" by auto
    have nb: "fs_at fs (b @ q) = None" for q
      using fs_no_child [OF assms(2), of b q] 1(2) by (cases "q = []") auto
    then have "\<not> prefix b a" using assms(6) by (auto simp: prefix_def)
    moreover have "fs_at fs = (fs_at fs)(b := None)" using 1(2) by auto
    ultimately show thesis using that [of fs] 1 assms(2) \<open>b \<noteq> []\<close> by simp
  next
    case 2
    then have b: "b \<noteq> []" by auto
    have "fs_wf (fs_del b fs)"
      by (rule fs_wf_del [OF assms(2) b]) (use fs_no_child [OF assms(2) 2(3)] in simp)
    then show thesis using that [of "fs_del b fs"] 2 b by simp
  qed
  have free: "fs_at fs1 (b @ q) = None" for q
    using fs_no_child [OF assms(2) fs1(3), of q] fs1(6) by (cases "q = []") auto
  have "fs_at fs' x = ((fs_at fs)(a := None, b \<mapsto> Reg s)) x" for x
  proof -
    have at: "fs_at fs' x = (if prefix b x then fs_at fs1 (a @ drop (length b) x)
        else if prefix a x then None else fs_at fs1 x)"
      unfolding fs1(4) by (rule fs_at_move(1) [OF fs1(5) free fs1(1,2)])
    have below_a: "r \<noteq> [] \<Longrightarrow> fs_at fs (a @ r) = None" for r
      using fs_no_child [OF assms(2), of a r] assms(6) by simp
    consider "x = b" | "x = a" | r where "x = b @ r" "r \<noteq> []" | r where "x = a @ r" "r \<noteq> []"
      | "\<not> prefix b x" "\<not> prefix a x" by (metis append_Nil2 prefix_def)
    then show ?thesis
    proof cases
      case 1
      with at fs1(6) assms(5,6) show ?thesis by simp
    next
      case 2
      with at fs1(2) assms(5) show ?thesis by simp
    next
      case (3 r)
      have "fs_at fs (b @ r) = None" using fs_no_child [OF assms(2) fs1(3) 3(2)] .
      moreover have "a @ r \<noteq> b" using fs1(1) by auto
      moreover have "b @ r \<noteq> a" using fs1(2) by auto
      ultimately show ?thesis using at 3 fs1(6) below_a [OF 3(2)] by simp
    next
      case (4 r)
      have "\<not> prefix b (a @ r)" if "b \<noteq> a @ r"
        using fs1(1,2) that by (auto simp: prefix_append)
      moreover have "b \<noteq> a @ r" using fs1(1) by auto
      ultimately show ?thesis using at 4 below_a [OF 4(2)] by auto
    next
      case 5
      then have "x \<noteq> a" "x \<noteq> b" by auto
      with at 5 fs1(6) show ?thesis by simp
    qed
  qed
  then show ?thesis by auto
qed

section \<open>Plain paths\<close>

text \<open>A path without \<open>..\<close> and the place it names.\<close>

definition plain :: "string \<Rightarrow> path \<Rightarrow> bool" where
  "plain s q \<longleftrightarrow> s \<noteq> [] \<and> cstr s \<and> path_parts s = q \<and> ''..'' \<notin> set q"

lemma plain_locate:
  assumes "plain s q" "fs_wf fs" "locate fs s = Inr x"
  shows "x = q" "q = [] \<or> is_dir fs (butlast q)"
proof -
  show x: "x = q" using assms(1,3) locate_plain_Inr by (auto simp: plain_def)
  show "q = [] \<or> is_dir fs (butlast q)"
  proof (cases "q = []")
    case False
    then obtain ys n where q: "q = ys @ [n]" by (cases q rule: rev_cases) auto
    have "walk fs [] (ys @ [n]) = Inr q" using assms x q by (simp add: locate_def plain_def)
    then obtain z where z: "walk fs [] ys = Inr z" "walk fs z [n] = Inr q"
      by (auto simp: walk_append split: sum.splits)
    then have "z = ys" using walk_plain [of ys fs "[]" z] assms(1) q by (auto simp: plain_def)
    with z(2) walk_prefix_dir [of fs z "[n]" q] q show ?thesis by simp
  qed simp
qed

lemma plain_locate_dir:
  "plain s q \<Longrightarrow> fs_wf fs \<Longrightarrow> q = [] \<or> is_dir fs (butlast q) \<Longrightarrow> locate fs s = Inr q"
  unfolding plain_def by (blast intro: locate_plain)

lemma plain_locate_at:
  assumes "plain s q" "fs_wf fs" "fs_at fs q \<noteq> None"
  shows "locate fs s = Inr q"
proof (cases "q = []")
  case False
  then have "fs_at fs (butlast q @ [last q]) \<noteq> None" using assms(3) by simp
  with assms False show ?thesis
    by (metis fs_wf_at plain_locate_dir)
qed (use assms plain_locate_dir in blast)

lemma plain_sub:
  "plain s q \<Longrightarrow> name_ok n \<Longrightarrow> plain (s @ CHR ''/'' # n) (q @ [n])"
  by (auto simp: plain_def name_ok_def path_parts_single)

end
