(* ===== verification/Skill_Names.thy ===== *)
theory Skill_Names
  imports Skill_Prelude
begin

text \<open>
  The limits of \<open>skill.h\<close> and the checks on names: which skill names, support paths
  (\<open>skill.c\<close>) and snapshot ids (\<open>skill_rollback.c\<close>) are accepted, and the skill name the
  autostub pass derives from a tool name.
\<close>

section \<open>Limits\<close>

definition SKILL_MAX_SIZE :: nat where "SKILL_MAX_SIZE = 100 * 1024"
definition SKILL_MAX_SKILLS :: nat where "SKILL_MAX_SKILLS = 64"
definition SKILL_NAME_MAX :: nat where "SKILL_NAME_MAX = 64"
definition SKILL_PATH_MAX :: nat where "SKILL_PATH_MAX = 512"
definition SKILL_SUPPORT_MAX_SIZE :: nat where "SKILL_SUPPORT_MAX_SIZE = 1024 * 1024"
definition SKILL_LINT_MAX_WORDS :: nat where "SKILL_LINT_MAX_WORDS = 1200"
definition SKILL_EVAL_MAX_CASES :: nat where "SKILL_EVAL_MAX_CASES = 32"

lemmas skill_limits =
  SKILL_MAX_SIZE_def SKILL_MAX_SKILLS_def SKILL_NAME_MAX_def SKILL_PATH_MAX_def
  SKILL_SUPPORT_MAX_SIZE_def SKILL_LINT_MAX_WORDS_def SKILL_EVAL_MAX_CASES_def

section \<open>Names\<close>

definition skill_name_is_valid :: "string option \<Rightarrow> bool" where
  "skill_name_is_valid name =
     (case name of
        None \<Rightarrow> False
      | Some n \<Rightarrow>
          if c_at n 0 = nul \<or> length n \<ge> SKILL_NAME_MAX then False
          else if \<not> c_isalnum (c_at n 0) then False
          else list_all (\<lambda>c. c_islower c \<or> c_isdigit c \<or> c = CHR ''.'' \<or> c = CHR ''_'' \<or> c = CHR ''-'') n)"

definition skill_name_is_session_artifact :: "string option \<Rightarrow> bool" where
  "skill_name_is_session_artifact name =
     (case name of
        None \<Rightarrow> False
      | Some n \<Rightarrow>
          if c_at n 0 = nul then False
          else if (starts_with ''fix-pr-'' n \<or> starts_with ''pr-'' n \<or> starts_with ''issue-'' n
                   \<or> starts_with ''bug-'' n)
                  \<and> (case c_strrchr n (CHR ''-'') of
                       None \<Rightarrow> False | Some i \<Rightarrow> c_isdigit (c_at n (i + 1)))
          then True
          else c_strstr n ''-today'' \<noteq> None \<or> c_strstr n ''today-'' \<noteq> None
               \<or> c_strstr n ''-wip'' \<noteq> None \<or> c_strstr n ''wip-'' \<noteq> None)"

definition skill_support_path_ok :: "string option \<Rightarrow> bool" where
  "skill_support_path_ok file_path =
     (case file_path of
        None \<Rightarrow> False
      | Some p \<Rightarrow>
          if c_at p 0 = nul \<or> c_at p 0 = CHR ''/'' \<or> c_strstr p ''..'' \<noteq> None then False
          else list_ex (\<lambda>dir. starts_with dir p \<and> length p > length dir)
                 [''references/'', ''templates/'', ''scripts/'', ''assets/''])"

definition snapshot_id_ok :: "string option \<Rightarrow> bool" where
  "snapshot_id_ok snapshot_id =
     (case snapshot_id of
        None \<Rightarrow> False
      | Some s \<Rightarrow>
          if c_at s 0 = nul \<or> length s > 128 \<or> s = ''.'' \<or> s = ''..'' \<or> c_strstr s ''..'' \<noteq> None
          then False
          else list_all (\<lambda>c. c_isalnum c \<or> c = CHR ''-'' \<or> c = CHR ''_'' \<or> c = CHR ''.'') s)"

section \<open>The slug of a tool name\<close>

text \<open>
  The loop of \<open>skill_capability_slug\<close>: \<open>out\<close> is what the buffer holds so far; the loop
  stops when the name ends or the buffer is full.
\<close>

fun slug_loop :: "nat \<Rightarrow> string \<Rightarrow> string \<Rightarrow> string" where
  "slug_loop out_len [] out = out"
| "slug_loop out_len (ch # p) out =
     (if length out + 1 < out_len then
        slug_loop out_len p
          (if c_islower ch \<or> c_isdigit ch then out @ [ch]
           else if c_isupper ch then out @ [c_tolower ch]
           else if ch = CHR ''_'' \<or> ch = CHR ''-'' \<or> ch = CHR ''.'' then out @ ''-''
           else if out \<noteq> [] \<and> last out \<noteq> CHR ''-'' then out @ ''-'' else out)
      else out)"

definition skill_capability_slug :: "string option \<Rightarrow> nat \<Rightarrow> string" where
  "skill_capability_slug tool_name out_len =
     (case tool_name of
        None \<Rightarrow> []
      | Some t \<Rightarrow>
          if out_len = 0 \<or> c_at t 0 = nul then []
          else
            strip_right (\<lambda>c. c = CHR ''-'')
              (slug_loop out_len t (if \<not> c_isalnum (c_at t 0) then c_buf out_len ''tool-'' else [])))"

section \<open>What the checks promise\<close>

text \<open>An accepted skill name is one path component that stays where it is put.\<close>

lemma skill_name_is_valid_iff:
  "skill_name_is_valid (Some n)
   \<longleftrightarrow> n \<noteq> [] \<and> length n < 64 \<and> (c_islower (hd n) \<or> c_isdigit (hd n))
     \<and> (\<forall>c \<in> set n. c_islower c \<or> c_isdigit c \<or> c \<in> {CHR ''.'', CHR ''_'', CHR ''-''})"
  (is "?l \<longleftrightarrow> ?r")
proof (cases n)
  case Nil
  then show ?thesis by (simp add: skill_name_is_valid_def c_at_def)
next
  case (Cons c s)
  have "c = nul \<Longrightarrow> \<not> c_isalnum c"
    by (simp add: c_chars ord_def)
  moreover have "c_isalnum c \<Longrightarrow> c \<noteq> CHR ''.'' \<and> c \<noteq> CHR ''_'' \<and> c \<noteq> CHR ''-''"
    by (auto simp: c_chars ord_def)
  moreover have "c_islower c \<or> c_isdigit c \<Longrightarrow> c_isalnum c"
    by (auto simp: c_isalnum_def)
  ultimately show ?thesis using Cons
    by (auto simp: skill_name_is_valid_def c_at_def skill_limits list_all_iff)
qed

lemma skill_name_valid_chars:
  assumes "skill_name_is_valid (Some n)"
  shows "n \<noteq> []" "length n < 64" "CHR ''/'' \<notin> set n" "nul \<notin> set n" "n \<noteq> ''.''" "n \<noteq> ''..''"
    "hd n \<noteq> CHR ''.''"
  using assms by (auto simp: skill_name_is_valid_iff c_chars ord_def)

lemma skill_name_valid_cstr: "skill_name_is_valid (Some n) \<Longrightarrow> cstr n"
  using skill_name_valid_chars(4) by (simp add: cstr_def)

lemma skill_name_valid_parts:
  "skill_name_is_valid (Some n) \<Longrightarrow> path_parts n = [n]"
  using skill_name_valid_chars by (intro path_parts_single) auto

lemma starts_with_length: "starts_with p s \<Longrightarrow> length p \<le> length s"
  by (auto simp: starts_with_prefix dest: prefix_length_le)

text \<open>A support path stays in the directory it starts with.\<close>

lemma skill_support_path_cases:
  assumes "skill_support_path_ok (Some p)"
  obtains d r where "d \<in> {''references'', ''templates'', ''scripts'', ''assets''}"
    "p = d @ CHR ''/'' # r" "r \<noteq> []" "\<not> sublist ''..'' p" "hd p \<noteq> CHR ''/''"
proof -
  let ?ds = "[''references/'', ''templates/'', ''scripts/'', ''assets/'']"
  from assms have g: "c_at p 0 \<noteq> nul" "c_at p 0 \<noteq> CHR ''/''" "c_strstr p ''..'' = None"
    and "list_ex (\<lambda>dir. starts_with dir p \<and> length p > length dir) ?ds"
    unfolding skill_support_path_ok_def option.case by (metis (no_types, lifting))+
  then obtain q where q: "q \<in> set ?ds" "starts_with q p" "length q < length p"
    unfolding list_ex_iff by blast
  from g have dd: "c_strstr p ''..'' = None" and ne: "p \<noteq> []" and ab: "hd p \<noteq> CHR ''/''"
    by (auto simp: c_at_def hd_conv_nth split: if_splits)
  from q(2) obtain r where r: "p = q @ r" by (auto simp: starts_with_prefix prefix_def)
  from q(1) have "q = butlast q @ ''/''" "butlast q \<in> {''references'', ''templates'', ''scripts'', ''assets''}"
    by auto
  moreover have "r \<noteq> []" using q(3) r by auto
  moreover have "\<not> sublist ''..'' p" using dd c_strstr_sublist by blast
  ultimately show thesis using r ab that [of "butlast q" r] by (metis append.assoc append_Cons append_Nil)
qed

lemma skill_support_path_parts:
  assumes "skill_support_path_ok (Some p)"
  shows "\<exists>d rest. path_parts p = d # rest \<and> d \<in> {''references'', ''templates'', ''scripts'', ''assets''}
           \<and> ''..'' \<notin> set rest"
  using assms
proof (cases rule: skill_support_path_cases)
  case (1 d r)
  have "path_parts p = path_parts d @ path_parts r" using 1(2) by simp
  moreover have "path_parts d = [d]" using 1(1) by (auto simp: path_parts_def)
  moreover have "''..'' \<notin> set (path_parts r)"
    using 1(2,4) path_parts_infix [of "''..''" r]
    by (auto simp: sublist_append sublist_Cons_right)
  ultimately show ?thesis using 1(1) by auto
qed

text \<open>A snapshot id is one path component, not a hidden way up.\<close>

lemma snapshot_id_ok_iff:
  "snapshot_id_ok (Some s)
   \<longleftrightarrow> s \<noteq> [] \<and> length s \<le> 128 \<and> s \<noteq> ''.'' \<and> \<not> sublist ''..'' s
     \<and> (\<forall>c \<in> set s. c_isalnum c \<or> c \<in> {CHR ''-'', CHR ''_'', CHR ''.''})"
proof -
  have "\<not> c_isalnum nul" by (simp add: c_chars ord_def)
  then have nz: "\<forall>c \<in> set s. c_isalnum c \<or> c \<in> {CHR ''-'', CHR ''_'', CHR ''.''} \<Longrightarrow> s \<noteq> [] \<Longrightarrow> s ! 0 \<noteq> nul"
    by (cases s) auto
  have "\<not> sublist ''..'' s \<Longrightarrow> s \<noteq> ''..''" by auto
  then show ?thesis using nz c_strstr_sublist [of s "''..''"]
    by (auto simp: snapshot_id_ok_def c_at_def list_all_iff)
qed

lemma snapshot_id_parts:
  assumes "snapshot_id_ok (Some s)"
  shows "path_parts s = [s]" "s \<noteq> ''..''" "CHR ''/'' \<notin> set s" "length s \<le> 128" "s \<noteq> []" "s \<noteq> ''.''"
proof -
  have "\<not> c_isalnum (CHR ''/'')" by (simp add: c_chars ord_def)
  with assms show "CHR ''/'' \<notin> set s" by (auto simp: snapshot_id_ok_iff)
  with assms show "path_parts s = [s]" by (auto simp: snapshot_id_ok_iff intro: path_parts_single)
  show "s \<noteq> ''..''" "length s \<le> 128" "s \<noteq> []" "s \<noteq> ''.''" using assms by (auto simp: snapshot_id_ok_iff)
qed

section \<open>Slugs are skill names\<close>

definition slug_char :: "char \<Rightarrow> bool" where
  "slug_char c \<longleftrightarrow> c_islower c \<or> c_isdigit c \<or> c = CHR ''-''"

definition slug_text :: "string \<Rightarrow> bool" where
  "slug_text s \<longleftrightarrow> s \<noteq> [] \<and> list_all slug_char s \<and> hd s \<noteq> CHR ''-''"

lemma c_tolower_upper: "c_isupper c \<Longrightarrow> c_islower (c_tolower c)"
  by (simp add: c_tolower_def c_chars)

text \<open>What one round of the loop appends, and what the loop keeps true of the buffer.\<close>

lemma slug_loop_keeps:
  "slug_text out \<Longrightarrow> length out < n \<Longrightarrow> slug_text (slug_loop n p out) \<and> length (slug_loop n p out) < n"
proof (induction n p out rule: slug_loop.induct)
  case (2 n ch p out)
  let ?next = "if c_islower ch \<or> c_isdigit ch then out @ [ch]
           else if c_isupper ch then out @ [c_tolower ch]
           else if ch = CHR ''_'' \<or> ch = CHR ''-'' \<or> ch = CHR ''.'' then out @ ''-''
           else if out \<noteq> [] \<and> last out \<noteq> CHR ''-'' then out @ ''-'' else out"
  show ?case
  proof (cases "length out + 1 < n")
    case True
    have "slug_text ?next"
      using "2.prems"(1) by (auto simp: slug_text_def slug_char_def c_tolower_upper)
    moreover have "length ?next < n" using True by simp
    ultimately have "slug_text (slug_loop n p ?next) \<and> length (slug_loop n p ?next) < n"
      by (rule "2.IH" [OF True])
    then show ?thesis using True by simp
  next
    case False
    with "2.prems" show ?thesis by simp
  qed
qed simp

lemma slug_text_strip:
  assumes "slug_text s"
  shows "slug_text (strip_right (\<lambda>c. c = CHR ''-'') s)"
proof -
  let ?t = "strip_right (\<lambda>c. c = CHR ''-'') s"
  from strip_right_split obtain w where w: "s = ?t @ w" "list_all (\<lambda>c. c = CHR ''-'') w" by blast
  have "?t \<noteq> []"
  proof
    assume "?t = []"
    with w have "list_all (\<lambda>c. c = CHR ''-'') s" by simp
    with assms show False by (cases s) (auto simp: slug_text_def)
  qed
  with assms w(1) show ?thesis by (metis list_all_append slug_text_def hd_append)
qed

lemma slug_text_valid: "slug_text s \<Longrightarrow> length s < 64 \<Longrightarrow> skill_name_is_valid (Some s)"
  by (cases s) (auto simp: skill_name_is_valid_iff slug_text_def slug_char_def list_all_iff)

lemma slug_start:
  assumes "t \<noteq> []" "cstr t"
  obtains p out where "slug_text out" "length out < 64"
    "slug_loop 64 t (if \<not> c_isalnum (c_at t 0) then c_buf 64 ''tool-'' else []) = slug_loop 64 p out"
proof (cases "c_isalnum (c_at t 0)")
  case True
  from assms(1) obtain c p where t: "t = c # p" by (cases t) auto
  with True have c: "c_islower c \<or> c_isdigit c \<or> c_isupper c"
    by (auto simp: c_at_def c_isalnum_def)
  let ?o = "if c_islower c \<or> c_isdigit c then [c] else [c_tolower c]"
  have nd: "c_islower x \<or> c_isdigit x \<Longrightarrow> x \<noteq> CHR ''-''" for x by (auto simp: c_chars ord_def)
  have "slug_text ?o"
    using c nd c_tolower_upper by (auto simp: slug_text_def slug_char_def)
  moreover have "slug_loop 64 t [] = slug_loop 64 p ?o" using t c by auto
  ultimately show thesis using that [of ?o p] True by simp
next
  case False
  have "slug_text ''tool-''" by (simp add: slug_text_def slug_char_def c_chars ord_def)
  then show thesis using that [of "''tool-''" t] False by simp
qed

lemma skill_capability_slug_text:
  assumes "t \<noteq> []" "cstr t"
  shows "slug_text (skill_capability_slug (Some t) 64)"
    and "length (skill_capability_slug (Some t) 64) < 64"
    and "last (skill_capability_slug (Some t) 64) \<noteq> CHR ''-''"
proof -
  from slug_start [OF assms] obtain p out where
    po: "slug_text out" "length out < 64"
      "slug_loop 64 t (if \<not> c_isalnum (c_at t 0) then c_buf 64 ''tool-'' else []) = slug_loop 64 p out"
    by blast
  let ?s = "slug_loop 64 p out"
  have "c_at t 0 \<noteq> nul" using assms by (cases t) (auto simp: c_at_def)
  then have eq: "skill_capability_slug (Some t) 64 = strip_right (\<lambda>c. c = CHR ''-'') ?s"
    using po(3) by (simp add: skill_capability_slug_def)
  have s: "slug_text ?s" "length ?s < 64" using slug_loop_keeps [OF po(1,2)] by auto
  show one: "slug_text (skill_capability_slug (Some t) 64)"
    unfolding eq by (rule slug_text_strip [OF s(1)])
  show "length (skill_capability_slug (Some t) 64) < 64"
    unfolding eq using s(2) prefix_length_le [OF prefix_strip_right] le_less_trans by blast
  show "last (skill_capability_slug (Some t) 64) \<noteq> CHR ''-''"
    using one last_strip_right [of "\<lambda>c. c = CHR ''-''"] unfolding eq slug_text_def by auto
qed

text \<open>A slug is its own slug.\<close>

lemma slug_loop_copies:
  "list_all slug_char p \<Longrightarrow> length out + length p < n \<Longrightarrow> slug_loop n p out = out @ p"
  by (induction p arbitrary: out) (auto simp: slug_char_def c_chars ord_def)

lemma slug_of_slug:
  assumes "slug_text s" "length s < 64" "last s \<noteq> CHR ''-''"
  shows "skill_capability_slug (Some s) 64 = s"
proof -
  from assms(1) obtain c r where s: "s = c # r" "c_islower c \<or> c_isdigit c"
    by (cases s) (auto simp: slug_text_def slug_char_def)
  have an: "c_isalnum (c_at s 0)" using s by (auto simp: c_at_def c_isalnum_def)
  then have nz: "c_at s 0 \<noteq> nul" by (auto simp: c_chars ord_def)
  have copy: "slug_loop 64 s [] = s"
    using assms by (subst slug_loop_copies) (auto simp: slug_text_def)
  have "strip_right (\<lambda>c. c = CHR ''-'') s = s"
    using assms(3) s(1) strip_right_snoc [of "\<lambda>c. c = CHR ''-''" "butlast s" "last s"]
    by (metis append_butlast_last_id list.distinct(1))
  with copy show ?thesis using an nz by (simp add: skill_capability_slug_def del: slug_loop.simps)
qed

end
