(* ===== verification/Skill_Lint.thy ===== *)
theory Skill_Lint
  imports Skill_Names
begin

text \<open>
  The linter of \<open>skill.c\<close>: \<open>skill_lint_content\<close> and the scans it is made of.
\<close>

section \<open>Linting\<close>

text \<open>
  The report and the issue count; \<open>cap\<close> is the size of the report buffer, 0 when there is
  none. The message is cut to the room left, and a newline follows it if one fits.
\<close>

type_synonym lint_state = "string \<times> nat"

definition skill_lint_issue :: "nat \<Rightarrow> string \<Rightarrow> lint_state \<Rightarrow> lint_state" where
  "skill_lint_issue cap msg st =
     (let (report, issues) = st in
      if cap = 0 then (report, issues + 1)
      else if length report \<ge> cap - 1 then (report, issues + 1)
      else let r = report @ c_buf (cap - length report) msg in
        ((if length r < cap - 1 then r @ c_buf (cap - length r) [nl] else r), issues + 1))"

text \<open>
  The value of the first \<open>key:\<close> line of a header: trimmed, without a pair of quotes around
  it, cut to the buffer.
\<close>

definition unquote :: "string \<Rightarrow> string" where
  "unquote v =
     (if length v > 1 \<and> ((hd v = CHR 0x22 \<and> last v = CHR 0x22) \<or> (hd v = CHR 0x27 \<and> last v = CHR 0x27))
      then butlast (tl v) else v)"

fun lint_line_scan :: "string \<Rightarrow> string list \<Rightarrow> string option" where
  "lint_line_scan key [] = None"
| "lint_line_scan key (line # ls) =
     (if length line \<ge> length key + 1 \<and> starts_with key line \<and> line ! length key = CHR '':''
      then Some (unquote (strip_right c_isspace (dropWhile c_isspace (drop (length key + 1) line))))
      else lint_line_scan key ls)"

definition skill_lint_line_value :: "string \<Rightarrow> string \<Rightarrow> nat \<Rightarrow> bool \<times> string" where
  "skill_lint_line_value header key out_len =
     (case lint_line_scan key (lines_of header) of
        None \<Rightarrow> (False, [])
      | Some v \<Rightarrow> (True, c_buf out_len v))"

fun skill_lint_has_at_link :: "string \<Rightarrow> bool" where
  "skill_lint_has_at_link [] = False"
| "skill_lint_has_at_link (c # s) =
     (if c = CHR ''@''
         \<and> (let d = c_at s 0 in c_isalnum d \<or> d = CHR ''.'' \<or> d = CHR ''/'' \<or> d = CHR ''_'' \<or> d = CHR ''-'')
      then True else skill_lint_has_at_link s)"

fun lint_words :: "string \<Rightarrow> bool \<Rightarrow> nat \<Rightarrow> nat" where
  "lint_words [] in_word n = n"
| "lint_words (c # s) in_word n =
     (if c_isspace c then lint_words s False n
      else if \<not> in_word then lint_words s True (n + 1)
      else lint_words s in_word n)"

definition skill_lint_word_count :: "string \<Rightarrow> nat" where
  "skill_lint_word_count s = lint_words s False 0"

definition skill_lint_description_is_trigger :: "string \<Rightarrow> bool" where
  "skill_lint_description_is_trigger description \<longleftrightarrow>
     starts_with ''Use when '' description \<or> starts_with ''Use before '' description"

definition injection_patterns :: "string list" where
  "injection_patterns =
     [''ignore previous instructions'', ''ignore all previous'', ''disregard all previous'',
      ''you are now'', ''your new instructions'', ''forget all instructions'', ''override your'',
      ''system: '', ''[system]'', ''<system>'']"

text \<open>Every pattern is tried at every character before the terminator.\<close>

fun nocase_occurs :: "string \<Rightarrow> string \<Rightarrow> bool" where
  "nocase_occurs pat [] = False"
| "nocase_occurs pat (c # s) = (if starts_with_nocase pat (c # s) then True else nocase_occurs pat s)"

definition skill_lint_has_injection_pattern :: "string \<Rightarrow> bool" where
  "skill_lint_has_injection_pattern body = list_ex (\<lambda>pat. nocase_occurs pat body) injection_patterns"

text \<open>The checks of the frontmatter and where the body starts.\<close>

definition lint_frontmatter ::
  "nat \<Rightarrow> string option \<Rightarrow> string \<Rightarrow> string \<Rightarrow> lint_state \<Rightarrow> lint_state" where
  "lint_frontmatter cap name label header st =
     (let fm_name = snd (skill_lint_line_value header ''name'' SKILL_NAME_MAX);
          description = snd (skill_lint_line_value header ''description'' 512);
          st1 = (if fm_name = [] then skill_lint_issue cap (label @ '': frontmatter missing name'') st
                 else case name of
                   None \<Rightarrow> st
                 | Some n \<Rightarrow>
                     if n \<noteq> fm_name
                     then skill_lint_issue cap (n @ '': frontmatter name is '' @ fm_name) st else st) in
      if description = []
      then skill_lint_issue cap (label @ '': frontmatter missing description'') st1
      else if \<not> skill_lint_description_is_trigger description
      then skill_lint_issue cap
             (label @ '': description must start with '' @ [CHR 0x27] @ ''Use when'' @ [CHR 0x27] @ '' or ''
              @ [CHR 0x27] @ ''Use before'' @ [CHR 0x27]) st1
      else st1)"

definition lint_body_of :: "string \<Rightarrow> nat \<Rightarrow> string" where
  "lint_body_of content header_end =
     (let rest = drop (header_end + 1) content in
      case c_strchr rest nl of None \<Rightarrow> [] | Some i \<Rightarrow> drop (i + 1) rest)"

definition lint_body_checks :: "nat \<Rightarrow> string \<Rightarrow> string \<Rightarrow> lint_state \<Rightarrow> lint_state" where
  "lint_body_checks cap label body st =
     (let st1 = (if skill_lint_has_at_link body
                 then skill_lint_issue cap (label @ '': body must not use @file links'') st else st);
          st2 = (if skill_lint_has_injection_pattern body
                 then skill_lint_issue cap
                        (label @ '': body contains a known prompt-injection pattern'') st1 else st1);
          words = skill_lint_word_count body in
      if words > SKILL_LINT_MAX_WORDS
      then skill_lint_issue cap
             (label @ '': body exceeds '' @ show_nat SKILL_LINT_MAX_WORDS @ '' word budget (''
              @ show_nat words @ '')'') st2
      else st2)"

definition lint_name_checks :: "nat \<Rightarrow> string option \<Rightarrow> string \<Rightarrow> lint_state" where
  "lint_name_checks cap name label =
     (if \<not> skill_name_is_valid name
      then skill_lint_issue cap (label @ '': malformed skill name'') ([], 0)
      else if skill_name_is_session_artifact name
      then skill_lint_issue cap
             (label @ '': skill name must be class-level, not a session artifact'') ([], 0)
      else ([], 0))"

definition skill_lint_content :: "string option \<Rightarrow> string option \<Rightarrow> nat \<Rightarrow> lint_state" where
  "skill_lint_content name content cap =
     (let label = (case name of None \<Rightarrow> [] | Some n \<Rightarrow> n);
          st = lint_name_checks cap name label in
      case content of
        None \<Rightarrow> skill_lint_issue cap (label @ '': empty skill body'') st
      | Some c \<Rightarrow>
          if c_at c 0 = nul then skill_lint_issue cap (label @ '': empty skill body'') st
          else if \<not> fm_opens c
          then lint_body_checks cap label c (skill_lint_issue cap (label @ '': missing frontmatter'') st)
          else
            (case fm_header c of
               None \<Rightarrow>
                 lint_body_checks cap label c
                   (skill_lint_issue cap (label @ '': unterminated frontmatter'') st)
             | Some (start, header_len) \<Rightarrow>
                 lint_body_checks cap label (lint_body_of c (start + header_len))
                   (lint_frontmatter cap name label (take header_len (drop start c)) st)))"

section \<open>The report is the list of messages, cut to the buffer\<close>

definition lint_result :: "nat \<Rightarrow> string list \<Rightarrow> lint_state" where
  "lint_result cap ms = (take (cap - 1) (concat (map (\<lambda>m. m @ [nl]) ms)), length ms)"

definition lint_name_messages :: "string option \<Rightarrow> string \<Rightarrow> string list" where
  "lint_name_messages name label =
     (if \<not> skill_name_is_valid name then [label @ '': malformed skill name'']
      else if skill_name_is_session_artifact name
      then [label @ '': skill name must be class-level, not a session artifact''] else [])"

definition lint_header_messages :: "string option \<Rightarrow> string \<Rightarrow> string \<Rightarrow> string list" where
  "lint_header_messages name label header =
     (let fm_name = snd (skill_lint_line_value header ''name'' SKILL_NAME_MAX);
          description = snd (skill_lint_line_value header ''description'' 512) in
      (if fm_name = [] then [label @ '': frontmatter missing name'']
       else if name \<noteq> None \<and> the name \<noteq> fm_name
       then [the name @ '': frontmatter name is '' @ fm_name] else [])
      @ (if description = [] then [label @ '': frontmatter missing description'']
         else if \<not> skill_lint_description_is_trigger description
         then [label @ '': description must start with '' @ [CHR 0x27] @ ''Use when'' @ [CHR 0x27]
               @ '' or '' @ [CHR 0x27] @ ''Use before'' @ [CHR 0x27]] else []))"

definition lint_body_messages :: "string \<Rightarrow> string \<Rightarrow> string list" where
  "lint_body_messages label body =
     (if skill_lint_has_at_link body then [label @ '': body must not use @file links''] else [])
     @ (if skill_lint_has_injection_pattern body
        then [label @ '': body contains a known prompt-injection pattern''] else [])
     @ (if skill_lint_word_count body > SKILL_LINT_MAX_WORDS
        then [label @ '': body exceeds '' @ show_nat SKILL_LINT_MAX_WORDS @ '' word budget (''
              @ show_nat (skill_lint_word_count body) @ '')''] else [])"

definition lint_messages :: "string option \<Rightarrow> string option \<Rightarrow> string list" where
  "lint_messages name content =
     (let label = (case name of None \<Rightarrow> [] | Some n \<Rightarrow> n) in
      lint_name_messages name label
      @ (case content of
           None \<Rightarrow> [label @ '': empty skill body'']
         | Some c \<Rightarrow>
             if c_at c 0 = nul then [label @ '': empty skill body'']
             else if \<not> fm_opens c
             then (label @ '': missing frontmatter'') # lint_body_messages label c
             else (case fm_header c of
                     None \<Rightarrow> (label @ '': unterminated frontmatter'') # lint_body_messages label c
                   | Some (start, k) \<Rightarrow>
                       lint_header_messages name label (take k (drop start c))
                       @ lint_body_messages label (lint_body_of c (start + k)))))"

lemma skill_lint_issue_result:
  "skill_lint_issue cap m (lint_result cap ms) = lint_result cap (ms @ [m])"
proof -
  let ?c = "concat (map (\<lambda>m. m @ [nl]) ms)"
  consider "cap - 1 \<le> length ?c" | "length ?c < cap - 1" "cap - 1 \<le> length ?c + length m"
    | "length ?c + length m < cap - 1" by linarith
  then show ?thesis
  proof cases
    case 1
    then show ?thesis by (simp add: skill_lint_issue_def lint_result_def)
  next
    case 2
    then show ?thesis
      by (simp add: skill_lint_issue_def lint_result_def c_buf_def Let_def min_def
          diff_right_commute)
  next
    case 3
    then have "c_buf (cap - length ?c) m = m" "c_buf (cap - (length ?c + length m)) [nl] = [nl]"
      by (auto simp: c_buf_def)
    with 3 show ?thesis
      by (simp add: skill_lint_issue_def lint_result_def Let_def)
  qed
qed

lemma lint_frontmatter_result:
  "lint_frontmatter cap name label header (lint_result cap ms)
   = lint_result cap (ms @ lint_header_messages name label header)"
  by (cases name)
    (simp_all add: lint_frontmatter_def lint_header_messages_def Let_def skill_lint_issue_result)

lemma lint_body_checks_result:
  "lint_body_checks cap label body (lint_result cap ms)
   = lint_result cap (ms @ lint_body_messages label body)"
  by (simp add: lint_body_checks_def lint_body_messages_def Let_def skill_lint_issue_result)

lemma lint_name_checks_result:
  "lint_name_checks cap name label = lint_result cap (lint_name_messages name label)"
proof -
  have "lint_result cap [] = ([], 0)" by (simp add: lint_result_def)
  then show ?thesis
    using skill_lint_issue_result [of cap _ "[]"]
    by (simp add: lint_name_checks_def lint_name_messages_def)
qed

lemma skill_lint_content_result:
  "skill_lint_content name content cap = lint_result cap (lint_messages name content)"
  by (cases name; cases content)
    (auto simp: skill_lint_content_def lint_messages_def Let_def lint_name_checks_result
      skill_lint_issue_result lint_body_checks_result lint_frontmatter_result split: option.splits)

section \<open>The scans against what they look for\<close>

text \<open>Words: maximal runs of characters that are not white space.\<close>

function text_words :: "string \<Rightarrow> string list" where
  "text_words s =
     (let p = dropWhile c_isspace s in
      if p = [] then []
      else takeWhile (\<lambda>c. \<not> c_isspace c) p # text_words (dropWhile (\<lambda>c. \<not> c_isspace c) p))"
  by pat_completeness auto
termination
proof (relation "measure length")
  fix s p assume p: "p = dropWhile c_isspace s" "p \<noteq> []"
  then have "\<not> c_isspace (hd p)" using hd_dropWhile by blast
  with p(2) have "length (dropWhile (\<lambda>c. \<not> c_isspace c) p) < length p"
    by (cases p) (simp_all add: le_imp_less_Suc length_dropWhile_le)
  then show "(dropWhile (\<lambda>c. \<not> c_isspace c) p, s) \<in> measure length"
    using length_dropWhile_le [of c_isspace s] p(1) by simp
qed simp

declare text_words.simps [simp del]

lemma text_words_Nil [simp]: "text_words [] = []"
  by (simp add: text_words.simps)

lemma text_words_space: "c_isspace c \<Longrightarrow> text_words (c # s) = text_words s"
  by (subst (1 2) text_words.simps) simp

lemma text_words_word:
  "\<not> c_isspace c \<Longrightarrow> length (text_words (c # s)) = Suc (length (text_words (dropWhile (\<lambda>c. \<not> c_isspace c) s)))"
  by (subst text_words.simps) simp

lemma lint_words_count:
  "lint_words s w n = n + length (text_words (if w then dropWhile (\<lambda>c. \<not> c_isspace c) s else s))"
  by (induction s w n rule: lint_words.induct)
    (auto simp: text_words_space text_words_word)

lemma skill_lint_word_count_words: "skill_lint_word_count s = length (text_words s)"
  by (simp add: skill_lint_word_count_def lint_words_count)

text \<open>Patterns: whether one occurs with letter case ignored.\<close>

lemma nocase_occurs_sublist:
  "pat \<noteq> [] \<Longrightarrow> nocase_occurs pat s \<longleftrightarrow> sublist (map c_tolower pat) (map c_tolower s)"
  by (induction pat s rule: nocase_occurs.induct)
    (auto simp: starts_with_nocase_prefix sublist_Cons_right)

lemma skill_lint_has_injection_pattern_iff:
  "skill_lint_has_injection_pattern body
   \<longleftrightarrow> (\<exists>pat \<in> set injection_patterns. sublist (map c_tolower pat) (map c_tolower body))"
  unfolding skill_lint_has_injection_pattern_def list_ex_iff
  by (rule bex_cong [OF refl], rule nocase_occurs_sublist) (auto simp: injection_patterns_def)

lemma skill_lint_has_at_link_iff:
  "skill_lint_has_at_link s
   \<longleftrightarrow> (\<exists>a d r. s = a @ CHR ''@'' # d # r
         \<and> (c_isalnum d \<or> d \<in> {CHR ''.'', CHR ''/'', CHR ''_'', CHR ''-''}))"
proof (induction s)
  case (Cons c s)
  have ex: "(\<exists>a d r. c # s = a @ CHR ''@'' # d # r \<and> P d)
    \<longleftrightarrow> c = CHR ''@'' \<and> (\<exists>d r. s = d # r \<and> P d) \<or> (\<exists>a d r. s = a @ CHR ''@'' # d # r \<and> P d)"
    (is "?l \<longleftrightarrow> ?r1 \<or> ?r2") for P
  proof
    assume ?l
    then obtain a d r where e: "c # s = a @ CHR ''@'' # d # r" "P d" by blast
    then have "c = CHR ''@'' \<and> s = d # r \<or> s = tl a @ CHR ''@'' # d # r" by (cases a) simp_all
    then show "?r1 \<or> ?r2" using e(2) by blast
  next
    assume "?r1 \<or> ?r2"
    then show ?l by (metis append_Cons append_Nil)
  qed
  have nn: "\<not> c_isalnum nul" by (simp add: c_chars ord_def)
  show ?case unfolding ex using Cons.IH nn
    by (cases s) (auto simp: c_at_def Let_def)
qed simp

text \<open>When the linter reports nothing.\<close>

definition lint_accepts :: "string \<Rightarrow> string \<Rightarrow> bool" where
  "lint_accepts name content \<longleftrightarrow>
     skill_name_is_valid (Some name) \<and> \<not> skill_name_is_session_artifact (Some name) \<and> fm_opens content
     \<and> (case fm_header content of
          None \<Rightarrow> False
        | Some (start, k) \<Rightarrow>
            let header = take k (drop start content); body = lint_body_of content (start + k) in
            skill_lint_line_value header ''name'' 64 = (True, name)
            \<and> skill_lint_description_is_trigger (snd (skill_lint_line_value header ''description'' 512))
            \<and> \<not> skill_lint_has_at_link body
            \<and> \<not> skill_lint_has_injection_pattern body
            \<and> skill_lint_word_count body \<le> 1200)"

lemma fm_opens_not_empty: "fm_opens c \<Longrightarrow> c_at c 0 \<noteq> nul"
  by (cases c) (auto simp: fm_opens_def c_at_def)

lemma lint_header_messages_Nil:
  assumes "name \<noteq> []"
  shows "lint_header_messages (Some name) label header = []
   \<longleftrightarrow> skill_lint_line_value header ''name'' 64 = (True, name)
     \<and> skill_lint_description_is_trigger (snd (skill_lint_line_value header ''description'' 512))"
proof -
  have nt: "\<not> skill_lint_description_is_trigger []"
    by (simp add: skill_lint_description_is_trigger_def)
  have v: "skill_lint_line_value header ''name'' 64 = (True, name)
    \<longleftrightarrow> snd (skill_lint_line_value header ''name'' 64) = name"
    using assms by (auto simp: skill_lint_line_value_def split: option.splits)
  show ?thesis unfolding v
    using assms nt by (auto simp: lint_header_messages_def Let_def skill_limits)
qed

lemma lint_messages_Nil: "lint_messages (Some name) (Some content) = [] \<longleftrightarrow> lint_accepts name content"
proof (cases "skill_name_is_valid (Some name) \<and> \<not> skill_name_is_session_artifact (Some name)")
  case True
  then have "name \<noteq> []" using skill_name_valid_chars(1) by blast
  note hdr = lint_header_messages_Nil [OF this]
  have body: "lint_body_messages label b = []
    \<longleftrightarrow> \<not> skill_lint_has_at_link b \<and> \<not> skill_lint_has_injection_pattern b
      \<and> skill_lint_word_count b \<le> 1200" for label b
    by (simp add: lint_body_messages_def skill_limits not_less)
  show ?thesis
    using True fm_opens_not_empty [of content]
    by (simp add: lint_messages_def lint_name_messages_def lint_accepts_def Let_def hdr body
        split: option.splits)
next
  case False
  then show ?thesis
    by (auto simp: lint_messages_def lint_name_messages_def lint_accepts_def Let_def)
qed

lemma skill_lint_content_accepts:
  "snd (skill_lint_content (Some name) (Some content) cap) = 0 \<longleftrightarrow> lint_accepts name content"
  by (simp add: skill_lint_content_result lint_result_def lint_messages_Nil)

end
