(* ===== verification/Skill_Resolve.thy ===== *)
theory Skill_Resolve
  imports Skill_Fs Skill_Lint
begin

text \<open>
  Finding, loading and listing skills (\<open>skill.c\<close>): the three places a skill can be in and
  their order, \<open>skill_load\<close>, \<open>skill_list\<close>, and the readers built on them. The module's own
  statics, the activation counter and the registered trigger provider, are a record.
\<close>

section \<open>Module state\<close>

type_synonym match_provider = "string \<Rightarrow> string option \<Rightarrow> string option \<Rightarrow> int \<times> int"

record skill_module =
  self_activations_total :: "64 word"
  trigger_match_provider :: "match_provider option"

definition skill_metrics :: "skill_module \<Rightarrow> 64 word" where
  "skill_metrics m = self_activations_total m"

definition skill_metrics_record_activation :: "skill_module \<Rightarrow> skill_module" where
  "skill_metrics_record_activation m = m\<lparr>self_activations_total := self_activations_total m + 1\<rparr>"

definition skill_trigger_register_match_provider ::
  "match_provider option \<Rightarrow> skill_module \<Rightarrow> skill_module" where
  "skill_trigger_register_match_provider provider m = m\<lparr>trigger_match_provider := provider\<rparr>"

section \<open>Where a skill is\<close>

datatype skill_source_t =
  SKILL_SOURCE_NONE | SKILL_SOURCE_PROJECT | SKILL_SOURCE_USER | SKILL_SOURCE_BUNDLED

text \<open>A pointer that is not NULL and does not point to an empty string.\<close>

definition given :: "string option \<Rightarrow> bool" where
  "given s = (case s of None \<Rightarrow> False | Some t \<Rightarrow> c_at t 0 \<noteq> nul)"

definition skill_bundled_dir :: "env \<Rightarrow> string" where
  "skill_bundled_dir env =
     (if given (getenv env ''AIMEE_BUNDLED_SKILLS_DIR'')
      then c_buf SKILL_PATH_MAX (the (getenv env ''AIMEE_BUNDLED_SKILLS_DIR''))
      else if given (getenv env ''XDG_DATA_HOME'')
      then c_buf SKILL_PATH_MAX (the (getenv env ''XDG_DATA_HOME'') @ ''/aimee/skills'')
      else if given (getenv env ''HOME'')
      then c_buf SKILL_PATH_MAX (the (getenv env ''HOME'') @ ''/.local/share/aimee/skills'')
      else c_buf SKILL_PATH_MAX (config_default_dir env @ ''/bundled-skills''))"

definition skill_regular_file :: "env \<Rightarrow> fs \<Rightarrow> string \<Rightarrow> bool" where
  "skill_regular_file env fs path = (case c_stat env Stat fs path of Inl e \<Rightarrow> False | Inr k \<Rightarrow> S_ISREG k)"

text \<open>Each try returns the path it leaves in the buffer when it succeeds.\<close>

definition skill_dir_with_manifest :: "env \<Rightarrow> fs \<Rightarrow> string \<Rightarrow> string \<Rightarrow> nat \<Rightarrow> string option" where
  "skill_dir_with_manifest env fs base name bufsz =
     (let buf = c_buf bufsz (base @ ''/'' @ name @ ''/SKILL.md'') in
      if skill_regular_file env fs buf then Some buf else None)"

definition skill_flat_file :: "env \<Rightarrow> fs \<Rightarrow> string \<Rightarrow> string \<Rightarrow> nat \<Rightarrow> string option" where
  "skill_flat_file env fs base name bufsz =
     (let buf = c_buf bufsz (base @ ''/'' @ name @ ''.md'') in
      if skill_regular_file env fs buf then Some buf else None)"

definition skill_try_base :: "env \<Rightarrow> fs \<Rightarrow> string \<Rightarrow> string \<Rightarrow> nat \<Rightarrow> string option" where
  "skill_try_base env fs base name bufsz =
     (if c_at base 0 = nul then None
      else case skill_dir_with_manifest env fs base name bufsz of
        Some buf \<Rightarrow> Some buf
      | None \<Rightarrow> skill_flat_file env fs base name bufsz)"

definition project_skills :: "string \<Rightarrow> string" where
  "project_skills project_root = c_buf SKILL_PATH_MAX (project_root @ ''/.aimee/skills'')"

abbreviation skills_place :: "string \<Rightarrow> path" where
  "skills_place root \<equiv> path_parts (project_skills root)"

definition user_skills :: "env \<Rightarrow> string" where
  "user_skills env = c_buf SKILL_PATH_MAX (config_default_dir env @ ''/skills'')"

definition skill_resolve_path ::
  "env \<Rightarrow> fs \<Rightarrow> string option \<Rightarrow> string option \<Rightarrow> nat \<Rightarrow> (string \<times> skill_source_t) option" where
  "skill_resolve_path env fs project_root name bufsz =
     (if \<not> given name \<or> bufsz = 0 then None
      else
        let n = the name in
        case (if given project_root
              then skill_try_base env fs (project_skills (the project_root)) n bufsz else None) of
          Some buf \<Rightarrow> Some (buf, SKILL_SOURCE_PROJECT)
        | None \<Rightarrow>
            (case skill_try_base env fs (user_skills env) n bufsz of
               Some buf \<Rightarrow> Some (buf, SKILL_SOURCE_USER)
             | None \<Rightarrow>
                 (case skill_try_base env fs (skill_bundled_dir env) n bufsz of
                    Some buf \<Rightarrow> Some (buf, SKILL_SOURCE_BUNDLED)
                  | None \<Rightarrow> None)))"

definition skill_path :: "env \<Rightarrow> fs \<Rightarrow> string option \<Rightarrow> string option \<Rightarrow> nat \<Rightarrow> string option" where
  "skill_path env fs project_root name bufsz =
     map_option fst (skill_resolve_path env fs project_root name bufsz)"

definition skill_source :: "env \<Rightarrow> fs \<Rightarrow> string option \<Rightarrow> string option \<Rightarrow> string option" where
  "skill_source env fs project_root name =
     (case skill_resolve_path env fs project_root name SKILL_PATH_MAX of
        None \<Rightarrow> None
      | Some (path, source) \<Rightarrow>
          (case source of
             SKILL_SOURCE_PROJECT \<Rightarrow> Some ''project''
           | SKILL_SOURCE_USER \<Rightarrow> Some ''user''
           | SKILL_SOURCE_BUNDLED \<Rightarrow> Some ''bundled''
           | SKILL_SOURCE_NONE \<Rightarrow> None))"

section \<open>Loading\<close>

definition skill_load :: "env \<Rightarrow> fs \<Rightarrow> string option \<Rightarrow> string option \<Rightarrow> string option" where
  "skill_load env fs project_root name =
     (if \<not> given name then None
      else case skill_path env fs project_root name SKILL_PATH_MAX of
        None \<Rightarrow> None
      | Some path \<Rightarrow>
          (case c_fopen_r env fs path of
             Inl e \<Rightarrow> None
           | Inr f \<Rightarrow>
               if fault env Malloc path then None
               else let buf = fst (c_fread env path f SKILL_MAX_SIZE) in
                 if buf = [] then None else Some (c_string buf)))"

section \<open>Listing\<close>

text \<open>\<open>ADD_NAME\<close>, one directory entry, and the loop over a directory.\<close>

definition add_name :: "nat \<Rightarrow> string \<Rightarrow> string list \<Rightarrow> string list" where
  "add_name max_names name names =
     (if name \<in> set names then names
      else if length names < max_names then names @ [c_buf SKILL_NAME_MAX name] else names)"

definition ends_with_md :: "string \<Rightarrow> bool" where
  "ends_with_md n \<longleftrightarrow> length n > 3 \<and> drop (length n - 3) n = ''.md''"

definition list_entry :: "env \<Rightarrow> fs \<Rightarrow> string \<Rightarrow> nat \<Rightarrow> string \<Rightarrow> string list \<Rightarrow> string list" where
  "list_entry env fs dir max_names d_name names =
     (if ends_with_md d_name then
        (let rlen = length d_name - 3 in
         if rlen < SKILL_NAME_MAX then add_name max_names (take rlen d_name) names else names)
      else if d_name \<noteq> ''.'' \<and> d_name \<noteq> ''..'' then
        (if skill_regular_file env fs (c_buf SKILL_PATH_MAX (dir @ ''/'' @ d_name @ ''/SKILL.md''))
            \<and> length d_name < SKILL_NAME_MAX
         then add_name max_names d_name names else names)
      else names)"

fun list_entries :: "env \<Rightarrow> fs \<Rightarrow> string \<Rightarrow> nat \<Rightarrow> string list \<Rightarrow> string list \<Rightarrow> string list" where
  "list_entries env fs dir max_names [] names = names"
| "list_entries env fs dir max_names (ent # ents) names =
     (if length names < max_names
      then list_entries env fs dir max_names ents (list_entry env fs dir max_names ent names)
      else names)"

definition list_dir :: "env \<Rightarrow> fs \<Rightarrow> nat \<Rightarrow> string option \<Rightarrow> string list \<Rightarrow> string list" where
  "list_dir env fs max_names dir names =
     (if \<not> length names < max_names then names
      else if \<not> given dir then names
      else case c_opendir env fs (the dir) of
        Inl e \<Rightarrow> names
      | Inr ents \<Rightarrow> list_entries env fs (the dir) max_names ents names)"

definition skill_list :: "env \<Rightarrow> fs \<Rightarrow> string option \<Rightarrow> nat \<Rightarrow> string list" where
  "skill_list env fs project_root max_names =
     (if max_names = 0 then []
      else fold (list_dir env fs max_names)
        [(if given project_root then Some (project_skills (the project_root)) else None),
         Some (user_skills env), Some (skill_bundled_dir env)] [])"

section \<open>Readers of one skill\<close>

text \<open>The result code, 0 or -1, and the buffer.\<close>

definition skill_description ::
  "env \<Rightarrow> fs \<Rightarrow> string option \<Rightarrow> string option \<Rightarrow> nat \<Rightarrow> int \<times> string" where
  "skill_description env fs project_root name out_len =
     (if \<not> given name \<or> out_len = 0 then (-1, [])
      else case skill_load env fs project_root name of
        None \<Rightarrow> (-1, [])
      | Some content \<Rightarrow>
          if fm_opens content then
            (case fm_header content of
               None \<Rightarrow> (-1, [])
             | Some (start, header_len) \<Rightarrow>
                 (let (found, out) =
                        skill_lint_line_value (take header_len (drop start content)) ''description'' out_len
                  in (if found \<and> out \<noteq> [] then 0 else -1, out)))
          else (-1, []))"

definition skill_trigger_matches ::
  "env \<Rightarrow> fs \<Rightarrow> skill_module \<Rightarrow> string option \<Rightarrow> string option \<Rightarrow> string option \<Rightarrow> string option \<Rightarrow> int" where
  "skill_trigger_matches env fs m project_root name tool_name subject =
     (case skill_load env fs project_root name of
        None \<Rightarrow> 0
      | Some content \<Rightarrow>
          (case trigger_match_provider m of
             None \<Rightarrow> -1
           | Some provider \<Rightarrow>
               (case provider content tool_name subject of
                  (rc, match) \<Rightarrow> if rc = 0 then match else -1)))"

definition skill_lint :: "env \<Rightarrow> fs \<Rightarrow> string option \<Rightarrow> string option \<Rightarrow> nat \<Rightarrow> lint_state" where
  "skill_lint env fs project_root name report_len =
     (case skill_load env fs project_root name of
        None \<Rightarrow>
          (c_buf report_len ((case name of None \<Rightarrow> [] | Some n \<Rightarrow> n) @ '': skill not found'' @ [nl]), 1)
      | Some content \<Rightarrow> skill_lint_content name (Some content) report_len)"

section \<open>What resolving and loading return\<close>

lemma given_Some: "cstr s \<Longrightarrow> given (Some s) \<longleftrightarrow> s \<noteq> []"
  by (simp add: given_def c_at_0)

lemma given_None [simp]: "\<not> given None"
  by (simp add: given_def)

lemma skill_try_base_Some:
  "skill_try_base env fs base name n = Some p
   \<Longrightarrow> skill_regular_file env fs p
       \<and> (p = c_buf n (base @ ''/'' @ name @ ''/SKILL.md'') \<or> p = c_buf n (base @ ''/'' @ name @ ''.md''))"
  by (auto simp: skill_try_base_def skill_dir_with_manifest_def skill_flat_file_def Let_def
      split: option.splits if_splits)

lemma skill_resolve_path_Some:
  assumes "skill_resolve_path env fs root name n = Some (p, src)"
  obtains base where "src \<noteq> SKILL_SOURCE_NONE" "given name" "0 < n"
    "base \<in> {project_skills (the root), user_skills env, skill_bundled_dir env}"
    "skill_try_base env fs base (the name) n = Some p"
    "src = SKILL_SOURCE_PROJECT \<longrightarrow> given root \<and> base = project_skills (the root)"
proof -
  from assms have g: "given name" "0 < n"
    by (auto simp: skill_resolve_path_def split: if_splits)
  from assms g show thesis
    by (auto simp: skill_resolve_path_def Let_def split: option.splits if_splits intro: that)
qed

lemma skill_resolve_path_regular:
  assumes "skill_resolve_path env fs root name n = Some (p, src)"
  shows "skill_regular_file env fs p" "length p < n"
proof -
  from assms obtain base where b: "skill_try_base env fs base (the name) n = Some p" "0 < n"
    by (rule skill_resolve_path_Some)
  from skill_try_base_Some [OF b(1)] show "skill_regular_file env fs p" "length p < n"
    using length_c_buf [OF b(2)] by auto
qed

lemma skill_regular_file_iff:
  "skill_regular_file env fs p
   \<longleftrightarrow> \<not> fault env Stat p \<and> (\<exists>q s. locate fs p = Inr q \<and> fs_at fs q = Some (Reg s))"
proof -
  have "skill_regular_file env fs p \<longleftrightarrow> (\<exists>s. c_stat env Stat fs p = Inr (Reg s))"
    by (auto simp: skill_regular_file_def S_ISREG_def split: sum.splits kind.splits)
  then show ?thesis by (auto simp: c_stat_Inr)
qed

text \<open>The three places, in order: a skill in an earlier one hides the later ones.\<close>

lemma skill_resolve_path_order:
  assumes "given name" "0 < n"
  shows "skill_resolve_path env fs root name n =
    (let try = (\<lambda>base src. map_option (\<lambda>p. (p, src)) (skill_try_base env fs base (the name) n)) in
     case (if given root then try (project_skills (the root)) SKILL_SOURCE_PROJECT else None) of
       Some r \<Rightarrow> Some r
     | None \<Rightarrow> (case try (user_skills env) SKILL_SOURCE_USER of
                 Some r \<Rightarrow> Some r | None \<Rightarrow> try (skill_bundled_dir env) SKILL_SOURCE_BUNDLED))"
  using assms by (simp add: skill_resolve_path_def Let_def split: option.splits)

text \<open>
  The same as one list: every path a name can stand for, in the order in which they are tried,
  each with the place it belongs to. The bundled skills are where the first environment
  variable that is set says.
\<close>

definition bundled_base :: "env \<Rightarrow> string" where
  "bundled_base env =
     hd ((case getenv env ''AIMEE_BUNDLED_SKILLS_DIR'' of Some v \<Rightarrow> if v \<noteq> [] then [v] else [] | None \<Rightarrow> [])
       @ (case getenv env ''XDG_DATA_HOME'' of Some v \<Rightarrow> if v \<noteq> [] then [v @ ''/aimee/skills''] else [] | None \<Rightarrow> [])
       @ (case getenv env ''HOME'' of Some v \<Rightarrow> if v \<noteq> [] then [v @ ''/.local/share/aimee/skills''] else [] | None \<Rightarrow> [])
       @ [config_default_dir env @ ''/bundled-skills''])"

definition skill_candidates :: "env \<Rightarrow> string option \<Rightarrow> string \<Rightarrow> nat \<Rightarrow> (string \<times> skill_source_t) list" where
  "skill_candidates env pr n k =
     concat (map (\<lambda>(base, src). [(c_buf k (take 511 base @ ''/'' @ n @ ''/SKILL.md''), src),
                                 (c_buf k (take 511 base @ ''/'' @ n @ ''.md''), src)])
       ((case pr of Some r \<Rightarrow> if r \<noteq> [] then [(r @ ''/.aimee/skills'', SKILL_SOURCE_PROJECT)] else [] | None \<Rightarrow> [])
        @ [(config_default_dir env @ ''/skills'', SKILL_SOURCE_USER), (bundled_base env, SKILL_SOURCE_BUNDLED)]))"

text \<open>The strings that come from outside end at their first NUL.\<close>

definition env_cstr :: "env \<Rightarrow> bool" where
  "env_cstr env \<longleftrightarrow> cstr (config_default_dir env) \<and> (\<forall>v s. getenv env v = Some s \<longrightarrow> cstr s)"

lemma given_cstr: "cstr s \<Longrightarrow> given (Some s) \<longleftrightarrow> s \<noteq> []"
  by (cases s) (auto simp: given_def c_at_def cstr_def)

lemma bundled_dir_base:
  assumes "env_cstr env"
  shows "skill_bundled_dir env = take 511 (bundled_base env)" "bundled_base env \<noteq> []" "cstr (bundled_base env)"
proof -
  have c: "cstr s" if "getenv env v = Some s" for v s using assms that by (simp add: env_cstr_def)
  have d: "cstr (config_default_dir env)" using assms by (simp add: env_cstr_def)
  show "skill_bundled_dir env = take 511 (bundled_base env)" "bundled_base env \<noteq> []" "cstr (bundled_base env)"
    using c d by (auto simp: skill_bundled_dir_def bundled_base_def given_cstr c_buf_def SKILL_PATH_MAX_def cstr_append
        split: option.splits)
qed

lemma try_base_find:
  assumes "cstr base" "base \<noteq> []" "0 < k"
  shows "map_option (\<lambda>p. (p, src)) (skill_try_base env fs (c_buf SKILL_PATH_MAX base) n k)
    = List.find (\<lambda>(p, s). skill_regular_file env fs p)
        [(c_buf k (take 511 base @ ''/'' @ n @ ''/SKILL.md''), src), (c_buf k (take 511 base @ ''/'' @ n @ ''.md''), src)]"
proof -
  have "c_at (c_buf SKILL_PATH_MAX base) 0 \<noteq> nul"
    using assms(1,2) by (cases base) (auto simp: c_buf_def c_at_def SKILL_PATH_MAX_def cstr_def)
  moreover have "c_buf SKILL_PATH_MAX base = take 511 base" by (simp add: c_buf_def SKILL_PATH_MAX_def)
  ultimately show ?thesis
    by (simp add: skill_try_base_def skill_dir_with_manifest_def skill_flat_file_def Let_def)
qed

lemma find_append:
  "List.find P (xs @ ys) = (case List.find P xs of Some x \<Rightarrow> Some x | None \<Rightarrow> List.find P ys)"
  by (induction xs) auto

text \<open>Resolving a name finds the first regular file among its candidates.\<close>

lemma resolve_first:
  assumes "env_cstr env" "pred_option cstr pr" "cstr n" "n \<noteq> []" "0 < k"
  shows "skill_resolve_path env fs pr (Some n) k
    = List.find (\<lambda>(p, src). skill_regular_file env fs p) (skill_candidates env pr n k)"
proof -
  have "given (Some n)" using assms(3,4) by (simp add: given_cstr)
  note order = skill_resolve_path_order [OF this assms(5), of env fs pr, unfolded option.sel]
  have c: "cstr (config_default_dir env)" using assms(1) by (simp add: env_cstr_def)
  note b = bundled_dir_base [OF assms(1)]
  have bd: "skill_bundled_dir env = c_buf SKILL_PATH_MAX (bundled_base env)"
    using b(1) by (simp add: c_buf_def SKILL_PATH_MAX_def)
  have u: "cstr (config_default_dir env @ ''/skills'')" "config_default_dir env @ ''/skills'' \<noteq> []" using c by simp_all
  have p: "cstr (r @ ''/.aimee/skills'') \<and> r @ ''/.aimee/skills'' \<noteq> []" if "pr = Some r" for r
    using assms(2) that by simp
  note t = try_base_find [OF b(3,2) assms(5)] try_base_find [OF u assms(5)]
  have cand: "skill_candidates env pr n k =
      (case pr of None \<Rightarrow> [] | Some r \<Rightarrow> if r = [] then [] else
         [(c_buf k (take 511 (r @ ''/.aimee/skills'') @ ''/'' @ n @ ''/SKILL.md''), SKILL_SOURCE_PROJECT),
          (c_buf k (take 511 (r @ ''/.aimee/skills'') @ ''/'' @ n @ ''.md''), SKILL_SOURCE_PROJECT)])
      @ [(c_buf k (take 511 (config_default_dir env @ ''/skills'') @ ''/'' @ n @ ''/SKILL.md''), SKILL_SOURCE_USER),
         (c_buf k (take 511 (config_default_dir env @ ''/skills'') @ ''/'' @ n @ ''.md''), SKILL_SOURCE_USER)]
      @ [(c_buf k (take 511 (bundled_base env) @ ''/'' @ n @ ''/SKILL.md''), SKILL_SOURCE_BUNDLED),
         (c_buf k (take 511 (bundled_base env) @ ''/'' @ n @ ''.md''), SKILL_SOURCE_BUNDLED)]"
    by (simp add: skill_candidates_def split: option.splits)
  show ?thesis
  proof (cases "given pr")
    case True
    then obtain r where r: "pr = Some r" by (cases pr) auto
    with True assms(2) have n: "r \<noteq> []" by (simp add: given_cstr)
    from p [OF r] have "cstr (r @ ''/.aimee/skills'')" "r @ ''/.aimee/skills'' \<noteq> []" by auto
    note tr = try_base_find [OF this assms(5)]
    from True n show ?thesis
      unfolding order [unfolded r] cand [unfolded r] Let_def user_skills_def project_skills_def bd r
      by (simp only: find_append tr t option.case option.sel if_True if_False)
  next
    case False
    then have "(case pr of None \<Rightarrow> [] | Some r \<Rightarrow> if r = [] then [] else x r) = []" for x :: "string \<Rightarrow> (string \<times> skill_source_t) list"
      using assms(2) by (cases pr) (auto simp: given_cstr)
    then show ?thesis
      unfolding order cand Let_def user_skills_def project_skills_def bd using False
      by (simp only: find_append t option.case if_False append_Nil)
  qed
qed

lemma skill_load_Some:
  assumes "skill_load env fs root name = Some content"
  obtains p src q s where "skill_resolve_path env fs root name SKILL_PATH_MAX = Some (p, src)"
    "locate fs p = Inr q" "fs_at fs q = Some (Reg s)" "s \<noteq> []"
    "\<exists>k \<le> SKILL_MAX_SIZE. content = c_string (take k s) \<and> (\<not> fault env Fread p \<longrightarrow> k = SKILL_MAX_SIZE)"
proof -
  from assms obtain p src f where p: "skill_resolve_path env fs root name SKILL_PATH_MAX = Some (p, src)"
    and f: "c_fopen_r env fs p = Inr f" "fst (c_fread env p f SKILL_MAX_SIZE) \<noteq> []"
    and c: "content = c_string (fst (c_fread env p f SKILL_MAX_SIZE))"
    by (auto simp: skill_load_def skill_path_def Let_def split: if_splits option.splits sum.splits)
  from f(1) have "c_stat env Fopen_r fs p = Inr f"
    by (auto simp: c_fopen_r_def split: sum.splits kind.splits)
  then obtain q where q: "locate fs p = Inr q" "fs_at fs q = Some f" by (auto simp: c_stat_Inr)
  from f(2) obtain s where s: "f = Reg s" by (auto simp: c_fread_def split: kind.splits)
  let ?k = "if fault env Fread p then min (received env p) SKILL_MAX_SIZE else SKILL_MAX_SIZE"
  have "fst (c_fread env p f SKILL_MAX_SIZE) = take ?k s" unfolding s by (simp add: c_fread_def)
  moreover have "?k \<le> SKILL_MAX_SIZE" by simp
  moreover have "\<not> fault env Fread p \<longrightarrow> ?k = SKILL_MAX_SIZE" by simp
  moreover have "s \<noteq> []" using f(2) s by (auto simp: c_fread_def split: if_splits)
  ultimately show thesis using that [of p src q s] p q s c by metis
qed

lemma skill_load_bounded:
  assumes "skill_load env fs root name = Some content"
  shows "cstr content" "length content \<le> SKILL_MAX_SIZE"
proof -
  from assms obtain s k where "content = c_string (take k s)" "k \<le> SKILL_MAX_SIZE"
    by (metis skill_load_Some)
  moreover have "length (c_string (take k s)) \<le> k"
    unfolding c_string_def by (rule le_trans [OF length_takeWhile_le]) simp
  ultimately show "cstr content" "length content \<le> SKILL_MAX_SIZE" by auto
qed

definition no_faults :: "env \<Rightarrow> bool" where
  "no_faults env \<longleftrightarrow> (\<forall>c p. \<not> fault env c p)"

lemma no_faults [simp]: "no_faults env \<Longrightarrow> \<not> fault env c p"
  by (simp add: no_faults_def)

text \<open>Without failures a resolved skill is loaded, unless its file is empty.\<close>

lemma skill_load_resolved:
  assumes "no_faults env" "skill_resolve_path env fs root name SKILL_PATH_MAX = Some (p, src)"
    and "locate fs p = Inr q" "fs_at fs q = Some (Reg s)"
  shows "skill_load env fs root name
    = (if s = [] then None else Some (c_string (take SKILL_MAX_SIZE s)))"
proof -
  from assms(2) have "given name" by (rule skill_resolve_path_Some)
  moreover have "c_fopen_r env fs p = Inr (Reg s)"
    using assms by (simp add: c_fopen_r_def c_stat_def sys_path_def)
  ultimately show ?thesis
    using assms by (simp add: skill_load_def skill_path_def c_fread_def skill_limits)
qed

section \<open>The list is the first names found, without repetition\<close>

definition dedupe :: "string list \<Rightarrow> string list" where
  "dedupe xs = rev (remdups (rev xs))"

lemma dedupe_snoc: "dedupe (xs @ [x]) = (if x \<in> set xs then dedupe xs else dedupe xs @ [x])"
  by (simp add: dedupe_def)

lemma set_dedupe [simp]: "set (dedupe xs) = set xs"
  by (simp add: dedupe_def)

lemma distinct_dedupe [simp]: "distinct (dedupe xs)"
  by (simp add: dedupe_def)

definition first_names :: "nat \<Rightarrow> string list \<Rightarrow> string list" where
  "first_names cap xs = take cap (dedupe xs)"

lemma add_name_first_names:
  assumes "length name < SKILL_NAME_MAX"
  shows "add_name cap name (first_names cap xs) = first_names cap (xs @ [name])"
proof (cases "length (dedupe xs) < cap")
  case True
  then show ?thesis using assms by (simp add: first_names_def add_name_def dedupe_snoc)
next
  case False
  then show ?thesis by (simp add: first_names_def add_name_def dedupe_snoc)
qed

lemma first_names_full:
  "\<not> length (first_names cap xs) < cap \<Longrightarrow> first_names cap (xs @ ys) = first_names cap xs"
proof (induction ys rule: rev_induct)
  case (snoc y ys)
  then have eq: "first_names cap (xs @ ys) = first_names cap xs" by simp
  have "\<not> length (first_names cap (xs @ ys)) < cap" using snoc.prems eq by simp
  then have "cap \<le> length (dedupe (xs @ ys))" by (simp add: first_names_def)
  then have "first_names cap ((xs @ ys) @ [y]) = first_names cap (xs @ ys)"
    by (simp add: first_names_def dedupe_snoc del: append_assoc)
  then show ?case using eq by simp
qed simp

text \<open>The skill a directory entry stands for.\<close>

definition entry_name :: "env \<Rightarrow> fs \<Rightarrow> string \<Rightarrow> string \<Rightarrow> string option" where
  "entry_name env fs dir e =
     (if ends_with_md e then (if length e - 3 < SKILL_NAME_MAX then Some (take (length e - 3) e) else None)
      else if e \<noteq> ''.'' \<and> e \<noteq> ''..'' \<and> length e < SKILL_NAME_MAX
              \<and> skill_regular_file env fs (c_buf SKILL_PATH_MAX (dir @ ''/'' @ e @ ''/SKILL.md''))
      then Some e else None)"

definition dir_skills :: "env \<Rightarrow> fs \<Rightarrow> string option \<Rightarrow> string list" where
  "dir_skills env fs dir =
     (if given dir then
        (case c_opendir env fs (the dir) of
           Inl e \<Rightarrow> [] | Inr ents \<Rightarrow> List.map_filter (entry_name env fs (the dir)) ents)
      else [])"

lemma entry_name_length: "entry_name env fs dir e = Some n \<Longrightarrow> length n < SKILL_NAME_MAX"
  by (auto simp: entry_name_def split: if_splits)

lemma list_entry_name:
  "list_entry env fs dir cap e names
   = (case entry_name env fs dir e of None \<Rightarrow> names | Some n \<Rightarrow> add_name cap n names)"
  by (simp add: list_entry_def entry_name_def Let_def)

lemma map_filter_Cons:
  "List.map_filter f (x # xs) = (case f x of None \<Rightarrow> [] | Some y \<Rightarrow> [y]) @ List.map_filter f xs"
  by (simp add: List.map_filter_def split: option.splits)

lemma list_entries_first_names:
  "list_entries env fs dir cap ents (first_names cap xs)
   = first_names cap (xs @ List.map_filter (entry_name env fs dir) ents)"
proof (induction ents arbitrary: xs)
  case Nil
  then show ?case by (simp add: List.map_filter_def)
next
  case (Cons e ents)
  show ?case
  proof (cases "length (first_names cap xs) < cap")
    case True
    show ?thesis
    proof (cases "entry_name env fs dir e")
      case None
      then show ?thesis using True Cons by (simp add: list_entry_name map_filter_Cons)
    next
      case (Some n)
      have "add_name cap n (first_names cap xs) = first_names cap (xs @ [n])"
        by (rule add_name_first_names [OF entry_name_length [OF Some]])
      then show ?thesis
        using True Some Cons [of "xs @ [n]"] by (simp add: list_entry_name map_filter_Cons)
    qed
  next
    case False
    then show ?thesis by (simp add: first_names_full)
  qed
qed

lemma list_dir_first_names:
  "list_dir env fs cap dir (first_names cap xs) = first_names cap (xs @ dir_skills env fs dir)"
proof (cases "length (first_names cap xs) < cap")
  case True
  then show ?thesis
    by (simp add: list_dir_def dir_skills_def list_entries_first_names split: sum.splits)
next
  case False
  then show ?thesis by (simp add: list_dir_def first_names_full)
qed

lemma skill_list_first_names:
  "skill_list env fs root cap = first_names cap
     (dir_skills env fs (if given root then Some (project_skills (the root)) else None)
      @ dir_skills env fs (Some (user_skills env)) @ dir_skills env fs (Some (skill_bundled_dir env)))"
proof (cases "cap = 0")
  case True
  then show ?thesis by (simp add: skill_list_def first_names_def)
next
  case False
  have "[] = first_names cap []" by (simp add: first_names_def dedupe_def)
  then have "list_dir env fs cap d [] = first_names cap (dir_skills env fs d)" for d
    using list_dir_first_names [of env fs cap d "[]"] by simp
  then show ?thesis using False by (simp add: skill_list_def list_dir_first_names)
qed

lemma in_map_filter: "y \<in> set (List.map_filter f xs) \<Longrightarrow> \<exists>x. f x = Some y"
  by (auto simp: List.map_filter_def)

lemma dir_skills_entry:
  assumes "n \<in> set (dir_skills env fs d)"
  obtains e where "entry_name env fs (the d) e = Some n"
proof -
  from assms have g: "given d" unfolding dir_skills_def by (metis empty_iff empty_set)
  then have n: "n \<in> set (case c_opendir env fs (the d) of
      Inl e \<Rightarrow> [] | Inr ents \<Rightarrow> List.map_filter (entry_name env fs (the d)) ents)"
    using assms by (simp only: dir_skills_def if_True)
  show thesis
  proof (cases "c_opendir env fs (the d)")
    case (Inl e)
    with n show thesis by simp
  next
    case (Inr ents)
    with n have "n \<in> set (List.map_filter (entry_name env fs (the d)) ents)" by simp
    from in_map_filter [OF this] that show thesis by blast
  qed
qed

lemma dir_skills_length: "n \<in> set (dir_skills env fs d) \<Longrightarrow> length n < SKILL_NAME_MAX"
  by (erule dir_skills_entry) (rule entry_name_length)

lemma skill_list_names:
  "distinct (skill_list env fs root cap)" "length (skill_list env fs root cap) \<le> cap"
  "n \<in> set (skill_list env fs root cap) \<Longrightarrow> length n < SKILL_NAME_MAX"
proof -
  show "distinct (skill_list env fs root cap)" "length (skill_list env fs root cap) \<le> cap"
    by (simp_all add: skill_list_first_names first_names_def)
  show "n \<in> set (skill_list env fs root cap) \<Longrightarrow> length n < SKILL_NAME_MAX"
    unfolding skill_list_first_names first_names_def
    by (auto dest!: in_set_takeD simp: dir_skills_length)
qed

end
