(* ===== verification/Skill_Store.thy ===== *)
theory Skill_Store
  imports Skill_Resolve
begin

text \<open>
  The helpers of \<open>skill.c\<close> through which everything is written: the path of a project skill,
  \<open>mkdir -p\<close>, the write to a temporary file that is renamed into place, and reading a file
  whole.
\<close>

definition skill_project_path :: "string option \<Rightarrow> string option \<Rightarrow> nat \<Rightarrow> string option" where
  "skill_project_path project_root name path_len =
     (if \<not> given project_root \<or> \<not> skill_name_is_valid name \<or> path_len = 0 then None
      else Some (c_buf path_len (the project_root @ ''/.aimee/skills/'' @ the name @ ''.md'')))"

text \<open>The strings the loop of \<open>skill_mkdir_p\<close> passes to \<open>mkdir\<close>: cut at every slash but a first one.\<close>

definition slash_cuts :: "string \<Rightarrow> string list" where
  "slash_cuts tmp = map (\<lambda>i. take i tmp) (filter (\<lambda>i. tmp ! i = CHR ''/'') [1..<length tmp])"

definition mkdir_or_dir :: "env \<Rightarrow> fs \<Rightarrow> string \<Rightarrow> fs option" where
  "mkdir_or_dir env fs d =
     (case c_mkdir env fs d of
        Inr fs' \<Rightarrow> Some fs'
      | Inl e \<Rightarrow>
          if e \<noteq> EEXIST then None
          else (case c_stat env Stat fs d of
                  Inl e \<Rightarrow> None | Inr k \<Rightarrow> if S_ISDIR k then Some fs else None))"

fun mkdirs :: "env \<Rightarrow> fs \<Rightarrow> string list \<Rightarrow> fs \<times> bool" where
  "mkdirs env fs [] = (fs, True)"
| "mkdirs env fs (d # ds) =
     (case mkdir_or_dir env fs d of None \<Rightarrow> (fs, False) | Some fs' \<Rightarrow> mkdirs env fs' ds)"

definition skill_mkdir_p :: "env \<Rightarrow> fs \<Rightarrow> string \<Rightarrow> fs \<times> bool" where
  "skill_mkdir_p env fs path =
     (let tmp = c_buf SKILL_PATH_MAX path in mkdirs env fs (slash_cuts tmp @ [tmp]))"

definition tmp_path :: "env \<Rightarrow> string \<Rightarrow> string" where
  "tmp_path env path = c_buf (SKILL_PATH_MAX + 64) (path @ ''.tmp.'' @ show_nat (getpid env))"

text \<open>The tail that two writers share: rename into place, or remove the temporary file.\<close>

definition commit_file :: "env \<Rightarrow> fs \<Rightarrow> string \<Rightarrow> string \<Rightarrow> bool \<Rightarrow> fs \<times> bool" where
  "commit_file env fs tmp path written_ok =
     (case (if written_ok then c_rename env fs tmp path else Inl EIO) of
        Inr fs' \<Rightarrow> (fs', True)
      | Inl e \<Rightarrow> (case c_unlink env fs tmp of Inr fs' \<Rightarrow> (fs', False) | Inl e \<Rightarrow> (fs, False)))"

definition replace_file :: "env \<Rightarrow> fs \<Rightarrow> string \<Rightarrow> string \<Rightarrow> fs \<times> bool" where
  "replace_file env fs path content =
     (case c_write_file env fs (tmp_path env path) content of
        None \<Rightarrow> (fs, False)
      | Some (fs', ok) \<Rightarrow> commit_file env fs' (tmp_path env path) path ok)"

definition skill_write_text_file :: "env \<Rightarrow> fs \<Rightarrow> string \<Rightarrow> string option \<Rightarrow> nat \<Rightarrow> fs \<times> bool" where
  "skill_write_text_file env fs path content max_size =
     (let text = (case content of None \<Rightarrow> [] | Some c \<Rightarrow> c) in
      if length text = 0 \<or> length text > max_size then (fs, False)
      else replace_file env fs path text)"

definition skill_read_file :: "env \<Rightarrow> fs \<Rightarrow> string \<Rightarrow> string option" where
  "skill_read_file env fs path =
     (case c_fopen_r env fs path of
        Inl e \<Rightarrow> None
      | Inr f \<Rightarrow>
          (case f of
             Reg s \<Rightarrow>
               if length s > MAX_FILE_SIZE env \<or> fault env Malloc path then None
               else Some (c_string (fst (c_fread env path f (length s))))
           | _ \<Rightarrow> None))"

section \<open>Growing file systems\<close>

text \<open>Making directories only adds directories.\<close>

definition fs_grows :: "fs \<Rightarrow> fs \<Rightarrow> bool" where
  "fs_grows fs fs' \<longleftrightarrow> (\<forall>x. fs_at fs' x = fs_at fs x \<or> (fs_at fs x = None \<and> is_dir fs' x))"

lemma fs_grows_refl [simp]: "fs_grows fs fs"
  by (simp add: fs_grows_def)

lemma fs_grows_trans: "fs_grows fs1 fs2 \<Longrightarrow> fs_grows fs2 fs3 \<Longrightarrow> fs_grows fs1 fs3"
  unfolding fs_grows_def by metis

lemma fs_grows_at: "fs_grows fs fs' \<Longrightarrow> fs_at fs x = Some k \<Longrightarrow> fs_at fs' x = Some k"
  unfolding fs_grows_def by (metis option.distinct(1))

lemma locate_grows: "fs_grows fs fs' \<Longrightarrow> locate fs p = Inr q \<Longrightarrow> locate fs' p = Inr q"
  by (rule locate_dirs_mono) (auto dest: fs_grows_at)

lemma c_mkdir_grows:
  assumes "c_mkdir env fs p = Inr fs'"
  shows "fs_grows fs fs'" and "\<exists>q. locate fs' p = Inr q \<and> is_dir fs' q"
proof -
  from c_mkdir_Inr [OF assms] obtain q where q: "locate fs p = Inr q" "q \<noteq> []" "fs_at fs q = None"
    "fs' = fs_put q Dir fs" by blast
  then show g: "fs_grows fs fs'" by (simp add: fs_grows_def)
  from q locate_grows [OF g q(1)] show "\<exists>q. locate fs' p = Inr q \<and> is_dir fs' q" by auto
qed

lemma mkdir_or_dir_Some:
  assumes "mkdir_or_dir env fs d = Some fs'"
  shows "fs_grows fs fs'" and "\<exists>q. locate fs' d = Inr q \<and> is_dir fs' q"
    and "fs_wf fs \<Longrightarrow> cstr d \<Longrightarrow> fs_wf fs'"
proof -
  show "fs_grows fs fs'" using assms
    by (auto simp: mkdir_or_dir_def c_mkdir_grows(1) split: sum.splits if_splits)
  show "\<exists>q. locate fs' d = Inr q \<and> is_dir fs' q"
  proof (cases "c_mkdir env fs d")
    case (Inr x)
    then show ?thesis using assms c_mkdir_grows(2) by (auto simp: mkdir_or_dir_def)
  next
    case (Inl e)
    with assms obtain k where "c_stat env Stat fs d = Inr k" "S_ISDIR k" "fs' = fs"
      by (auto simp: mkdir_or_dir_def split: sum.splits if_splits)
    then show ?thesis by (auto simp: c_stat_Inr S_ISDIR_def split: kind.splits)
  qed
  show "fs_wf fs \<Longrightarrow> cstr d \<Longrightarrow> fs_wf fs'" using assms
    by (auto simp: mkdir_or_dir_def c_mkdir_wf split: sum.splits if_splits)
qed

lemma mkdirs_result:
  "mkdirs env fs ds = (fs', ok) \<Longrightarrow> fs_grows fs fs'
     \<and> (ok \<longrightarrow> (\<forall>d \<in> set ds. \<exists>q. locate fs' d = Inr q \<and> is_dir fs' q))
     \<and> (fs_wf fs \<longrightarrow> (\<forall>d \<in> set ds. cstr d) \<longrightarrow> fs_wf fs')"
proof (induction ds arbitrary: fs)
  case (Cons d ds)
  show ?case
  proof (cases "mkdir_or_dir env fs d")
    case None
    with Cons.prems show ?thesis by auto
  next
    case (Some fs1)
    note one = mkdir_or_dir_Some [OF Some]
    from Some Cons.prems have "mkdirs env fs1 ds = (fs', ok)" by simp
    note rest = Cons.IH [OF this]
    from one(2) obtain q where q: "locate fs1 d = Inr q" "is_dir fs1 q" by blast
    have g: "fs_grows fs1 fs'" using rest by blast
    from locate_grows [OF g q(1)] fs_grows_at [OF g q(2)]
    have "\<exists>q. locate fs' d = Inr q \<and> is_dir fs' q" by blast
    moreover have "fs_grows fs fs'" using fs_grows_trans [OF one(1) g] .
    ultimately show ?thesis using rest one(3) by auto
  qed
qed simp

lemma skill_mkdir_p_result:
  assumes "skill_mkdir_p env fs path = (fs', ok)"
  shows "fs_grows fs fs'"
    and "ok \<Longrightarrow> \<exists>q. locate fs' (c_buf SKILL_PATH_MAX path) = Inr q \<and> is_dir fs' q"
    and "fs_wf fs \<Longrightarrow> cstr path \<Longrightarrow> fs_wf fs'"
  using mkdirs_result [OF assms [unfolded skill_mkdir_p_def Let_def]]
  by (auto simp: slash_cuts_def)

section \<open>Replacing a file is all or nothing\<close>

lemma is_dir_put_file:
  "q \<noteq> [] \<Longrightarrow> \<not> is_dir fs q \<Longrightarrow> is_dir (fs_put q (Reg s) fs) x \<longleftrightarrow> is_dir fs x"
  by auto

lemma commit_file_result:
  assumes "commit_file env fs tmp path wok = (fs', ok)" "fs_wf fs" "cstr path"
    and "locate fs tmp = Inr t" "locate fs path = Inr q" "t \<noteq> q" "fs_at fs t = Some (Reg s)"
  shows "x \<noteq> t \<Longrightarrow> x \<noteq> q \<Longrightarrow> fs_at fs' x = fs_at fs x"
    and "fs_at fs' q = (if ok then Some (Reg s) else fs_at fs q)"
    and "ok \<Longrightarrow> fs_at fs' t = None" and "ok \<Longrightarrow> wok" and "fs_wf fs'"
proof -
  consider (moved) "wok" "ok" "c_rename env fs tmp path = Inr fs'"
    | (gone) "\<not> ok" "c_unlink env fs tmp = Inr fs'"
    | (left) "\<not> ok" "fs' = fs"
    using assms(1) by (auto simp: commit_file_def split: sum.splits if_splits)
  then have "(\<forall>x. x \<noteq> t \<longrightarrow> x \<noteq> q \<longrightarrow> fs_at fs' x = fs_at fs x)
    \<and> fs_at fs' q = (if ok then Some (Reg s) else fs_at fs q)
    \<and> (ok \<longrightarrow> fs_at fs' t = None) \<and> (ok \<longrightarrow> wok) \<and> fs_wf fs'"
  proof cases
    case moved
    have "fs_at fs' = (fs_at fs)(t := None, q \<mapsto> Reg s)"
      by (rule c_rename_file [OF moved(3) assms(2,4,5,6,7)])
    with moved assms(6) c_rename_wf [OF moved(3) assms(2,3)] show ?thesis by simp
  next
    case gone
    from c_unlink_Inr [OF gone(2)] assms(4) have "t \<noteq> []" "fs' = fs_del t fs" by auto
    with gone assms(6) c_unlink_wf [OF gone(2) assms(2)] show ?thesis by simp
  next
    case left
    with assms(2) show ?thesis by simp
  qed
  then show "x \<noteq> t \<Longrightarrow> x \<noteq> q \<Longrightarrow> fs_at fs' x = fs_at fs x"
    "fs_at fs' q = (if ok then Some (Reg s) else fs_at fs q)"
    "ok \<Longrightarrow> fs_at fs' t = None" "ok \<Longrightarrow> wok" "fs_wf fs'" by auto
qed

lemma replace_file_result:
  assumes "replace_file env fs path s = (fs', ok)" "fs_wf fs" "cstr path" "cstr (tmp_path env path)"
    and "locate fs (tmp_path env path) = Inr t" "locate fs path = Inr q" "t \<noteq> q"
  shows "x \<noteq> t \<Longrightarrow> x \<noteq> q \<Longrightarrow> fs_at fs' x = fs_at fs x"
    and "fs_at fs' q = (if ok then Some (Reg s) else fs_at fs q)" and "fs_wf fs'"
    and "ok \<Longrightarrow> fs_at fs' t = None"
proof -
  let ?tmp = "tmp_path env path"
  have "(\<forall>x. x \<noteq> t \<longrightarrow> x \<noteq> q \<longrightarrow> fs_at fs' x = fs_at fs x)
    \<and> fs_at fs' q = (if ok then Some (Reg s) else fs_at fs q) \<and> fs_wf fs' \<and> (ok \<longrightarrow> fs_at fs' t = None)"
  proof (cases "c_write_file env fs ?tmp s")
    case None
    with assms(1,2) show ?thesis by (simp add: replace_file_def)
  next
    case (Some r)
    obtain fs1 wok where r: "r = (fs1, wok)" by (cases r)
    from c_write_file_Some [OF Some [unfolded r]] assms(5) obtain u where
      u: "t \<noteq> []" "\<not> is_dir fs t" "fs1 = fs_put t (Reg u) fs" "wok \<longrightarrow> u = s" by auto
    have mono: "is_dir fs x \<Longrightarrow> is_dir fs1 x" for x using u by auto
    have c: "commit_file env fs1 ?tmp path wok = (fs', ok)"
      using assms(1) Some r by (simp add: replace_file_def)
    have wf1: "fs_wf fs1" using c_write_file_wf [OF Some [unfolded r] assms(2,4)] .
    have l: "locate fs1 ?tmp = Inr t" "locate fs1 path = Inr q"
      using locate_dirs_mono [OF mono] assms(5,6) by blast+
    have at: "fs_at fs1 t = Some (Reg u)" using u by simp
    note res = commit_file_result [OF c wf1 assms(3) l assms(7) at]
    have "x \<noteq> t \<Longrightarrow> fs_at fs1 x = fs_at fs x" for x using u by simp
    with res u(4) assms(7) show ?thesis by auto
  qed
  then show "x \<noteq> t \<Longrightarrow> x \<noteq> q \<Longrightarrow> fs_at fs' x = fs_at fs x"
    "fs_at fs' q = (if ok then Some (Reg s) else fs_at fs q)" "fs_wf fs'"
    "ok \<Longrightarrow> fs_at fs' t = None" by auto
qed

text \<open>The temporary file lies beside the file it replaces.\<close>

lemma show_nat_digits: "c \<in> set (show_nat n) \<Longrightarrow> 48 \<le> ord c \<and> ord c \<le> 57"
proof (induction n rule: show_nat.induct)
  case (1 n)
  then show ?case by (subst (asm) show_nat.simps) (auto split: if_splits)
qed

lemma show_nat_plain: "cstr (show_nat n)" "CHR ''/'' \<notin> set (show_nat n)"
  using show_nat_digits [of nul n] show_nat_digits [of "CHR ''/''" n]
  by (auto simp: cstr_def ord_def)

lemma tmp_path_plain:
  assumes "length path < SKILL_PATH_MAX" "length (show_nat (getpid env)) < 60"
  shows "tmp_path env path = path @ ''.tmp.'' @ show_nat (getpid env)"
  using assms by (simp add: tmp_path_def skill_limits)

lemma tmp_path_locate:
  assumes "path = d @ CHR ''/'' # n" "length path < SKILL_PATH_MAX" "length (show_nat (getpid env)) < 60"
    and "cstr path" "d \<noteq> []" "name_ok n" "locate fs path = Inr q"
  shows "cstr (tmp_path env path)"
    and "locate fs (tmp_path env path) = Inr (butlast q @ [n @ ''.tmp.'' @ show_nat (getpid env)])"
    and "butlast q @ [n @ ''.tmp.'' @ show_nat (getpid env)] \<noteq> q"
    and "q = butlast q @ [n]" "locate fs d = Inr (butlast q)" "is_dir fs (butlast q)"
proof -
  let ?m = "n @ ''.tmp.'' @ show_nat (getpid env)"
  have tmp: "tmp_path env path = d @ CHR ''/'' # ?m"
    using tmp_path_plain [OF assms(2,3)] assms(1) by simp
  show "cstr (tmp_path env path)"
    unfolding tmp using assms(1,4) show_nat_plain(1) by simp
  have n: "n \<noteq> []" "n \<noteq> ''.''" "n \<noteq> ''..''" "CHR ''/'' \<notin> set n" using assms(6) by (auto simp: name_ok_def)
  have m: "?m \<noteq> []" "?m \<noteq> ''.''" "?m \<noteq> ''..''" "CHR ''/'' \<notin> set ?m"
    using n show_nat_plain(2) by (auto simp: append_eq_Cons_conv)
  from assms(7) locate_child [OF assms(5) n] obtain e where
    e: "locate fs d = Inr e" "is_dir fs e" "q = e @ [n]"
    unfolding assms(1) by (auto split: sum.splits option.splits kind.splits)
  then show "q = butlast q @ [n]" "locate fs d = Inr (butlast q)" "is_dir fs (butlast q)" by auto
  show "locate fs (tmp_path env path) = Inr (butlast q @ [?m])"
    unfolding tmp locate_child [OF assms(5) m] using e by simp
  show "butlast q @ [?m] \<noteq> q" using e by simp
qed

section \<open>Without failures the directories are made\<close>

lemma mkdirs_append:
  "mkdirs env fs (xs @ ys) = (case mkdirs env fs xs of (fs', ok) \<Rightarrow> if ok then mkdirs env fs' ys else (fs', False))"
  by (induction xs arbitrary: fs) (auto split: option.splits)

lemma slash_cuts_plain: "CHR ''/'' \<notin> set n \<Longrightarrow> slash_cuts n = []"
  by (auto simp: slash_cuts_def filter_empty_conv in_set_conv_nth)

lemma slash_cuts_child:
  assumes "CHR ''/'' \<notin> set n" "b \<noteq> []"
  shows "slash_cuts (b @ CHR ''/'' # n) = slash_cuts b @ [b]"
proof -
  let ?p = "b @ CHR ''/'' # n"
  have l: "[1..<length ?p] = [1..<length b] @ [length b] @ [Suc (length b)..<length ?p]"
  proof -
    have "[1..<length ?p] = [1..<length b] @ [length b..<length ?p]"
      using assms(2) upt_add_eq_append [of 1 "length b" "length ?p - length b"]
      by (cases b) simp_all
    then show ?thesis by (simp add: upt_conv_Cons del: upt_Suc)
  qed
  have "filter (\<lambda>i. ?p ! i = CHR ''/'') [Suc (length b)..<length ?p] = []"
    using assms(1) by (auto simp: filter_empty_conv nth_append nth_Cons' in_set_conv_nth)
  moreover have "filter (\<lambda>i. ?p ! i = CHR ''/'') [1..<length b] = filter (\<lambda>i. b ! i = CHR ''/'') [1..<length b]"
    by (rule filter_cong) (auto simp: nth_append)
  ultimately show ?thesis
    unfolding slash_cuts_def l by (simp add: nth_append del: upt_Suc)
qed

text \<open>The step for one directory, when nothing but a directory is in its place.\<close>

definition dir_added :: "path \<Rightarrow> (path \<Rightarrow> kind option) \<Rightarrow> path \<Rightarrow> kind option" where
  "dir_added q m = (\<lambda>x. if prefix x q then Some Dir else m x)"

lemma mkdir_or_dir_ok:
  assumes "no_faults env" "locate fs d = Inr q" "fs_at fs q = None \<or> is_dir fs q" "q = [] \<or> is_dir fs (butlast q)"
  shows "\<exists>fs'. mkdir_or_dir env fs d = Some fs' \<and> fs_at fs' = (fs_at fs)(q \<mapsto> Dir)"
proof (cases "is_dir fs q")
  case True
  then have "mkdir_or_dir env fs d = Some fs"
    using assms by (simp add: mkdir_or_dir_def c_mkdir_def sys_path_def c_stat_def S_ISDIR_def)
  then show ?thesis using True by auto
next
  case False
  with assms have n: "fs_at fs q = None" "q \<noteq> []" by auto
  then have "c_mkdir env fs d = Inr (fs_put q Dir fs)"
    using assms by (simp add: c_mkdir_def sys_path_def)
  with n show ?thesis by (simp add: mkdir_or_dir_def)
qed

lemma mkdir_p_ok:
  assumes "no_faults env" "fs_wf fs" "p \<noteq> []" "''..'' \<notin> set (path_parts p)" "cstr p"
    and "\<And>x. prefix x (path_parts p) \<Longrightarrow> fs_at fs x = None \<or> is_dir fs x"
  shows "\<exists>fs'. mkdirs env fs (slash_cuts p @ [p]) = (fs', True)
    \<and> fs_at fs' = dir_added (path_parts p) (fs_at fs)"
  using assms(3-6)
proof (induction "length p" arbitrary: p rule: less_induct)
  case less
  show ?case
  proof (cases "\<exists>b n. p = b @ CHR ''/'' # n \<and> CHR ''/'' \<notin> set n \<and> b \<noteq> []")
    case True
    then obtain b n where p: "p = b @ CHR ''/'' # n" "CHR ''/'' \<notin> set n" "b \<noteq> []" by blast
    have parts: "path_parts p = path_parts b @ path_parts n" using p by simp
    obtain fs1 where fs1: "mkdirs env fs (slash_cuts b @ [b]) = (fs1, True)"
      "fs_at fs1 = dir_added (path_parts b) (fs_at fs)"
      using less.hyps [of b] less.prems p parts by (auto simp: prefix_append)
    have wf1: "fs_wf fs1"
      using mkdirs_result [OF fs1(1)] assms(2) less.prems(3) p by (auto simp: slash_cuts_def)
    have db: "is_dir fs1 (path_parts b)" by (simp add: fs1(2) dir_added_def)
    have pn: "path_parts n = (if n = [] \<or> n = ''.'' then [] else [n])"
      using p(2) by (auto simp: path_parts_def)
    have bl: "path_parts p = [] \<or> is_dir fs1 (butlast (path_parts p))"
      unfolding parts pn by (auto simp: fs1(2) dir_added_def prefixeq_butlast)
    have loc: "locate fs1 p = Inr (path_parts p)"
      by (rule locate_plain [OF wf1 less.prems(1) refl less.prems(2) bl])
    have free: "fs_at fs1 (path_parts p) = None \<or> is_dir fs1 (path_parts p)"
      using less.prems(4) by (simp add: fs1(2) dir_added_def)
    from mkdir_or_dir_ok [OF assms(1) loc free bl] obtain fs2 where
      fs2: "mkdir_or_dir env fs1 p = Some fs2" "fs_at fs2 = (fs_at fs1)(path_parts p \<mapsto> Dir)" by blast
    have "mkdirs env fs (slash_cuts p @ [p]) = (fs2, True)"
      using slash_cuts_child [OF p(2,3)] fs1(1) fs2(1) p(1) mkdirs_append [of env fs "slash_cuts b @ [b]" "[p]"]
      by simp
    moreover have "fs_at fs2 = dir_added (path_parts p) (fs_at fs)"
      unfolding fs2(2) fs1(2) parts pn by (rule ext) (auto simp: dir_added_def)
    ultimately show ?thesis by blast
  next
    case False
    have cuts: "slash_cuts p = []"
    proof (cases "CHR ''/'' \<in> set p")
      case True
      then obtain b n where p: "p = b @ CHR ''/'' # n" "CHR ''/'' \<notin> set n" by (meson split_list_last)
      with False have "b = []" by blast
      with p show ?thesis
        by (auto simp: slash_cuts_def filter_empty_conv nth_Cons' in_set_conv_nth)
    qed (rule slash_cuts_plain)
    have single: "length (path_parts p) \<le> 1"
    proof (cases "CHR ''/'' \<in> set p")
      case True
      then obtain b n where p: "p = b @ CHR ''/'' # n" "CHR ''/'' \<notin> set n" by (meson split_list_last)
      with False have "b = []" by blast
      with p show ?thesis by (simp add: path_parts_def)
    qed (simp add: path_parts_def)
    then have bl: "path_parts p = [] \<or> is_dir fs (butlast (path_parts p))"
      by (cases "path_parts p" rule: rev_cases) auto
    have loc: "locate fs p = Inr (path_parts p)"
      by (rule locate_plain [OF assms(2) less.prems(1) refl less.prems(2) bl])
    from mkdir_or_dir_ok [OF assms(1) loc less.prems(4) bl] obtain fs2 where
      fs2: "mkdir_or_dir env fs p = Some fs2" "fs_at fs2 = (fs_at fs)(path_parts p \<mapsto> Dir)" by auto
    have "fs_at fs2 = dir_added (path_parts p) (fs_at fs)"
      unfolding fs2(2) using single
      by (cases "path_parts p" rule: rev_cases) (auto simp: dir_added_def fun_eq_iff prefix_Cons)
    with fs2(1) cuts show ?thesis by simp
  qed
qed

text \<open>Without failures a file can be replaced wherever it lies in a directory.\<close>

definition writable :: "fs \<Rightarrow> path \<Rightarrow> bool" where
  "writable fs q \<longleftrightarrow> is_dir fs (butlast q) \<and> (fs_at fs q = None \<or> (\<exists>s. fs_at fs q = Some (Reg s)))"

lemma c_write_file_ok:
  assumes "no_faults env" "locate fs p = Inr q" "writable fs q"
  shows "c_write_file env fs p s = Some (fs_put q (Reg s) fs, True)"
  using assms by (auto simp: c_write_file_def sys_path_def writable_def)

lemma replace_file_ok:
  assumes "no_faults env" "fs_wf fs" "locate fs (tmp_path env path) = Inr t" "locate fs path = Inr q" "t \<noteq> q"
    and "writable fs t" "writable fs q"
  shows "snd (replace_file env fs path s)"
proof -
  let ?fs1 = "fs_put t (Reg s) fs"
  have t: "t \<noteq> []" "q \<noteq> []" using assms(6,7) by (auto simp: writable_def)
  have d: "is_dir ?fs1 x" if "is_dir fs x" for x using that assms(6) t(1) by (auto simp: writable_def)
  have l: "locate ?fs1 (tmp_path env path) = Inr t" "locate ?fs1 path = Inr q"
    using locate_dirs_mono [OF d] assms(3,4) by blast+
  have at: "fs_at ?fs1 t = Some (Reg s)" "fs_at ?fs1 q = fs_at fs q" using t assms(5) by simp_all
  have below: "fs_at fs (x @ r) = None" if "writable fs x" "r \<noteq> []" for x r
    using fs_no_child [OF assms(2), of x r] that by (auto simp: writable_def)
  have "\<not> prefix t q" "\<not> prefix q t"
  proof -
    show "\<not> prefix t q"
    proof
      assume "prefix t q"
      then obtain r where r: "q = t @ r" "r \<noteq> []" using assms(5) by (auto simp: prefix_def)
      then have "butlast q = t @ butlast r" by (simp add: butlast_append)
      with assms(7) below [OF assms(6), of "butlast r"] assms(6) show False
        by (cases "butlast r = []") (auto simp: writable_def)
    qed
    show "\<not> prefix q t"
    proof
      assume "prefix q t"
      then obtain r where r: "t = q @ r" "r \<noteq> []" using assms(5) by (auto simp: prefix_def)
      then have "butlast t = q @ butlast r" by (simp add: butlast_append)
      with assms(6) below [OF assms(7), of "butlast r"] assms(7) show False
        by (cases "butlast r = []") (auto simp: writable_def)
    qed
  qed
  moreover have "is_dir ?fs1 (butlast q)" using d assms(7) by (auto simp: writable_def)
  ultimately have "\<exists>fs2. c_rename env ?fs1 (tmp_path env path) path = Inr fs2"
    using assms(1,5,7) l at by (auto simp: c_rename_def sys_path_def writable_def S_ISDIR_def)
  then show ?thesis
    using c_write_file_ok [OF assms(1,3,6)] by (auto simp: replace_file_def commit_file_def)
qed

end
