(* ===== verification/Skill_Usage.thy ===== *)
theory Skill_Usage
  imports Skill_Json Skill_Store
begin

text \<open>
  Usage telemetry (\<open>skill.c\<close>): the sidecar \<open>.usage.json\<close> beside the skills, what is read
  from it and the two operations that update it under a lock.

  cJSON is the parameter \<open>J\<close>, see \<open>Skill_Json\<close>. A result of 0 or -1 is True or False.
\<close>

section \<open>Reading values\<close>

text \<open>The test macros on a pointer that may be NULL.\<close>

definition is_object :: "'j cjson \<Rightarrow> 'j option \<Rightarrow> bool" where
  "is_object J v = (case v of None \<Rightarrow> False | Some x \<Rightarrow> cj_is_object J x)"

definition string_of :: "'j cjson \<Rightarrow> 'j option \<Rightarrow> string option" where
  "string_of J v = (case v of None \<Rightarrow> None | Some x \<Rightarrow> cj_string J x)"

definition number_of :: "'j cjson \<Rightarrow> 'j option \<Rightarrow> rat option" where
  "number_of J v = (case v of None \<Rightarrow> None | Some x \<Rightarrow> cj_number J x)"

definition is_true :: "'j cjson \<Rightarrow> 'j option \<Rightarrow> bool" where
  "is_true J v = (case v of None \<Rightarrow> False | Some x \<Rightarrow> cj_is_true J x)"

text \<open>
  The conversion of a double to an int drops the fraction; what it gives when the rest is no
  int, and what the increment of the largest int gives, is up to the machine.
\<close>

definition c_trunc :: "rat \<Rightarrow> int" where
  "c_trunc r = (if 0 \<le> r then \<lfloor>r\<rfloor> else \<lceil>r\<rceil>)"

lemma c_trunc_int [simp]: "c_trunc (of_int n) = n"
  by (simp add: c_trunc_def)

lemma c_trunc_signed [simp]: "c_trunc (signed w) = sint w" for w :: "32 word"
  using c_trunc_int [of "sint w"] by simp

definition c_succ :: "env \<Rightarrow> 32 word \<Rightarrow> 32 word" where
  "c_succ env w = c_int env (sint w + 1)"

lemma sint_c_succ: "sint w < 2147483647 \<Longrightarrow> sint (c_succ env w) = sint w + 1"
  using sint_fits [of w] unfolding c_succ_def fits_int_def by (intro sint_c_int) (simp add: fits_int_def)

definition skill_json_int :: "'j cjson \<Rightarrow> env \<Rightarrow> 'j \<Rightarrow> string \<Rightarrow> 32 word" where
  "skill_json_int J env obj key =
     (case number_of J (cj_get J obj key) of None \<Rightarrow> 0 | Some r \<Rightarrow> c_int env (c_trunc r))"

text \<open>The buffer keeps what it holds when the key is no string.\<close>

definition skill_json_copy :: "'j cjson \<Rightarrow> 'j \<Rightarrow> string \<Rightarrow> nat \<Rightarrow> string \<Rightarrow> string" where
  "skill_json_copy J obj key out_len out =
     (if out_len = 0 then out
      else case string_of J (cj_get J obj key) of None \<Rightarrow> out | Some s \<Rightarrow> c_buf out_len s)"

definition skill_json_set_string :: "'j cjson \<Rightarrow> string \<Rightarrow> string \<Rightarrow> 'j \<Rightarrow> 'j" where
  "skill_json_set_string J key val obj =
     (let existing = cj_get J obj key in
      if string_of J existing \<noteq> None then cj_child_put J obj key (cj_mk_string J val)
      else if existing \<noteq> None then cj_replace J obj key (cj_mk_string J val)
      else cj_add J obj key (cj_mk_string J val))"

definition skill_json_set_number :: "'j cjson \<Rightarrow> string \<Rightarrow> 32 word \<Rightarrow> 'j \<Rightarrow> 'j" where
  "skill_json_set_number J key val obj =
     (let existing = cj_get J obj key in
      if number_of J existing \<noteq> None then cj_child_put J obj key (cj_mk_number J (of_int (sint val)))
      else if existing \<noteq> None then cj_replace J obj key (cj_mk_number J (of_int (sint val)))
      else cj_add J obj key (cj_mk_number J (of_int (sint val))))"

section \<open>The sidecar\<close>

record skill_usage_t =
  use_count :: "32 word"
  view_count :: "32 word"
  patch_count :: "32 word"
  pinned :: bool
  created_at :: string
  last_used_at :: string
  last_patched_at :: string
  state :: string
  created_by :: string

definition skill_usage_default :: skill_usage_t where
  "skill_usage_default = \<lparr>use_count = 0, view_count = 0, patch_count = 0, pinned = False,
     created_at = [], last_used_at = [], last_patched_at = [],
     state = ''active'', created_by = ''user''\<rparr>"

definition skill_usage_path_source ::
  "env \<Rightarrow> fs \<Rightarrow> string option \<Rightarrow> string option \<Rightarrow> nat \<Rightarrow> (string \<times> skill_source_t) option" where
  "skill_usage_path_source env fs project_root name usage_path_len =
     (if usage_path_len = 0 then None
      else case skill_resolve_path env fs project_root name SKILL_PATH_MAX of
        None \<Rightarrow> None
      | Some (skill_file, source) \<Rightarrow>
          (case c_strrchr skill_file (CHR ''/'') of
             None \<Rightarrow> None
           | Some i \<Rightarrow> Some (c_buf usage_path_len (take i skill_file @ ''/.usage.json''), source)))"

definition skill_usage_load_root :: "'j cjson \<Rightarrow> env \<Rightarrow> fs \<Rightarrow> string \<Rightarrow> 'j option" where
  "skill_usage_load_root J env fs path =
     (case skill_read_file env fs path of
        None \<Rightarrow> cj_create_object J
      | Some text \<Rightarrow>
          (let rt = cj_parse J text in
           if is_object J rt then rt else cj_create_object J))"

definition skill_usage_write_root :: "'j cjson \<Rightarrow> env \<Rightarrow> fs \<Rightarrow> string \<Rightarrow> 'j \<Rightarrow> fs \<times> bool" where
  "skill_usage_write_root J env fs path rt =
     (case cj_print J rt of
        None \<Rightarrow> (fs, False)
      | Some rendered \<Rightarrow> replace_file env fs path (rendered @ [nl]))"

text \<open>
  The lock is a file beside the sidecar, made when it is missing. The result is the new state
  and whether the lock is held.
\<close>

definition skill_usage_lock :: "env \<Rightarrow> fs \<Rightarrow> string \<Rightarrow> fs \<times> bool" where
  "skill_usage_lock env fs path =
     (let lock_path = c_buf (SKILL_PATH_MAX + 16) (path @ ''.lock'') in
      case sys_path env Fopen_w fs lock_path of
        Inl e \<Rightarrow> (fs, False)
      | Inr q \<Rightarrow>
          (case (case fs_at fs q of
                   None \<Rightarrow> if is_dir fs (butlast q) then Some (fs_put q (Reg []) fs) else None
                 | Some (Reg s) \<Rightarrow> Some fs
                 | _ \<Rightarrow> None) of
             None \<Rightarrow> (fs, False)
           | Some fs' \<Rightarrow> (fs', \<not> fault env Flock lock_path)))"

definition skill_usage_get ::
  "'j cjson \<Rightarrow> env \<Rightarrow> fs \<Rightarrow> string option \<Rightarrow> string option \<Rightarrow> skill_usage_t option" where
  "skill_usage_get J env fs project_root name =
     (if \<not> given name then None
      else case skill_usage_path_source env fs project_root name SKILL_PATH_MAX of
        None \<Rightarrow> None
      | Some (path, source) \<Rightarrow>
          let out = (if source = SKILL_SOURCE_BUNDLED
                     then skill_usage_default\<lparr>pinned := True, created_by := c_buf 16 ''bundled''\<rparr>
                     else skill_usage_default) in
          (case skill_read_file env fs path of
             None \<Rightarrow> Some out
           | Some text \<Rightarrow>
               (let rt = cj_parse J text in
                if \<not> is_object J rt then Some out
                else let obj = cj_get J (the rt) (the name) in
                  if \<not> is_object J obj then Some out
                  else let ob = the obj;
                      st = skill_json_copy J ob ''state'' 16 (state out);
                      cb = skill_json_copy J ob ''created_by'' 16 (created_by out) in
                    Some \<lparr>use_count = skill_json_int J env ob ''use_count'',
                      view_count = skill_json_int J env ob ''view_count'',
                      patch_count = skill_json_int J env ob ''patch_count'',
                      pinned = is_true J (cj_get J ob ''pinned''),
                      created_at = skill_json_copy J ob ''created_at'' 32 (created_at out),
                      last_used_at = skill_json_copy J ob ''last_used_at'' 32 (last_used_at out),
                      last_patched_at = skill_json_copy J ob ''last_patched_at'' 32 (last_patched_at out),
                      state = (if st = [] then ''active'' else st),
                      created_by = (if cb = [] then ''user'' else cb)\<rparr>)))"

section \<open>Updating an entry\<close>

text \<open>
  What both writers do to the tree: the entry of the skill is changed in place, or a fresh one
  replaces whatever is there. \<open>fresh\<close> fills a new object and \<open>change k\<close> is the update, whose
  first reading of the clock is the k-th of the call.
\<close>

definition usage_update ::
  "'j cjson \<Rightarrow> 'j \<Rightarrow> string \<Rightarrow> ('j \<Rightarrow> 'j) \<Rightarrow> (nat \<Rightarrow> 'j \<Rightarrow> 'j) \<Rightarrow> 'j" where
  "usage_update J rt name fresh change =
     (if is_object J (cj_get J rt name)
      then cj_child_put J rt name (change 0 (the (cj_get J rt name)))
      else (let rt' = cj_delete J rt name in
        case cj_create_object J of
          None \<Rightarrow> rt'
        | Some obj \<Rightarrow> cj_add J rt' name (change 1 (fresh obj))))"

definition usage_fresh :: "'j cjson \<Rightarrow> env \<Rightarrow> string \<Rightarrow> 'j \<Rightarrow> 'j" where
  "usage_fresh J env creator obj =
     (let o1 = cj_add J obj ''created_at'' (cj_mk_string J (now_utc env 0));
          o2 = cj_add J o1 ''created_by'' (cj_mk_string J creator);
          o3 = cj_add J o2 ''state'' (cj_mk_string J ''active'');
          o4 = cj_add J o3 ''pinned'' (cj_mk_bool J False);
          o5 = cj_add J o4 ''use_count'' (cj_mk_number J 0);
          o6 = cj_add J o5 ''view_count'' (cj_mk_number J 0) in
      cj_add J o6 ''patch_count'' (cj_mk_number J 0))"

definition event_change :: "'j cjson \<Rightarrow> env \<Rightarrow> bool \<Rightarrow> bool \<Rightarrow> nat \<Rightarrow> 'j \<Rightarrow> 'j" where
  "event_change J env activation view k obj =
     (let o1 = (if activation then
                  skill_json_set_string J ''state'' ''active''
                    (skill_json_set_string J ''last_used_at'' (now_utc env k)
                      (skill_json_set_number J ''use_count'' (c_succ env (skill_json_int J env obj ''use_count'')) obj))
                else obj) in
      if view then skill_json_set_number J ''view_count'' (c_succ env (skill_json_int J env o1 ''view_count'')) o1
      else o1)"

text \<open>The arguments of a mutation; a pointer is None when it is NULL.\<close>

record mutation =
  actor :: "string option"
  bump_patch :: bool
  new_state :: "string option"
  set_pin :: "bool option"
  absorbed_into :: "string option"

definition mutation_change :: "'j cjson \<Rightarrow> env \<Rightarrow> mutation \<Rightarrow> nat \<Rightarrow> 'j \<Rightarrow> 'j" where
  "mutation_change J env mu k obj =
     (let ts = now_utc env k;
          o1 = (if bump_patch mu
                then skill_json_set_number J ''patch_count'' (c_succ env (skill_json_int J env obj ''patch_count'')) obj
                else obj);
          o2 = (if bump_patch mu \<or> new_state mu \<noteq> None
                then skill_json_set_string J ''last_patched_at'' ts o1 else o1);
          o3 = (case new_state mu of None \<Rightarrow> o2 | Some s \<Rightarrow> skill_json_set_string J ''state'' s o2);
          o4 = (if given (actor mu) \<and> cj_get J o3 ''created_by'' = None
                then skill_json_set_string J ''created_by'' (the (actor mu)) o3 else o3);
          o5 = (case set_pin mu of
                  None \<Rightarrow> o4
                | Some b \<Rightarrow>
                    if cj_get J o4 ''pinned'' \<noteq> None then cj_replace J o4 ''pinned'' (cj_mk_bool J b)
                    else cj_add J o4 ''pinned'' (cj_mk_bool J b)) in
      if given (absorbed_into mu)
      then skill_json_set_string J ''absorbed_into'' (the (absorbed_into mu)) o5 else o5)"

definition update_sidecar ::
  "'j cjson \<Rightarrow> env \<Rightarrow> fs \<Rightarrow> string \<Rightarrow> string \<Rightarrow> ('j \<Rightarrow> 'j) \<Rightarrow> (nat \<Rightarrow> 'j \<Rightarrow> 'j) \<Rightarrow> fs \<times> bool" where
  "update_sidecar J env fs path name fresh change =
     (case skill_usage_lock env fs path of
        (fs1, locked) \<Rightarrow>
          if \<not> locked then (fs1, False)
          else (case skill_usage_load_root J env fs1 path of
                  None \<Rightarrow> (fs1, False)
                | Some rt \<Rightarrow>
                    skill_usage_write_root J env fs1 path (usage_update J rt name fresh change)))"

definition skill_record_mutation ::
  "'j cjson \<Rightarrow> env \<Rightarrow> fs \<Rightarrow> string option \<Rightarrow> string option \<Rightarrow> mutation \<Rightarrow> fs \<times> bool" where
  "skill_record_mutation J env fs project_root name mu =
     (case skill_usage_path_source env fs project_root name SKILL_PATH_MAX of
        None \<Rightarrow> (fs, False)
      | Some (path, source) \<Rightarrow>
          if source = SKILL_SOURCE_BUNDLED then (fs, False)
          else update_sidecar J env fs path (the name)
                 (usage_fresh J env (if given (actor mu) then the (actor mu) else ''user''))
                 (mutation_change J env mu))"

definition skill_record_event ::
  "'j cjson \<Rightarrow> env \<Rightarrow> fs \<Rightarrow> string option \<Rightarrow> string option \<Rightarrow> bool \<Rightarrow> bool \<Rightarrow> fs \<times> bool" where
  "skill_record_event J env fs project_root name activation view =
     (if \<not> given name then (fs, False)
      else case skill_usage_path_source env fs project_root name SKILL_PATH_MAX of
        None \<Rightarrow> (fs, False)
      | Some (path, source) \<Rightarrow>
          if source = SKILL_SOURCE_BUNDLED then (fs, True)
          else update_sidecar J env fs path (the name) (usage_fresh J env ''user'')
                 (event_change J env activation view))"

definition skill_record_activation where
  "skill_record_activation J env fs project_root name = skill_record_event J env fs project_root name True False"

definition skill_record_view where
  "skill_record_view J env fs project_root name = skill_record_event J env fs project_root name False True"

definition no_mutation :: mutation where
  "no_mutation = \<lparr>actor = None, bump_patch = False, new_state = None, set_pin = None, absorbed_into = None\<rparr>"

definition skill_set_pinned ::
  "'j cjson \<Rightarrow> env \<Rightarrow> fs \<Rightarrow> string option \<Rightarrow> string option \<Rightarrow> bool \<Rightarrow> fs \<times> bool" where
  "skill_set_pinned J env fs project_root name pin =
     skill_record_mutation J env fs project_root name (no_mutation\<lparr>set_pin := Some pin\<rparr>)"

section \<open>What an update does to an entry\<close>

text \<open>A key whose value, if any, has the type the module writes.\<close>

definition string_or_none :: "'j cjson \<Rightarrow> 'j \<Rightarrow> string \<Rightarrow> bool" where
  "string_or_none J obj key \<longleftrightarrow> cj_get J obj key = None \<or> string_of J (cj_get J obj key) \<noteq> None"

definition number_or_none :: "'j cjson \<Rightarrow> 'j \<Rightarrow> string \<Rightarrow> bool" where
  "number_or_none J obj key \<longleftrightarrow> cj_get J obj key = None \<or> number_of J (cj_get J obj key) \<noteq> None"

lemma string_of_None [simp]: "string_of J None = None"
  by (simp add: string_of_def)

lemma number_of_None [simp]: "number_of J None = None"
  by (simp add: number_of_def)

lemma is_object_simps [simp]: "\<not> is_object J None" "is_object J (Some x) = cj_is_object J x"
  by (simp_all add: is_object_def)

lemma get_set_string:
  assumes "cjson_ok J" "cj_is_object J obj" "string_or_none J obj key"
  shows "cj_get J (skill_json_set_string J key v obj) l
    = (if l = key then Some (cj_mk_string J v) else cj_get J obj l)"
proof (cases "string_of J (cj_get J obj key) = None")
  case True
  with assms(3) have "cj_get J obj key = None" by (simp add: string_or_none_def)
  with assms True show ?thesis by (simp add: skill_json_set_string_def cj_get_add)
next
  case False
  then have "cj_get J obj key \<noteq> None" by (metis string_of_None)
  with assms False show ?thesis
    by (simp add: skill_json_set_string_def cj_get_child_put del: not_None_eq)
qed

lemma get_set_number:
  assumes "cjson_ok J" "cj_is_object J obj" "number_or_none J obj key"
  shows "cj_get J (skill_json_set_number J key v obj) l
    = (if l = key then Some (cj_mk_number J (of_int (sint v))) else cj_get J obj l)"
proof (cases "number_of J (cj_get J obj key) = None")
  case True
  with assms(3) have "cj_get J obj key = None" by (simp add: number_or_none_def)
  with assms True show ?thesis by (simp add: skill_json_set_number_def cj_get_add)
next
  case False
  then have "cj_get J obj key \<noteq> None" by (metis number_of_None)
  with assms False show ?thesis
    by (simp add: skill_json_set_number_def cj_get_child_put del: not_None_eq)
qed

lemma set_object [simp]:
  "cjson_ok J \<Longrightarrow> cj_is_object J obj \<Longrightarrow> cj_is_object J (skill_json_set_string J key v obj)"
  "cjson_ok J \<Longrightarrow> cj_is_object J obj \<Longrightarrow> cj_is_object J (skill_json_set_number J key n obj)"
  by (simp_all add: skill_json_set_string_def skill_json_set_number_def Let_def)

text \<open>An entry as the module writes it.\<close>

definition entry_ok :: "'j cjson \<Rightarrow> 'j \<Rightarrow> bool" where
  "entry_ok J obj \<longleftrightarrow> cj_is_object J obj
     \<and> (\<forall>k \<in> {''created_at'', ''created_by'', ''state'', ''last_used_at'', ''last_patched_at'',
             ''absorbed_into''}. string_or_none J obj k)
     \<and> (\<forall>k \<in> {''use_count'', ''view_count'', ''patch_count''}. number_or_none J obj k)
     \<and> no_variant J obj ''pinned''"

lemma event_change_activation:
  assumes "cjson_ok J" "entry_ok J obj"
  shows "cj_get J (event_change J env True False k obj) l =
    (if l = ''use_count'' then Some (cj_mk_number J (of_int (sint (c_succ env (skill_json_int J env obj ''use_count'')))))
     else if l = ''last_used_at'' then Some (cj_mk_string J (now_utc env k))
     else if l = ''state'' then Some (cj_mk_string J ''active'')
     else cj_get J obj l)"
proof -
  let ?o1 = "skill_json_set_number J ''use_count'' (c_succ env (skill_json_int J env obj ''use_count'')) obj"
  let ?o2 = "skill_json_set_string J ''last_used_at'' (now_utc env k) ?o1"
  have o: "cj_is_object J obj" "number_or_none J obj ''use_count''"
    "string_or_none J obj ''last_used_at''" "string_or_none J obj ''state''"
    using assms(2) by (auto simp: entry_ok_def)
  note g1 = get_set_number [OF assms(1) o(1,2)]
  have s1: "string_or_none J ?o1 ''last_used_at''" using o(3) by (simp add: string_or_none_def g1)
  note g2 = get_set_string [OF assms(1) _ s1]
  have s2: "string_or_none J ?o2 ''state''" using assms(1) o by (simp add: string_or_none_def g1 g2)
  show ?thesis
    using assms(1) o by (auto simp: event_change_def Let_def get_set_string [OF assms(1) _ s2] g2 g1)
qed

lemma event_change_view:
  assumes "cjson_ok J" "entry_ok J obj"
  shows "cj_get J (event_change J env False True k obj) l =
    (if l = ''view_count'' then Some (cj_mk_number J (of_int (sint (c_succ env (skill_json_int J env obj ''view_count'')))))
     else cj_get J obj l)"
  using assms get_set_number [OF assms(1), of obj "''view_count''"]
  by (simp add: event_change_def entry_ok_def)

text \<open>A fresh entry.\<close>

definition fresh_value :: "'j cjson \<Rightarrow> env \<Rightarrow> string \<Rightarrow> string \<Rightarrow> 'j option" where
  "fresh_value J env creator l =
     (if l = ''created_at'' then Some (cj_mk_string J (now_utc env 0))
      else if l = ''created_by'' then Some (cj_mk_string J creator)
      else if l = ''state'' then Some (cj_mk_string J ''active'')
      else if l = ''pinned'' then Some (cj_mk_bool J False)
      else if l \<in> {''use_count'', ''view_count'', ''patch_count''} then Some (cj_mk_number J 0)
      else None)"

lemma get_usage_fresh:
  assumes "cjson_ok J" "cj_create_object J = Some obj"
  shows "cj_is_object J (usage_fresh J env creator obj)"
    and "cj_get J (usage_fresh J env creator obj) l = fresh_value J env creator l"
proof -
  note c = cj_created [OF assms]
  show "cj_is_object J (usage_fresh J env creator obj)"
    using assms(1) c(1) by (simp add: usage_fresh_def)
  show "cj_get J (usage_fresh J env creator obj) l = fresh_value J env creator l"
    using assms(1) c by (simp add: usage_fresh_def fresh_value_def Let_def cj_get_add)
qed

lemma entry_ok_fresh:
  assumes "cjson_ok J" "cj_create_object J = Some obj"
  shows "entry_ok J (usage_fresh J env creator obj)"
proof -
  have var: "fresh_value J env creator l = None" if "same_key ''pinned'' l" "l \<noteq> ''pinned''" for l
  proof -
    have "length l = length ''pinned''"
      using that(1) unfolding same_key_def by (metis length_map)
    then have "length l = 6" by simp
    then have "l \<noteq> ''created_at''" "l \<noteq> ''created_by''" "l \<noteq> ''state''" "l \<noteq> ''use_count''"
      "l \<noteq> ''view_count''" "l \<noteq> ''patch_count''" by auto
    then show ?thesis using that(2) by (simp add: fresh_value_def)
  qed
  note g = get_usage_fresh [OF assms, of env creator]
  have "no_variant J (usage_fresh J env creator obj) ''pinned''"
    unfolding no_variant_def g(2) using var by blast
  moreover have "string_or_none J (usage_fresh J env creator obj) k"
    if "k \<in> {''created_at'', ''created_by'', ''state'', ''last_used_at'', ''last_patched_at'', ''absorbed_into''}" for k
    using that assms(1) by (auto simp: string_or_none_def string_of_def g(2) fresh_value_def)
  moreover have "number_or_none J (usage_fresh J env creator obj) k"
    if "k \<in> {''use_count'', ''view_count'', ''patch_count''}" for k
    using that assms(1) by (auto simp: number_or_none_def number_of_def g(2) fresh_value_def)
  ultimately show ?thesis using g(1) unfolding entry_ok_def by blast
qed

end
