(* ===== verification/Skill_Manage.thy ===== *)
theory Skill_Manage
  imports Skill_Usage Skill_Poison Skill_Patch
begin

text \<open>
  The operations that change project skills (\<open>skill.c\<close>): create, import, edit, patch, archive
  and the support files, and \<open>skill_inject\<close>, which adds a skill to a prompt.

  An operation returns the new file system and its outcome: \<open>Inr\<close> for 0, \<open>Inl (Some msg)\<close> for
  -1 with a message given to \<open>skill_set_err\<close>, \<open>Inl None\<close> for -1 that leaves the error buffer
  alone.
\<close>

type_synonym 'a outcome = "string option + 'a"

abbreviation failed :: "string \<Rightarrow> 'a outcome" where "failed msg \<equiv> Inl (Some msg)"

section \<open>Creating and importing\<close>

definition lint_message :: "lint_state \<Rightarrow> string" where
  "lint_message st = (if fst st \<noteq> [] then fst st else ''skill lint failed'')"

definition skill_manage_create ::
  "'j cjson \<Rightarrow> env \<Rightarrow> fs \<Rightarrow> string option \<Rightarrow> string option \<Rightarrow> string option \<Rightarrow> string option
   \<Rightarrow> fs \<times> unit outcome" where
  "skill_manage_create J env fs project_root name content creator =
     (case skill_project_path project_root name SKILL_PATH_MAX of
        None \<Rightarrow> (fs, failed ''invalid skill name or project root'')
      | Some path \<Rightarrow>
          (case skill_body_poison_check content of
             Some msg \<Rightarrow> (fs, failed msg)
           | None \<Rightarrow>
               let lint = skill_lint_content name content 512 in
               if snd lint \<noteq> 0 then (fs, failed (lint_message lint))
               else if c_access env fs path then (fs, failed ''skill already exists'')
               else
                 (case skill_mkdir_p env fs (project_skills (the project_root)) of
                    (fs1, made) \<Rightarrow>
                      if \<not> made then (fs1, failed ''failed to write skill'')
                      else
                        (case skill_write_text_file env fs1 path content SKILL_MAX_SIZE of
                           (fs2, done) \<Rightarrow>
                             if \<not> done then (fs2, failed ''failed to write skill'')
                             else
                               (fst (skill_record_mutation J env fs2 project_root name
                                       (no_mutation\<lparr>actor := creator, new_state := Some ''active''\<rparr>)),
                                Inr ())))))"

text \<open>With 0 comes the name it puts into the caller's buffer, if there is one.\<close>

definition skill_import_content ::
  "'j cjson \<Rightarrow> env \<Rightarrow> fs \<Rightarrow> string option \<Rightarrow> string option \<Rightarrow> string option \<Rightarrow> nat
   \<Rightarrow> fs \<times> string outcome" where
  "skill_import_content J env fs project_root content creator name_out_len =
     (if \<not> given content then (fs, failed ''skill content is required'')
      else let c = the content in
        if \<not> fm_opens c then (fs, failed ''skill import requires frontmatter'')
        else
          (case fm_header c of
             None \<Rightarrow> (fs, failed ''skill import has unterminated frontmatter'')
           | Some (start, header_len) \<Rightarrow>
               (case skill_lint_line_value (take header_len (drop start c)) ''name'' SKILL_NAME_MAX of
                  (found, name) \<Rightarrow>
                    if \<not> found \<or> name = [] then (fs, failed ''skill import frontmatter missing name'')
                    else
                      (case skill_manage_create J env fs project_root (Some name) content creator of
                         (fs', Inl e) \<Rightarrow> (fs', Inl e)
                       | (fs', Inr u) \<Rightarrow> (fs', Inr (c_buf name_out_len name))))))"

section \<open>Editing and patching\<close>

definition mutation_outcome :: "fs \<times> bool \<Rightarrow> fs \<times> unit outcome" where
  "mutation_outcome r = (fst r, if snd r then Inr () else Inl None)"

definition skill_manage_edit ::
  "'j cjson \<Rightarrow> env \<Rightarrow> fs \<Rightarrow> string option \<Rightarrow> string option \<Rightarrow> string option \<Rightarrow> string option
   \<Rightarrow> fs \<times> unit outcome" where
  "skill_manage_edit J env fs project_root name content updated_by =
     (case skill_project_path project_root name SKILL_PATH_MAX of
        None \<Rightarrow> (fs, failed ''skill not found'')
      | Some path \<Rightarrow>
          if \<not> c_access env fs path then (fs, failed ''skill not found'')
          else
            let lint = skill_lint_content name content 512 in
            if snd lint \<noteq> 0 then (fs, failed (lint_message lint))
            else
              (case skill_write_text_file env fs path content SKILL_MAX_SIZE of
                 (fs1, done) \<Rightarrow>
                   if \<not> done then (fs1, failed ''failed to write skill'')
                   else mutation_outcome (skill_record_mutation J env fs1 project_root name
                          (no_mutation\<lparr>actor := updated_by, bump_patch := True,
                             new_state := Some ''active''\<rparr>))))"

definition skill_manage_patch ::
  "'j cjson \<Rightarrow> env \<Rightarrow> fs \<Rightarrow> string option \<Rightarrow> string option \<Rightarrow> string option \<Rightarrow> string option \<Rightarrow> bool
   \<Rightarrow> string option \<Rightarrow> fs \<times> unit outcome" where
  "skill_manage_patch J env fs project_root name old_string new_string replace_all updated_by =
     (case skill_load env fs project_root name of
        None \<Rightarrow> (fs, failed ''skill not found'')
      | Some content \<Rightarrow>
          if \<not> given old_string \<or> new_string = None
          then (fs, failed ''old_string and new_string are required'')
          else
            (case patch_loop replace_all (the old_string) (the new_string) content 0 of
               (hits, pieces) \<Rightarrow>
                 (case dstr_steal env pieces of
                    None \<Rightarrow> (fs, failed ''old_string not found'')
                  | Some patched \<Rightarrow>
                      if hits = 0 then (fs, failed ''old_string not found'')
                      else skill_manage_edit J env fs project_root name (Some patched) updated_by)))"

section \<open>Archiving\<close>

definition archive_dir :: "string \<Rightarrow> string" where
  "archive_dir project_root = c_buf SKILL_PATH_MAX (project_root @ ''/.aimee/skills/.archive'')"

definition archive_path :: "string \<Rightarrow> string \<Rightarrow> string" where
  "archive_path project_root name = c_buf SKILL_PATH_MAX (archive_dir project_root @ ''/'' @ name @ ''.md'')"

definition skill_manage_archive ::
  "'j cjson \<Rightarrow> env \<Rightarrow> fs \<Rightarrow> string option \<Rightarrow> string option \<Rightarrow> string option \<Rightarrow> fs \<times> unit outcome" where
  "skill_manage_archive J env fs project_root name absorbed =
     (case skill_usage_get J env fs project_root name of
        None \<Rightarrow> (fs, failed ''skill not found'')
      | Some usage \<Rightarrow>
          if pinned usage then (fs, failed ''pinned skills cannot be archived'')
          else
            (case skill_project_path project_root name SKILL_PATH_MAX of
               None \<Rightarrow> (fs, failed ''skill not found'')
             | Some path \<Rightarrow>
                 if \<not> c_access env fs path then (fs, failed ''skill not found'')
                 else
                   let dst = archive_path (the project_root) (the name) in
                   (case skill_mkdir_p env fs (archive_dir (the project_root)) of
                      (fs1, made) \<Rightarrow>
                        if \<not> made \<or> c_access env fs1 dst then (fs1, failed ''failed to archive skill'')
                        else
                          (case skill_record_mutation J env fs1 project_root name
                                  (no_mutation\<lparr>bump_patch := True, new_state := Some ''archived'',
                                     absorbed_into := absorbed\<rparr>) of
                             (fs2, recorded) \<Rightarrow>
                               if \<not> recorded then (fs2, failed ''failed to archive skill'')
                               else
                                 (case c_rename env fs2 path dst of
                                    Inl e \<Rightarrow> (fs2, failed ''failed to archive skill'')
                                  | Inr fs3 \<Rightarrow> (fs3, Inr ()))))))"

section \<open>Support files\<close>

definition support_path :: "string \<Rightarrow> string \<Rightarrow> string" where
  "support_path project_root file_path =
     c_buf SKILL_PATH_MAX (project_root @ ''/.aimee/skills/'' @ file_path)"

definition skill_manage_write_file ::
  "'j cjson \<Rightarrow> env \<Rightarrow> fs \<Rightarrow> string option \<Rightarrow> string option \<Rightarrow> string option \<Rightarrow> string option
   \<Rightarrow> string option \<Rightarrow> fs \<times> unit outcome" where
  "skill_manage_write_file J env fs project_root name file_path content updated_by =
     (case skill_project_path project_root name SKILL_PATH_MAX of
        None \<Rightarrow> (fs, failed ''skill not found'')
      | Some skill_file \<Rightarrow>
          if \<not> c_access env fs skill_file then (fs, failed ''skill not found'')
          else if \<not> skill_support_path_ok file_path then (fs, failed ''invalid support file path'')
          else
            let path = support_path (the project_root) (the file_path);
                dir = (case c_strrchr path (CHR ''/'') of None \<Rightarrow> path | Some i \<Rightarrow> take i path) in
            (case skill_mkdir_p env fs dir of
               (fs1, made) \<Rightarrow>
                 if \<not> made then (fs1, failed ''failed to write support file'')
                 else
                   (case skill_write_text_file env fs1 path content SKILL_SUPPORT_MAX_SIZE of
                      (fs2, done) \<Rightarrow>
                        if \<not> done then (fs2, failed ''failed to write support file'')
                        else mutation_outcome (skill_record_mutation J env fs2 project_root name
                               (no_mutation\<lparr>actor := updated_by, bump_patch := True,
                                  new_state := Some ''active''\<rparr>)))))"

definition skill_support_file_load ::
  "env \<Rightarrow> fs \<Rightarrow> string option \<Rightarrow> string option \<Rightarrow> string option \<Rightarrow> string outcome" where
  "skill_support_file_load env fs project_root name file_path =
     (case skill_resolve_path env fs project_root name SKILL_PATH_MAX of
        None \<Rightarrow> failed ''skill not found''
      | Some (skill_file, source) \<Rightarrow>
          if \<not> skill_support_path_ok file_path then failed ''invalid support file path''
          else
            (case c_strrchr skill_file (CHR ''/'') of
               None \<Rightarrow> failed ''skill not found''
             | Some i \<Rightarrow>
                 let path = c_buf SKILL_PATH_MAX (take i skill_file @ ''/'' @ the file_path) in
                 (case c_fopen_r env fs path of
                    Inl e \<Rightarrow> failed ''support file not found''
                  | Inr f \<Rightarrow>
                      if fault env Malloc path then failed ''out of memory''
                      else
                        (case c_fread env path f SKILL_SUPPORT_MAX_SIZE of
                           (buf, ferror) \<Rightarrow>
                             if ferror then failed ''failed to read support file''
                             else if length buf = SKILL_SUPPORT_MAX_SIZE
                                     \<and> length (fst (c_fread env path f (SKILL_SUPPORT_MAX_SIZE + 1)))
                                         > SKILL_SUPPORT_MAX_SIZE
                             then failed ''support file is too large''
                             else Inr (c_string buf)))))"

section \<open>Injecting a skill into a prompt\<close>

text \<open>The pieces appended to the output, in order.\<close>

definition inject_pieces :: "string option \<Rightarrow> string \<Rightarrow> string \<Rightarrow> string list" where
  "inject_pieces base_prompt skill_name content =
     (if given base_prompt
      then [the base_prompt] @ (if last (the base_prompt) \<noteq> nl then [[nl]] else []) @ [[nl]]
      else [])
     @ [''### ACTIVE SKILL: '' @ skill_name @ [nl], content]"

definition skill_inject ::
  "'j cjson \<Rightarrow> env \<Rightarrow> fs \<Rightarrow> skill_module \<Rightarrow> string option \<Rightarrow> string option \<Rightarrow> string option
   \<Rightarrow> fs \<times> skill_module \<times> string option" where
  "skill_inject J env fs m project_root base_prompt skill_name =
     (case skill_load env fs project_root skill_name of
        None \<Rightarrow> (fs, m, case base_prompt of None \<Rightarrow> None | Some b \<Rightarrow> safe_strdup env b)
      | Some content \<Rightarrow>
          let pieces = inject_pieces base_prompt (the skill_name) content;
              fs1 = fst (skill_record_activation J env fs project_root skill_name);
              m1 = skill_metrics_record_activation m in
          (fs1, m1,
           case dstr_steal env pieces of
             Some s \<Rightarrow> Some s
           | None \<Rightarrow> safe_strdup env (case base_prompt of None \<Rightarrow> [] | Some b \<Rightarrow> b)))"

end
