(* ===== verification/Skill_Lifecycle.thy ===== *)
theory Skill_Lifecycle
  imports Skill_Manage
begin

text \<open>
  The lifecycle pass of \<open>skill.c\<close>: the age of a timestamp, the skills of a project, and
  \<open>skill_lifecycle_apply\<close>, which marks old skills stale and archives older ones.
\<close>

section \<open>Timestamps\<close>

text \<open>
  \<open>%Nd\<close> of \<open>sscanf\<close>: white space is skipped, then at most N characters of an optional sign
  and digits are read. The format is \<open>%4d-%2d-%2dT%2d:%2d:%2dZ\<close>; the final \<open>Z\<close> follows the
  last conversion and does not count.
\<close>

fun digits_value :: "int \<Rightarrow> string \<Rightarrow> int" where
  "digits_value acc [] = acc"
| "digits_value acc (c # s) = digits_value (acc * 10 + (int (ord c) - 48)) s"

definition scan_int :: "nat \<Rightarrow> string \<Rightarrow> (int \<times> string) option" where
  "scan_int width s =
     (let p = dropWhile c_isspace s;
          signed = (p \<noteq> [] \<and> width > 0 \<and> (hd p = CHR ''+'' \<or> hd p = CHR ''-''));
          q = (if signed then tl p else p);
          ds = takeWhile c_isdigit (take (if signed then width - 1 else width) q) in
      if ds = [] then None
      else Some (if signed \<and> hd p = CHR ''-'' then - digits_value 0 ds else digits_value 0 ds,
                 drop (length ds) q))"

definition scan_char :: "char \<Rightarrow> string \<Rightarrow> string option" where
  "scan_char c s = (case s of [] \<Rightarrow> None | d # r \<Rightarrow> if d = c then Some r else None)"

definition scan_field :: "nat \<Rightarrow> char \<Rightarrow> string \<Rightarrow> (int \<times> string) option" where
  "scan_field width c s =
     (case scan_int width s of
        None \<Rightarrow> None
      | Some (v, r) \<Rightarrow> (case scan_char c r of None \<Rightarrow> None | Some t \<Rightarrow> Some (v, t)))"

definition scan_timestamp :: "string \<Rightarrow> (int \<times> int \<times> int \<times> int \<times> int \<times> int) option" where
  "scan_timestamp ts =
     (case scan_field 4 (CHR ''-'') ts of None \<Rightarrow> None | Some (year, s1) \<Rightarrow>
     (case scan_field 2 (CHR ''-'') s1 of None \<Rightarrow> None | Some (mon, s2) \<Rightarrow>
     (case scan_field 2 (CHR ''T'') s2 of None \<Rightarrow> None | Some (day, s3) \<Rightarrow>
     (case scan_field 2 (CHR '':'') s3 of None \<Rightarrow> None | Some (hour, s4) \<Rightarrow>
     (case scan_field 2 (CHR '':'') s4 of None \<Rightarrow> None | Some (mins, s5) \<Rightarrow>
     (case scan_int 2 s5 of None \<Rightarrow> None | Some (sec, s6) \<Rightarrow>
        Some (year, mon, day, hour, mins, sec)))))))"

text \<open>
  \<open>timegm\<close> of a broken-down time whose fields may be out of range: the month is carried into
  the year, the others are added as they are.
\<close>

definition leap_year :: "int \<Rightarrow> bool" where
  "leap_year y \<longleftrightarrow> y mod 4 = 0 \<and> (y mod 100 \<noteq> 0 \<or> y mod 400 = 0)"

definition days_before_year :: "int \<Rightarrow> int" where
  "days_before_year y = 365 * (y - 1970) + (y - 1) div 4 - (y - 1) div 100 + (y - 1) div 400 - 477"

definition days_before_month :: "int \<Rightarrow> int \<Rightarrow> int" where
  "days_before_month y m =
     [0, 31, 59, 90, 120, 151, 181, 212, 243, 273, 304, 334] ! nat m
     + (if 2 \<le> m \<and> leap_year y then 1 else 0)"

definition timegm :: "int \<Rightarrow> int \<Rightarrow> int \<Rightarrow> int \<Rightarrow> int \<Rightarrow> int \<Rightarrow> int" where
  "timegm year mon day hour mins sec =
     (let y = year + (mon - 1) div 12; m = (mon - 1) mod 12;
          days = days_before_year y + days_before_month y m + (day - 1) in
      ((days * 24 + hour) * 60 + mins) * 60 + sec)"

text \<open>The number of days is returned as an int: what does not fit wraps, as compilers do it.\<close>

definition skill_timestamp_age_days :: "string \<Rightarrow> int \<Rightarrow> int" where
  "skill_timestamp_age_days ts now =
     (if c_at ts 0 = nul then -1
      else case scan_timestamp ts of
        None \<Rightarrow> -1
      | Some (year, mon, day, hour, mins, sec) \<Rightarrow>
          let past = timegm year mon day hour mins sec in
          if past = -1 \<or> past > now then -1 else sint (word_of_int ((now - past) div 86400) :: 32 word))"

section \<open>The skills of a project\<close>

text \<open>The loop over the directory keeps the names in order and does not look for duplicates.\<close>

fun project_entries :: "nat \<Rightarrow> string list \<Rightarrow> string list \<Rightarrow> string list" where
  "project_entries max_names [] names = names"
| "project_entries max_names (ent # ents) names =
     (if length names < max_names
      then project_entries max_names ents
        (if ends_with_md ent \<and> length ent - 3 < SKILL_NAME_MAX
         then names @ [take (length ent - 3) ent] else names)
      else names)"

definition skill_project_list :: "env \<Rightarrow> fs \<Rightarrow> string option \<Rightarrow> nat \<Rightarrow> string list" where
  "skill_project_list env fs project_root max_names =
     (if \<not> given project_root \<or> max_names = 0 then []
      else case c_opendir env fs (project_skills (the project_root)) of
        Inl e \<Rightarrow> []
      | Inr ents \<Rightarrow> project_entries max_names ents [])"

section \<open>The pass\<close>

record lifecycle_result =
  considered :: nat
  stale_marked :: nat
  archived :: nat
  skipped_pinned :: nat
  errors :: nat

definition lifecycle_zero :: lifecycle_result where
  "lifecycle_zero = \<lparr>considered = 0, stale_marked = 0, archived = 0, skipped_pinned = 0, errors = 0\<rparr>"

text \<open>One round of the loop.\<close>

definition lifecycle_step ::
  "'j cjson \<Rightarrow> env \<Rightarrow> string option \<Rightarrow> int \<Rightarrow> int \<Rightarrow> string \<Rightarrow> fs \<times> lifecycle_result
   \<Rightarrow> fs \<times> lifecycle_result" where
  "lifecycle_step J env project_root stale_after_days archive_after_days name st =
     (case st of (fs, out0) \<Rightarrow>
      let out = out0\<lparr>considered := considered out0 + 1\<rparr> in
      (case skill_usage_get J env fs project_root (Some name) of
         None \<Rightarrow> (fs, out\<lparr>errors := errors out + 1\<rparr>)
       | Some usage \<Rightarrow>
           if pinned usage then (fs, out\<lparr>skipped_pinned := skipped_pinned out + 1\<rparr>)
           else
             let activity = (if last_used_at usage \<noteq> [] then last_used_at usage else created_at usage);
                 age_days = skill_timestamp_age_days activity (clock env) in
             if age_days < 0 then (fs, out)
             else if archive_after_days > 0 \<and> age_days \<ge> archive_after_days then
               (case skill_manage_archive J env fs project_root (Some name) None of
                  (fs', Inr u) \<Rightarrow> (fs', out\<lparr>archived := archived out + 1\<rparr>)
                | (fs', Inl e) \<Rightarrow> (fs', out\<lparr>errors := errors out + 1\<rparr>))
             else if stale_after_days > 0 \<and> age_days \<ge> stale_after_days \<and> state usage \<noteq> ''stale'' then
               (case skill_record_mutation J env fs project_root (Some name)
                       (no_mutation\<lparr>new_state := Some ''stale''\<rparr>) of
                  (fs', ok) \<Rightarrow>
                    (fs', if ok then out\<lparr>stale_marked := stale_marked out + 1\<rparr>
                          else out\<lparr>errors := errors out + 1\<rparr>))
             else (fs, out)))"

text \<open>\<open>has_out\<close> says whether the caller passed a result: without one no error is counted.\<close>

definition skill_lifecycle_apply ::
  "'j cjson \<Rightarrow> env \<Rightarrow> fs \<Rightarrow> string option \<Rightarrow> int \<Rightarrow> int \<Rightarrow> bool
   \<Rightarrow> fs \<times> lifecycle_result \<times> unit outcome" where
  "skill_lifecycle_apply J env fs project_root stale_after_days archive_after_days has_out =
     (if \<not> given project_root then (fs, lifecycle_zero, failed ''project root is required'')
      else
        (case fold (lifecycle_step J env project_root stale_after_days archive_after_days)
                (skill_project_list env fs project_root SKILL_MAX_SKILLS) (fs, lifecycle_zero) of
           (fs', out) \<Rightarrow>
             (fs', out,
              if has_out \<and> errors out > 0 then failed ''one or more skill lifecycle updates failed''
              else Inr ())))"

section \<open>What a pass counts\<close>

text \<open>
  Every skill is considered once, and at most one of the other counters is raised for it; the
  rest were neither old enough nor of a known age.
\<close>

definition lifecycle_tally :: "nat \<Rightarrow> lifecycle_result \<Rightarrow> bool" where
  "lifecycle_tally n out \<longleftrightarrow> considered out = n
     \<and> stale_marked out + archived out + skipped_pinned out + errors out \<le> n"

lemma lifecycle_step_tally:
  assumes "lifecycle_tally k (snd st)"
  shows "lifecycle_tally (Suc k) (snd (lifecycle_step J env pr stale_days archive_days name st))"
  using assms by (cases st) (auto simp: lifecycle_step_def lifecycle_tally_def Let_def
      split: option.splits prod.splits sum.splits)

lemma lifecycle_fold_tally:
  "lifecycle_tally k (snd st) \<Longrightarrow>
     lifecycle_tally (k + length names) (snd (fold (lifecycle_step J env pr a b) names st))"
proof (induction names arbitrary: st k)
  case (Cons n names)
  from Cons.IH [OF lifecycle_step_tally [OF Cons.prems, of J env pr a b n]] show ?case by simp
qed simp

lemma project_entries_length: "length names \<le> cap \<Longrightarrow> length (project_entries cap ents names) \<le> cap"
  by (induction cap ents names rule: project_entries.induct) auto

lemma skill_project_list_length: "length (skill_project_list env fs pr cap) \<le> cap"
  by (auto simp: skill_project_list_def project_entries_length split: sum.splits)

text \<open>What is done to one skill, by its telemetry and its age.\<close>

datatype lifecycle_action = Fail | Keep_pinned | Keep | Archive | Mark_stale

definition lifecycle_age :: "env \<Rightarrow> skill_usage_t \<Rightarrow> int" where
  "lifecycle_age env u =
     skill_timestamp_age_days (if last_used_at u \<noteq> [] then last_used_at u else created_at u) (clock env)"

definition lifecycle_action :: "env \<Rightarrow> int \<Rightarrow> int \<Rightarrow> skill_usage_t option \<Rightarrow> lifecycle_action" where
  "lifecycle_action env stale_days archive_days usage =
     (case usage of
        None \<Rightarrow> Fail
      | Some u \<Rightarrow>
          if pinned u then Keep_pinned
          else if lifecycle_age env u < 0 then Keep
          else if 0 < archive_days \<and> archive_days \<le> lifecycle_age env u then Archive
          else if 0 < stale_days \<and> stale_days \<le> lifecycle_age env u \<and> state u \<noteq> ''stale'' then Mark_stale
          else Keep)"

lemma lifecycle_step_action:
  "fst (lifecycle_step J env pr sd ad n (fs, out)) =
     (case lifecycle_action env sd ad (skill_usage_get J env fs pr (Some n)) of
        Archive \<Rightarrow> fst (skill_manage_archive J env fs pr (Some n) None)
      | Mark_stale \<Rightarrow> fst (skill_record_mutation J env fs pr (Some n) (no_mutation\<lparr>new_state := Some ''stale''\<rparr>))
      | _ \<Rightarrow> fs)"
  by (auto simp: lifecycle_step_def lifecycle_action_def lifecycle_age_def Let_def
      split: option.splits prod.splits sum.splits)

section \<open>Reading a timestamp\<close>

text \<open>Numbers with leading zeros, as the clock prints them.\<close>

fun pad_nat :: "nat \<Rightarrow> nat \<Rightarrow> string" where
  "pad_nat 0 n = []"
| "pad_nat (Suc w) n = pad_nat w (n div 10) @ [char_of (48 + n mod 10)]"

lemma pad_nat_length [simp]: "length (pad_nat w n) = w"
  by (induction w arbitrary: n) simp_all

lemma digit_char:
  assumes "d < (10::nat)"
  shows "c_isdigit (char_of (48 + d))" "int (ord (char_of (48 + d))) - 48 = int d"
    "\<not> c_isspace (char_of (48 + d))" "char_of (48 + d) \<noteq> CHR ''+''" "char_of (48 + d) \<noteq> CHR ''-''"
proof -
  have o: "ord (char_of (48 + d)) = 48 + d" using assms by simp
  with assms show "c_isdigit (char_of (48 + d))" "int (ord (char_of (48 + d))) - 48 = int d"
    "\<not> c_isspace (char_of (48 + d))"
    by (simp_all add: c_chars)
  have "ord (CHR ''+'') < 48" "ord (CHR ''-'') < 48" by (simp_all add: ord_def)
  with o show "char_of (48 + d) \<noteq> CHR ''+''" "char_of (48 + d) \<noteq> CHR ''-''"
    by (auto dest!: arg_cong [of _ _ ord])
qed

lemma digits_value_append: "digits_value acc (s @ t) = digits_value (digits_value acc s) t"
  by (induction acc s rule: digits_value.induct) simp_all

lemma pad_nat_value: "n < 10 ^ w \<Longrightarrow> digits_value 0 (pad_nat w n) = int n"
proof (induction w arbitrary: n)
  case (Suc w)
  then have "n div 10 < 10 ^ w" by (simp add: div_less_iff_less_mult mult.commute)
  with Suc.IH digit_char(2) [of "n mod 10"] show ?case
    by (simp add: digits_value_append zdiv_int zmod_int)
qed simp


lemma pad_nat_digit: "c \<in> set (pad_nat w n) \<Longrightarrow> \<exists>d < 10. c = char_of (48 + d :: nat)"
proof (induction w arbitrary: n)
  case (Suc w)
  from Suc.prems consider "c \<in> set (pad_nat w (n div 10))" | "c = char_of (48 + n mod 10)" by auto
  then show ?case
  proof cases
    case 2
    moreover have "n mod 10 < 10" by simp
    ultimately show ?thesis by blast
  qed (rule Suc.IH)
qed simp

lemma scan_int_pad:
  assumes "n < 10 ^ Suc w"
  shows "scan_int (Suc w) (pad_nat (Suc w) n @ r) = Some (int n, r)"
proof -
  let ?p = "pad_nat (Suc w) n"
  have digits: "\<forall>c \<in> set ?p. c_isdigit c \<and> \<not> c_isspace c \<and> c \<noteq> CHR ''+'' \<and> c \<noteq> CHR ''-''"
  proof
    fix c assume "c \<in> set ?p"
    from pad_nat_digit [OF this] obtain d :: nat where "d < 10" "c = char_of (48 + d)" by blast
    with digit_char [of d] show "c_isdigit c \<and> \<not> c_isspace c \<and> c \<noteq> CHR ''+'' \<and> c \<noteq> CHR ''-''" by metis
  qed
  have len: "length ?p = Suc w" by (rule pad_nat_length)
  then obtain c t where ct: "?p = c # t" by (cases ?p) auto
  have "takeWhile c_isdigit ?p = ?p"
    using digits by (simp add: takeWhile_eq_all_conv del: pad_nat.simps)
  moreover have "dropWhile c_isspace (?p @ r) = ?p @ r" "hd (?p @ r) = c"
    using digits unfolding ct by auto
  moreover have "c \<noteq> CHR ''+''" "c \<noteq> CHR ''-''" using digits unfolding ct by auto
  moreover have "digits_value 0 ?p = int n" using assms by (rule pad_nat_value)
  moreover have "?p \<noteq> []" unfolding ct by simp
  ultimately show ?thesis using len
    by (simp add: scan_int_def Let_def takeWhile_eq_all_conv [THEN iffD2] del: pad_nat.simps)
qed

lemma scan_field_pad:
  "n < 10 ^ Suc w \<Longrightarrow> scan_field (Suc w) c (pad_nat (Suc w) n @ c # r) = Some (int n, r)"
  by (simp add: scan_field_def scan_int_pad scan_char_def del: pad_nat.simps)

text \<open>The text of a time, as \<open>now_utc\<close> writes it.\<close>

definition utc_text :: "nat \<Rightarrow> nat \<Rightarrow> nat \<Rightarrow> nat \<Rightarrow> nat \<Rightarrow> nat \<Rightarrow> string" where
  "utc_text y mo d h mi s =
     pad_nat 4 y @ CHR ''-'' # pad_nat 2 mo @ CHR ''-'' # pad_nat 2 d @ CHR ''T'' # pad_nat 2 h
     @ CHR '':'' # pad_nat 2 mi @ CHR '':'' # pad_nat 2 s @ ''Z''"

lemma scan_utc_text:
  assumes "y < 10000" "mo < 100" "d < 100" "h < 100" "mi < 100" "s < 100"
  shows "scan_timestamp (utc_text y mo d h mi s) = Some (int y, int mo, int d, int h, int mi, int s)"
proof -
  have four: "\<And>r. scan_field 4 (CHR ''-'') (pad_nat 4 y @ CHR ''-'' # r) = Some (int y, r)"
    using scan_field_pad [of y 3] assms by (simp del: pad_nat.simps)
  have two: "\<And>n c r. n < 100 \<Longrightarrow> scan_field 2 c (pad_nat 2 n @ c # r) = Some (int n, r)"
    using scan_field_pad [of _ 1] by (simp add: numeral_2_eq_2 del: pad_nat.simps)
  have last: "scan_int 2 (pad_nat 2 s @ ''Z'') = Some (int s, ''Z'')"
    using scan_int_pad [of s 1] assms by (simp add: numeral_2_eq_2 del: pad_nat.simps)
  show ?thesis unfolding scan_timestamp_def utc_text_def
    by (simp add: four two last assms)
qed
text \<open>The day count against the calendar, and the age of a printed time.\<close>

lemma div_step:
  fixes y k :: int
  assumes "0 < k"
  shows "y div k = (y - 1) div k + (if y mod k = 0 then 1 else 0)"
proof (cases "y mod k = 0")
  case True
  then obtain c where c: "y = k * c" by (auto simp: dvd_def)
  have "(y - 1) div k = c - 1"
    by (rule int_div_pos_eq [of _ _ _ "k - 1"]) (use c assms in \<open>simp_all add: algebra_simps\<close>)
  with c assms show ?thesis by simp
next
  case False
  have b: "0 \<le> y mod k" "y mod k < k" using assms by simp_all
  have "(y - 1) div k = y div k"
    by (rule int_div_pos_eq [of _ _ _ "y mod k - 1"]) (use b False mult_div_mod_eq [of k y] in linarith)+
  with False show ?thesis by simp
qed

lemma year_days: "days_before_year (y + 1) = days_before_year y + (if leap_year y then 366 else 365)"
proof -
  have d: "y div 4 = (y - 1) div 4 + (if y mod 4 = 0 then 1 else 0)"
    "y div 100 = (y - 1) div 100 + (if y mod 100 = 0 then 1 else 0)"
    "y div 400 = (y - 1) div 400 + (if y mod 400 = 0 then 1 else 0)"
    by (rule div_step, simp)+
  have "(100 :: int) dvd 400" "(4 :: int) dvd 100" by simp_all
  from dvd_trans [OF this(1), of y] dvd_trans [OF this(2), of y]
  have c: "y mod 400 = 0 \<longrightarrow> y mod 100 = 0" "y mod 100 = 0 \<longrightarrow> y mod 4 = 0"
    by (simp_all only: mod_eq_0_iff_dvd) iprover+
  have sum: "365 * (y + 1 - 1970) + a' - b' + e' - 477
      = 365 * (y - 1970) + a - b + e - 477 + (if P \<and> (\<not> Q \<or> R) then 366 else 365)"
    if "a' = a + (if P then 1 else 0)" "b' = b + (if Q then 1 else 0)" "e' = e + (if R then 1 else 0)"
      "R \<longrightarrow> Q" "Q \<longrightarrow> P" for a a' b b' e e' :: int and P Q R
    using that by (cases P; cases Q; cases R) simp_all
  show ?thesis
    unfolding days_before_year_def leap_year_def add_diff_cancel_right' by (rule sum [OF d c])
qed

lemma timegm_epoch: "timegm 1970 1 1 0 0 0 = 0"
  by (simp add: timegm_def days_before_year_def days_before_month_def)

lemma utc_text_given: "c_at (utc_text y mo d h mi s) 0 \<noteq> nul"
proof -
  have "utc_text y mo d h mi s \<noteq> []" by (simp add: utc_text_def)
  moreover have "hd (utc_text y mo d h mi s) \<in> set (pad_nat 4 y)"
    using pad_nat_length [of 4 y] by (cases "pad_nat 4 y") (auto simp: utc_text_def)
  then obtain k :: nat where "k < 10" "hd (utc_text y mo d h mi s) = char_of (48 + k)" using pad_nat_digit by blast
  then have "c_isdigit (hd (utc_text y mo d h mi s))" using digit_char(1) by simp
  moreover have "\<not> c_isdigit nul" by (simp add: c_isdigit_def ord_def)
  ultimately show ?thesis by (cases "utc_text y mo d h mi s") (auto simp: c_at_def)
qed

lemma timestamp_age:
  assumes "y < 10000" "mo < 100" "d < 100" "h < 100" "mi < 100" "s < 100"
    and "timegm (int y) (int mo) (int d) (int h) (int mi) (int s) = past" "past \<noteq> -1"
  shows "now < past \<Longrightarrow> skill_timestamp_age_days (utc_text y mo d h mi s) now = -1"
    and "past \<le> now \<Longrightarrow> now - past < 86400 * 2 ^ 31
      \<Longrightarrow> skill_timestamp_age_days (utc_text y mo d h mi s) now = (now - past) div 86400"
proof -
  show "now < past \<Longrightarrow> skill_timestamp_age_days (utc_text y mo d h mi s) now = -1"
    using utc_text_given [of y mo d h mi s] scan_utc_text [OF assms(1-6)] assms(7,8)
    by (simp add: skill_timestamp_age_days_def Let_def)
  assume b: "past \<le> now" "now - past < 86400 * 2 ^ 31"
  define k where "k = (now - past) div 86400"
  have "0 \<le> k" "k < 2 ^ 31" unfolding k_def using b by (simp_all add: pos_imp_zdiv_nonneg_iff)
  then have "sint (word_of_int k :: 32 word) = k"
    by (simp add: sint_sbintrunc' signed_take_bit_int_eq_self_iff)
  then show "skill_timestamp_age_days (utc_text y mo d h mi s) now = (now - past) div 86400"
    using utc_text_given [of y mo d h mi s] scan_utc_text [OF assms(1-6)] assms(7,8) b(1)
    by (simp add: skill_timestamp_age_days_def Let_def flip: k_def)
qed

end
