(* ===== verification/Skill_Sidecar.thy ===== *)
theory Skill_Sidecar
  imports Skill_Usage
begin

text \<open>
  What the telemetry operations of \<open>Skill_Usage\<close> do: they touch the sidecar and the two files
  beside it and nothing else, a failure leaves the sidecar as it was, and the tree read back
  after a success is the updated one. From this follow the laws of \<open>skill_usage_get\<close> after
  \<open>skill_record_activation\<close>, \<open>skill_record_view\<close> and \<open>skill_set_pinned\<close>.
\<close>

text \<open>Replacing a file makes and removes no directory.\<close>

lemma c_rename_file_target:
  assumes "c_rename env fs old new = Inr fs'" "locate fs old = Inr a" "locate fs new = Inr b" "a \<noteq> b"
    and "fs_at fs a = Some (Reg s)"
  shows "\<not> is_dir fs b"
  using c_rename_Inr [OF assms(1)] assms(2-5) by fastforce

lemma replace_file_dirs:
  assumes "replace_file env fs path s = (fs', ok)" "fs_wf fs" "cstr path" "cstr (tmp_path env path)"
    and "locate fs (tmp_path env path) = Inr t" "locate fs path = Inr q" "t \<noteq> q"
  shows "is_dir fs' x \<longleftrightarrow> is_dir fs x"
proof (cases "c_write_file env fs (tmp_path env path) s")
  case None
  with assms(1) show ?thesis by (simp add: replace_file_def)
next
  case (Some r)
  obtain fs1 wok where r: "r = (fs1, wok)" by (cases r)
  from c_write_file_Some [OF Some [unfolded r]] assms(5) obtain u where
    u: "t \<noteq> []" "\<not> is_dir fs t" "fs1 = fs_put t (Reg u) fs" by auto
  have at: "fs_at fs1 t = Some (Reg u)" and d1: "is_dir fs1 x \<longleftrightarrow> is_dir fs x" for x using u by auto
  have l: "locate fs1 (tmp_path env path) = Inr t" "locate fs1 path = Inr q"
    using locate_dirs_mono [of fs fs1] d1 assms(5,6) by blast+
  have wf1: "fs_wf fs1" using c_write_file_wf [OF Some [unfolded r] assms(2,4)] .
  have c: "commit_file env fs1 (tmp_path env path) path wok = (fs', ok)"
    using assms(1) Some r by (simp add: replace_file_def)
  then consider (moved) "c_rename env fs1 (tmp_path env path) path = Inr fs'"
    | (gone) "c_unlink env fs1 (tmp_path env path) = Inr fs'" | (left) "fs' = fs1"
    by (auto simp: commit_file_def split: sum.splits if_splits)
  then show ?thesis
  proof cases
    case moved
    have "fs_at fs' = (fs_at fs1)(t := None, q \<mapsto> Reg u)"
      by (rule c_rename_file [OF moved wf1 l assms(7) at])
    with c_rename_file_target [OF moved l assms(7) at] at show ?thesis unfolding d1 [symmetric] by auto
  next
    case gone
    from c_unlink_Inr [OF gone] l(1) have "t \<noteq> []" "fs' = fs_del t fs1" by auto
    with at show ?thesis unfolding d1 [symmetric] by auto
  qed (use d1 in simp)
qed

section \<open>What an update touches\<close>

text \<open>
  An update of a sidecar writes entries whose names start with \<open>.usage.json\<close> (the sidecar,
  its lock and its temporary file) and makes or removes no directory.
\<close>

definition sidecar_name :: "string \<Rightarrow> bool" where
  "sidecar_name n \<longleftrightarrow> prefix ''.usage.json'' n"

definition sidecar_only :: "fs \<Rightarrow> fs \<Rightarrow> bool" where
  "sidecar_only fs fs' \<longleftrightarrow> (fs_wf fs \<longrightarrow> fs_wf fs')
     \<and> (\<forall>x. x = [] \<or> \<not> sidecar_name (last x) \<longrightarrow> fs_at fs' x = fs_at fs x)
     \<and> (\<forall>x. is_dir fs' x \<longleftrightarrow> is_dir fs x)"

lemma sidecar_only_refl [simp]: "sidecar_only fs fs"
  by (simp add: sidecar_only_def)

lemma sidecar_only_trans: "sidecar_only fs1 fs2 \<Longrightarrow> sidecar_only fs2 fs3 \<Longrightarrow> sidecar_only fs1 fs3"
  unfolding sidecar_only_def by metis

lemma sidecar_only_put:
  assumes "fs_wf fs" "is_dir fs d" "name_ok n" "\<not> is_dir fs (d @ [n])" "sidecar_name n"
  shows "sidecar_only fs (fs_put (d @ [n]) (Reg s) fs)"
  using assms fs_wf_put [OF assms(1-4)] by (auto simp: sidecar_only_def)

lemma sidecar_locate: "sidecar_only fs fs' \<Longrightarrow> locate fs' p = Inr q \<longleftrightarrow> locate fs p = Inr q"
  using locate_dirs_mono [of fs fs' p q] locate_dirs_mono [of fs' fs p q] unfolding sidecar_only_def by blast

text \<open>Reading a file depends on nothing but the entry it leads to.\<close>

lemma c_stat_cong:
  assumes "\<And>q. locate fs' p = Inr q \<longleftrightarrow> locate fs p = Inr q" "\<And>q. locate fs p = Inr q \<Longrightarrow> fs_at fs' q = fs_at fs q"
  shows "c_stat env call fs' p = Inr k \<longleftrightarrow> c_stat env call fs p = Inr k"
  using assms by (auto simp: c_stat_Inr)

lemma case_sum_same:
  assumes "\<And>k. x = Inr k \<longleftrightarrow> y = Inr k"
  shows "(case x of Inl e \<Rightarrow> a | Inr k \<Rightarrow> f k) = (case y of Inl e \<Rightarrow> a | Inr k \<Rightarrow> f k)"
  using assms [of "projr x"] assms [of "projr y"] by (cases x; cases y) simp_all

lemma skill_read_file_alt:
  "skill_read_file env fs path =
     (case c_stat env Fopen_r fs path of
        Inr (Reg s) \<Rightarrow> if length s > MAX_FILE_SIZE env \<or> fault env Malloc path then None
          else Some (c_string (fst (c_fread env path (Reg s) (length s))))
      | _ \<Rightarrow> None)"
  by (auto simp: skill_read_file_def c_fopen_r_def split: sum.splits kind.splits)

lemma skill_read_file_cong:
  assumes "\<And>k. c_stat env Fopen_r fs' p = Inr k \<longleftrightarrow> c_stat env Fopen_r fs p = Inr k"
  shows "skill_read_file env fs' p = skill_read_file env fs p"
proof (cases "c_stat env Fopen_r fs p")
  case (Inl e)
  then obtain e' where "c_stat env Fopen_r fs' p = Inl e'"
    using assms by (cases "c_stat env Fopen_r fs' p") auto
  with Inl show ?thesis by (simp add: skill_read_file_alt)
next
  case (Inr k)
  with assms have "c_stat env Fopen_r fs' p = Inr k" by blast
  with Inr show ?thesis by (simp add: skill_read_file_alt)
qed

section \<open>The update of a sidecar\<close>

abbreviation pid_fits :: "env \<Rightarrow> bool" where
  "pid_fits env \<equiv> length (show_nat (getpid env)) < 60"

text \<open>The path of a sidecar whole in its buffer.\<close>

definition sidecar_path :: "string \<Rightarrow> bool" where
  "sidecar_path path \<longleftrightarrow>
     (\<exists>d. path = d @ CHR ''/'' # ''.usage.json'' \<and> d \<noteq> []) \<and> length path < SKILL_PATH_MAX \<and> cstr path"

lemma sidecar_name_ok: "name_ok ''.usage.json''" "name_ok ''.usage.json.lock''"
  by (auto simp: name_ok_def cstr_def)

lemma sidecar_lock_locate:
  assumes "sidecar_path path" "locate fs (path @ ''.lock'') = Inr l"
  shows "l = butlast l @ [''.usage.json.lock'']" "is_dir fs (butlast l)"
    "locate fs path = Inr (butlast l @ [''.usage.json''])"
proof -
  from assms(1) obtain d where d: "path = d @ CHR ''/'' # ''.usage.json''" "d \<noteq> []"
    by (auto simp: sidecar_path_def)
  have "path @ ''.lock'' = d @ CHR ''/'' # ''.usage.json.lock''" using d by simp
  with assms(2) locate_child [OF d(2), of "''.usage.json.lock''" fs] obtain e where
    e: "locate fs d = Inr e" "is_dir fs e" "l = e @ [''.usage.json.lock'']"
    by (auto split: sum.splits option.splits kind.splits)
  then show "l = butlast l @ [''.usage.json.lock'']" "is_dir fs (butlast l)" by auto
  show "locate fs path = Inr (butlast l @ [''.usage.json''])"
    unfolding d(1) using locate_child [OF d(2), of "''.usage.json''" fs] e by simp
qed

lemma skill_usage_lock_result:
  assumes "sidecar_path path" "fs_wf fs" "skill_usage_lock env fs path = (fs1, locked)"
  shows "sidecar_only fs fs1" "\<And>x. last x \<noteq> ''.usage.json.lock'' \<Longrightarrow> fs_at fs1 x = fs_at fs x"
    and "locked \<Longrightarrow> \<exists>l s. locate fs (path @ ''.lock'') = Inr l \<and> fs_at fs1 l = Some (Reg s)"
proof -
  have lp: "c_buf (SKILL_PATH_MAX + 16) (path @ ''.lock'') = path @ ''.lock''"
    using assms(1) by (simp add: sidecar_path_def)
  have put: "fs_at fs x = None \<Longrightarrow> fs_at (fs_put x k fs) x = Some k" for x k
    by (cases "x = []") simp_all
  have "fs1 = fs \<or> (\<exists>l. locate fs (path @ ''.lock'') = Inr l \<and> l \<noteq> [] \<and> fs_at fs l = None
      \<and> fs1 = fs_put l (Reg []) fs)"
    "locked \<Longrightarrow> \<exists>l s. locate fs (path @ ''.lock'') = Inr l \<and> fs_at fs1 l = Some (Reg s)"
    using assms(3) unfolding skill_usage_lock_def lp Let_def
    by (auto simp: sys_path_Inr put split: sum.splits option.splits kind.splits if_splits)
  then have c: "fs1 = fs \<or> (\<exists>l. locate fs (path @ ''.lock'') = Inr l \<and> l \<noteq> [] \<and> fs_at fs l = None
      \<and> fs1 = fs_put l (Reg []) fs)"
    and held: "locked \<Longrightarrow> \<exists>l s. locate fs (path @ ''.lock'') = Inr l \<and> fs_at fs1 l = Some (Reg s)" by auto
  from held show "locked \<Longrightarrow> \<exists>l s. locate fs (path @ ''.lock'') = Inr l \<and> fs_at fs1 l = Some (Reg s)" .
  from c show "sidecar_only fs fs1"
  proof (elim disjE exE conjE)
    fix l assume l: "locate fs (path @ ''.lock'') = Inr l" "fs_at fs l = None" "fs1 = fs_put l (Reg []) fs"
    note ll = sidecar_lock_locate [OF assms(1) l(1)]
    show ?thesis unfolding l(3)
      by (subst ll(1), rule sidecar_only_put [OF assms(2) ll(2) sidecar_name_ok(2)])
        (use l(2) ll(1) in \<open>auto simp: sidecar_name_def\<close>)
  qed simp
  from c show "fs_at fs1 x = fs_at fs x" if "last x \<noteq> ''.usage.json.lock''" for x
  proof (elim disjE exE conjE)
    fix l assume l: "locate fs (path @ ''.lock'') = Inr l" "l \<noteq> []" "fs1 = fs_put l (Reg []) fs"
    have "last l = ''.usage.json.lock''" using sidecar_lock_locate(1) [OF assms(1) l(1)] by (metis last_snoc)
    then have "x \<noteq> l" using that by auto
    then show ?thesis using l by simp
  qed simp
qed

text \<open>Replacing the sidecar itself.\<close>

lemma replace_sidecar:
  assumes "sidecar_path path" "fs_wf fs" "pid_fits env" "replace_file env fs path s = (fs', ok)"
    and "locate fs path = Inr q"
  shows "sidecar_only fs fs'" "fs_at fs' q = (if ok then Some (Reg s) else fs_at fs q)"
proof -
  from assms(1) obtain d where d: "path = d @ CHR ''/'' # ''.usage.json''" "d \<noteq> []"
    and p: "length path < SKILL_PATH_MAX" "cstr path" by (auto simp: sidecar_path_def)
  let ?t = "butlast q @ [''.usage.json'' @ ''.tmp.'' @ show_nat (getpid env)]"
  note t = tmp_path_locate [OF d(1) p(1) assms(3) p(2) d(2) sidecar_name_ok(1) assms(5)]
  note r = replace_file_result [OF assms(4,2) p(2) t(1,2) assms(5) t(3)]
  show "fs_at fs' q = (if ok then Some (Reg s) else fs_at fs q)" by (rule r(2))
  have last: "last q = ''.usage.json''" using t(4) by (metis last_snoc)
  have "fs_at fs' x = fs_at fs x" if "x = [] \<or> \<not> sidecar_name (last x)" for x
  proof (rule r(1))
    show "x \<noteq> ?t" "x \<noteq> q" using that last t(4) by (auto simp: sidecar_name_def)
  qed
  moreover have "is_dir fs' x \<longleftrightarrow> is_dir fs x" for x
    by (rule replace_file_dirs [OF assms(4,2) p(2) t(1,2) assms(5) t(3)])
  ultimately show "sidecar_only fs fs'" using r(3) by (simp add: sidecar_only_def)
qed

text \<open>
  The whole update: what it touches, that a failure leaves the sidecar as it was, and that
  success leaves the updated tree in it.
\<close>

lemma update_sidecar_result:
  assumes "sidecar_path path" "fs_wf fs" "pid_fits env"
    and "update_sidecar J env fs path name fresh change = (fs', ok)"
  shows "sidecar_only fs fs'"
    and "\<not> ok \<Longrightarrow> locate fs path = Inr q \<Longrightarrow> fs_at fs' q = fs_at fs q"
    and "ok \<Longrightarrow> \<exists>q rt s. locate fs path = Inr q \<and> skill_usage_load_root J env fs path = Some rt
      \<and> cj_print J (usage_update J rt name fresh change) = Some s \<and> fs_at fs' q = Some (Reg (s @ [nl]))"
proof -
  obtain fs1 locked where lock: "skill_usage_lock env fs path = (fs1, locked)" by fastforce
  note l = skill_usage_lock_result [OF assms(1,2) lock]
  have wf1: "fs_wf fs1" using l(1) assms(2) by (simp add: sidecar_only_def)
  have q: "fs_at fs1 q = fs_at fs q" if "locate fs path = Inr q" for q
  proof (rule l(2))
    from assms(1) obtain d where d: "path = d @ CHR ''/'' # ''.usage.json''" "d \<noteq> []"
      and p: "length path < SKILL_PATH_MAX" "cstr path" by (auto simp: sidecar_path_def)
    from tmp_path_locate(4) [OF d(1) p(1) assms(3) p(2) d(2) sidecar_name_ok(1) that]
    have "last q = ''.usage.json''" by (metis last_snoc)
    then show "last q \<noteq> ''.usage.json.lock''" by simp
  qed
  have pr: "skill_usage_load_root J env fs1 path = skill_usage_load_root J env fs path"
    unfolding skill_usage_load_root_def
    by (subst skill_read_file_cong [OF c_stat_cong]) (use sidecar_locate [OF l(1)] q in auto)
  consider (unlocked) "\<not> locked" "fs' = fs1" "\<not> ok"
    | (nothing) "skill_usage_load_root J env fs path = None" "fs' = fs1" "\<not> ok"
    | (unprinted) rt where "skill_usage_load_root J env fs path = Some rt" "fs' = fs1" "\<not> ok"
        "cj_print J (usage_update J rt name fresh change) = None"
    | (written) rt s where "locked" "skill_usage_load_root J env fs path = Some rt"
        "cj_print J (usage_update J rt name fresh change) = Some s"
        "replace_file env fs1 path (s @ [nl]) = (fs', ok)"
    using assms(4) lock unfolding update_sidecar_def skill_usage_write_root_def pr
    by (auto simp: pr split: option.splits if_splits)
  then have "sidecar_only fs fs' \<and> (\<forall>q. \<not> ok \<longrightarrow> locate fs path = Inr q \<longrightarrow> fs_at fs' q = fs_at fs q)
    \<and> (ok \<longrightarrow> (\<exists>q rt s. locate fs path = Inr q \<and> skill_usage_load_root J env fs path = Some rt
      \<and> cj_print J (usage_update J rt name fresh change) = Some s \<and> fs_at fs' q = Some (Reg (s @ [nl]))))"
  proof cases
    case written
    from l(3) [OF written(1)] obtain lk where "locate fs (path @ ''.lock'') = Inr lk" by blast
    from sidecar_lock_locate(3) [OF assms(1) this] obtain z where z: "locate fs path = Inr z" by blast
    then have z1: "locate fs1 path = Inr z" using sidecar_locate [OF l(1)] by blast
    note r = replace_sidecar [OF assms(1) wf1 assms(3) written(4) z1]
    show ?thesis
      using sidecar_only_trans [OF l(1) r(1)] r(2) q [OF z] z written(2,3) by auto
  qed (use l(1) q in auto)
  then show "sidecar_only fs fs'"
    "\<not> ok \<Longrightarrow> locate fs path = Inr q \<Longrightarrow> fs_at fs' q = fs_at fs q"
    "ok \<Longrightarrow> \<exists>q rt s. locate fs path = Inr q \<and> skill_usage_load_root J env fs path = Some rt
      \<and> cj_print J (usage_update J rt name fresh change) = Some s \<and> fs_at fs' q = Some (Reg (s @ [nl]))"
    by auto
qed

section \<open>Skills do not change with their telemetry\<close>

text \<open>The directories skills are looked for in, short enough for every path below them.\<close>

definition base_fits :: "string \<Rightarrow> bool" where
  "base_fits b \<longleftrightarrow> cstr b \<and> length b < 400"

definition bases_fit :: "env \<Rightarrow> string option \<Rightarrow> bool" where
  "bases_fit env pr \<longleftrightarrow> pid_fits env \<and> base_fits (project_skills (the pr))
     \<and> base_fits (user_skills env) \<and> base_fits (skill_bundled_dir env)"

lemma manifest_path:
  assumes "base_fits b" "skill_name_is_valid (Some n)"
  shows "c_buf SKILL_PATH_MAX (b @ ''/'' @ n @ ''/SKILL.md'') = (b @ CHR ''/'' # n) @ CHR ''/'' # ''SKILL.md''"
    and "c_buf SKILL_PATH_MAX (b @ ''/'' @ n @ ''.md'') = b @ CHR ''/'' # (n @ ''.md'')"
  using assms skill_name_valid_chars(2) [OF assms(2)] by (simp_all add: base_fits_def SKILL_PATH_MAX_def)

text \<open>A file whose name is not that of a sidecar reads the same.\<close>

lemma md_names:
  assumes "skill_name_is_valid (Some n)"
  shows "name_ok (n @ ''.md'')" "\<not> sidecar_name (n @ ''.md'')" "name_ok ''SKILL.md''" "\<not> sidecar_name ''SKILL.md''"
proof -
  from skill_name_valid_chars [OF assms] obtain c r where n: "n = c # r" "c \<noteq> CHR ''.''"
    by (cases n) auto
  with skill_name_valid_chars [OF assms] show "name_ok (n @ ''.md'')"
    by (auto simp: name_ok_def cstr_def)
  from n show "\<not> sidecar_name (n @ ''.md'')" by (simp add: sidecar_name_def)
  show "name_ok ''SKILL.md''" by (simp add: name_ok_def cstr_def)
  show "\<not> sidecar_name ''SKILL.md''" by (simp add: sidecar_name_def)
qed

lemma sidecar_child_same:
  assumes "sidecar_only fs fs'" "name_ok m" "\<not> sidecar_name m" "d \<noteq> []"
  shows "c_stat env call fs' (d @ CHR ''/'' # m) = Inr k \<longleftrightarrow> c_stat env call fs (d @ CHR ''/'' # m) = Inr k"
proof (rule c_stat_cong [OF sidecar_locate [OF assms(1)]])
  fix q assume "locate fs (d @ CHR ''/'' # m) = Inr q"
  then have "last q = m"
    using locate_child [OF assms(4), of m fs] assms(2)
    by (auto simp: name_ok_def split: sum.splits option.splits kind.splits)
  then show "fs_at fs' q = fs_at fs q" using assms(1,3) by (auto simp: sidecar_only_def)
qed

lemma sidecar_regular_same:
  assumes "sidecar_only fs fs'" "name_ok m" "\<not> sidecar_name m" "d \<noteq> []"
  shows "skill_regular_file env fs' (d @ CHR ''/'' # m) \<longleftrightarrow> skill_regular_file env fs (d @ CHR ''/'' # m)"
proof -
  have "skill_regular_file env g p \<longleftrightarrow> (\<exists>s. c_stat env Stat g p = Inr (Reg s))" for g p
    by (auto simp: skill_regular_file_def S_ISREG_def split: sum.splits kind.splits)
  then show ?thesis using sidecar_child_same [OF assms] by simp
qed

lemma sidecar_try_base:
  assumes "sidecar_only fs fs'" "base_fits b" "skill_name_is_valid (Some n)"
  shows "skill_try_base env fs' b n SKILL_PATH_MAX = skill_try_base env fs b n SKILL_PATH_MAX"
proof (cases "b = []")
  case True
  then show ?thesis by (simp add: skill_try_base_def c_at_def)
next
  case False
  note m = md_names [OF assms(3)] and p = manifest_path [OF assms(2,3)]
  show ?thesis
    unfolding skill_try_base_def skill_dir_with_manifest_def skill_flat_file_def Let_def p
    using sidecar_regular_same [OF assms(1) m(1,2) False] sidecar_regular_same [OF assms(1) m(3,4), of "b @ CHR ''/'' # n"] by simp
qed

lemma sidecar_resolve:
  assumes "sidecar_only fs fs'" "bases_fit env pr" "skill_name_is_valid (Some n)"
  shows "skill_resolve_path env fs' pr (Some n) SKILL_PATH_MAX
    = skill_resolve_path env fs pr (Some n) SKILL_PATH_MAX"
proof -
  have b: "base_fits (project_skills (the pr))" "base_fits (user_skills env)" "base_fits (skill_bundled_dir env)"
    using assms(2) by (auto simp: bases_fit_def)
  show ?thesis
    unfolding skill_resolve_path_def Let_def option.sel sidecar_try_base [OF assms(1) b(1) assms(3)]
      sidecar_try_base [OF assms(1) b(2) assms(3)] sidecar_try_base [OF assms(1) b(3) assms(3)] ..
qed

text \<open>Where a valid name resolves to.\<close>

lemma resolved_path:
  assumes "skill_resolve_path env fs pr (Some n) SKILL_PATH_MAX = Some (p, src)"
    and "bases_fit env pr" "skill_name_is_valid (Some n)"
  obtains b d m where "b \<noteq> []" "base_fits b" "p = d @ CHR ''/'' # m" "d \<noteq> []" "name_ok m" "\<not> sidecar_name m"
    "d = b \<and> m = n @ ''.md'' \<or> d = b @ CHR ''/'' # n \<and> m = ''SKILL.md''"
proof -
  from skill_resolve_path_Some [OF assms(1)] obtain b where
    b: "b \<in> {project_skills (the pr), user_skills env, skill_bundled_dir env}"
      "skill_try_base env fs b (the (Some n)) SKILL_PATH_MAX = Some p" by blast
  have bf: "base_fits b" using b(1) assms(2) by (auto simp: bases_fit_def)
  have bn: "b \<noteq> []" using b(2) by (auto simp: skill_try_base_def c_at_def)
  note m = md_names [OF assms(3)]
  from skill_try_base_Some [OF b(2)] manifest_path [OF bf assms(3)]
  have "p = (b @ CHR ''/'' # n) @ CHR ''/'' # ''SKILL.md'' \<or> p = b @ CHR ''/'' # (n @ ''.md'')" by auto
  then show thesis
    using that [of b "b @ CHR ''/'' # n" "''SKILL.md''"] that [of b b "n @ ''.md''"] bf bn m by blast
qed

lemma c_fopen_r_Inr: "c_fopen_r env fs p = Inr k \<longleftrightarrow> c_stat env Fopen_r fs p = Inr k \<and> k \<noteq> Special"
  by (auto simp: c_fopen_r_def split: sum.splits kind.splits)

lemma sidecar_load:
  assumes "sidecar_only fs fs'" "bases_fit env pr" "skill_name_is_valid (Some n)"
  shows "skill_load env fs' pr (Some n) = skill_load env fs pr (Some n)"
proof (cases "skill_resolve_path env fs pr (Some n) SKILL_PATH_MAX")
  case None
  then show ?thesis using sidecar_resolve [OF assms] by (simp add: skill_load_def skill_path_def)
next
  case (Some r)
  obtain p src where r: "skill_resolve_path env fs pr (Some n) SKILL_PATH_MAX = Some (p, src)"
    using Some by (cases r) simp
  obtain b d m where r': "b \<noteq> []" "base_fits b" "p = d @ CHR ''/'' # m" "d \<noteq> []" "name_ok m" "\<not> sidecar_name m"
    "d = b \<and> m = n @ ''.md'' \<or> d = b @ CHR ''/'' # n \<and> m = ''SKILL.md''"
    by (rule resolved_path [OF r assms(2,3)])
  note d = r'(3-6)
  have "c_fopen_r env fs' p = Inr k \<longleftrightarrow> c_fopen_r env fs p = Inr k" for k
    unfolding c_fopen_r_Inr d(1) sidecar_child_same [OF assms(1) d(3,4,2)] ..
  note same = case_sum_same [OF this]
  show ?thesis
    using r sidecar_resolve [OF assms]
    by (simp add: skill_load_def skill_path_def same)
qed

text \<open>The sidecar of a valid name.\<close>

lemma usage_path:
  assumes "skill_usage_path_source env fs pr (Some n) SKILL_PATH_MAX = Some (path, src)"
    and "bases_fit env pr" "skill_name_is_valid (Some n)"
  shows "sidecar_path path" "src \<noteq> SKILL_SOURCE_NONE"
proof -
  from assms(1) obtain p i where p: "skill_resolve_path env fs pr (Some n) SKILL_PATH_MAX = Some (p, src)"
    "c_strrchr p (CHR ''/'') = Some i" "path = c_buf SKILL_PATH_MAX (take i p @ ''/.usage.json'')"
    by (auto simp: skill_usage_path_source_def split: option.splits if_splits)
  obtain b d m where r': "b \<noteq> []" "base_fits b" "p = d @ CHR ''/'' # m" "d \<noteq> []" "name_ok m" "\<not> sidecar_name m"
    "d = b \<and> m = n @ ''.md'' \<or> d = b @ CHR ''/'' # n \<and> m = ''SKILL.md''"
    by (rule resolved_path [OF p(1) assms(2,3)])
  note b = r'(2,1,3-7)
  have i: "i = length d"
    using p(2) c_strrchr_append [of "CHR ''/''" m d] b(3,5) by (simp add: name_ok_def)
  have len: "length d < 464" and cs: "cstr d"
    using b(1,7) skill_name_valid_chars(2,4) [OF assms(3)] by (auto simp: base_fits_def cstr_def)
  have "path = d @ CHR ''/'' # ''.usage.json''"
    using len by (simp add: p(3) i b(3) SKILL_PATH_MAX_def)
  then show "sidecar_path path"
    using b(4) len cs by (auto simp: sidecar_path_def SKILL_PATH_MAX_def cstr_def)
  show "src \<noteq> SKILL_SOURCE_NONE" using p(1) skill_resolve_path_Some by metis
qed

lemma sidecar_usage_path:
  assumes "sidecar_only fs fs'" "bases_fit env pr" "skill_name_is_valid (Some n)"
  shows "skill_usage_path_source env fs' pr (Some n) k = skill_usage_path_source env fs pr (Some n) k"
  using sidecar_resolve [OF assms] by (simp add: skill_usage_path_source_def)

section \<open>The sidecar as a map of entries\<close>

definition sidecar_entry :: "'j cjson \<Rightarrow> env \<Rightarrow> fs \<Rightarrow> string \<Rightarrow> string \<Rightarrow> 'j option" where
  "sidecar_entry J env fs path name =
     (case skill_read_file env fs path of
        None \<Rightarrow> None
      | Some text \<Rightarrow>
          (case cj_parse J text of
             None \<Rightarrow> None
           | Some rt \<Rightarrow>
               if cj_is_object J rt \<and> is_object J (cj_get J rt name) then cj_get J rt name else None))"

definition usage_of_entry :: "'j cjson \<Rightarrow> env \<Rightarrow> skill_usage_t \<Rightarrow> 'j \<Rightarrow> skill_usage_t" where
  "usage_of_entry J env out ob =
     (let st = skill_json_copy J ob ''state'' 16 (state out);
          cb = skill_json_copy J ob ''created_by'' 16 (created_by out) in
      \<lparr>use_count = skill_json_int J env ob ''use_count'',
       view_count = skill_json_int J env ob ''view_count'',
       patch_count = skill_json_int J env ob ''patch_count'',
       pinned = is_true J (cj_get J ob ''pinned''),
       created_at = skill_json_copy J ob ''created_at'' 32 (created_at out),
       last_used_at = skill_json_copy J ob ''last_used_at'' 32 (last_used_at out),
       last_patched_at = skill_json_copy J ob ''last_patched_at'' 32 (last_patched_at out),
       state = (if st = [] then ''active'' else st),
       created_by = (if cb = [] then ''user'' else cb)\<rparr>)"

definition usage_base :: "skill_source_t \<Rightarrow> skill_usage_t" where
  "usage_base source = (if source = SKILL_SOURCE_BUNDLED
     then skill_usage_default\<lparr>pinned := True, created_by := ''bundled''\<rparr> else skill_usage_default)"

definition usage_view :: "'j cjson \<Rightarrow> env \<Rightarrow> skill_source_t \<Rightarrow> 'j option \<Rightarrow> skill_usage_t" where
  "usage_view J env source e =
     (case e of None \<Rightarrow> usage_base source | Some ob \<Rightarrow> usage_of_entry J env (usage_base source) ob)"

lemma skill_usage_get_view:
  "given (Some n) \<Longrightarrow> skill_usage_path_source env fs pr (Some n) SKILL_PATH_MAX = Some (path, source)
   \<Longrightarrow> skill_usage_get J env fs pr (Some n) = Some (usage_view J env source (sidecar_entry J env fs path n))"
  by (simp add: skill_usage_get_def usage_view_def usage_base_def sidecar_entry_def usage_of_entry_def
      Let_def c_buf_def is_object_def split: option.splits)

text \<open>The tree an update starts from has the entries of the file.\<close>

lemma load_root_entry:
  assumes "cjson_ok J" "skill_usage_load_root J env fs path = Some rt"
  shows "cj_is_object J rt"
    and "sidecar_entry J env fs path m = (if is_object J (cj_get J rt m) then cj_get J rt m else None)"
proof -
  have "cj_is_object J rt
    \<and> sidecar_entry J env fs path m = (if is_object J (cj_get J rt m) then cj_get J rt m else None)"
  proof (cases "\<exists>text r. skill_read_file env fs path = Some text \<and> cj_parse J text = Some r \<and> cj_is_object J r")
    case True
    then obtain tx r where t: "skill_read_file env fs path = Some tx" "cj_parse J tx = Some r"
      "cj_is_object J r" by blast
    then have "rt = r" using assms(2) by (simp add: skill_usage_load_root_def Let_def)
    with t show ?thesis by (simp add: sidecar_entry_def)
  next
    case False
    then have c: "cj_create_object J = Some rt"
      using assms(2)
      by (auto simp: skill_usage_load_root_def is_object_def Let_def split: option.splits if_splits)
    have "sidecar_entry J env fs path m = None"
      using False by (auto simp: sidecar_entry_def split: option.splits)
    then show ?thesis using cj_created [OF assms(1) c] by simp
  qed
  then show "cj_is_object J rt"
    "sidecar_entry J env fs path m = (if is_object J (cj_get J rt m) then cj_get J rt m else None)" by auto
qed

lemma usage_update_object:
  "cjson_ok J \<Longrightarrow> cj_is_object J rt \<Longrightarrow> cj_is_object J (usage_update J rt name fresh change)"
  by (auto simp: usage_update_def Let_def split: option.splits)

lemma usage_update_other:
  assumes "cjson_ok J" "cj_is_object J rt" "\<not> same_key name m"
  shows "cj_get J (usage_update J rt name fresh change) m = cj_get J rt m"
proof -
  have "m \<noteq> name" using assms(3) by (auto simp: same_key_def)
  moreover have "cj_get J (cj_delete J rt name) m = cj_get J rt m"
    by (rule cj_get_delete_other [OF assms(1,3)])
  moreover have "cj_get J rt name \<noteq> None" if "is_object J (cj_get J rt name)"
    using that by (cases "cj_get J rt name") auto
  ultimately show ?thesis
    using assms by (auto simp: usage_update_def Let_def cj_get_child_put cj_get_add simp del: not_None_eq
        split: option.splits)
qed

lemma usage_update_entry:
  assumes "cjson_ok J" "cj_is_object J rt"
  shows "cj_get J rt name = Some ob \<Longrightarrow> cj_is_object J ob
      \<Longrightarrow> cj_get J (usage_update J rt name fresh change) name = Some (change 0 ob)"
    and "cj_get J rt name = None \<Longrightarrow> cj_create_object J = Some ob
      \<Longrightarrow> cj_get J (usage_update J rt name fresh change) name = Some (change 1 (fresh ob))"
  using assms by (simp_all add: usage_update_def cj_get_child_put cj_get_add cj_get_delete_None Let_def)

text \<open>After a successful update the file holds the updated tree, if it is not too large to be read.\<close>

definition sidecar_readable :: "env \<Rightarrow> fs \<Rightarrow> string \<Rightarrow> bool" where
  "sidecar_readable env fs path \<longleftrightarrow>
     (\<forall>q s. locate fs path = Inr q \<longrightarrow> fs_at fs q = Some (Reg s) \<longrightarrow> length s \<le> MAX_FILE_SIZE env)"

lemma update_sidecar_entry:
  assumes "sidecar_path path" "fs_wf fs" "pid_fits env"
    and "update_sidecar J env fs path name fresh change = (fs', True)"
    and "cjson_ok J" "no_faults env" "sidecar_readable env fs' path"
  shows "\<exists>rt. skill_usage_load_root J env fs path = Some rt \<and> cj_is_object J rt
    \<and> (\<forall>m. sidecar_entry J env fs' path m
       = (let e = cj_get J (usage_update J rt name fresh change) m in if is_object J e then e else None))"
proof -
  note u = update_sidecar_result [OF assms(1-4)]
  from u(3) obtain q rt s where w: "locate fs path = Inr q" "skill_usage_load_root J env fs path = Some rt"
    "cj_print J (usage_update J rt name fresh change) = Some s" "fs_at fs' q = Some (Reg (s @ [nl]))" by blast
  have o: "cj_is_object J rt" "cj_is_object J (usage_update J rt name fresh change)"
    using load_root_entry(1) [OF assms(5) w(2)] usage_update_object [OF assms(5)] by auto
  note p = cj_print_parse [OF assms(5) o(2) w(3)]
  have l: "locate fs' path = Inr q" using sidecar_locate [OF u(1)] w(1) by blast
  have "c_stat env Fopen_r fs' path = Inr (Reg (s @ [nl]))"
    using l w(4) assms(6) by (simp add: c_stat_def sys_path_def)
  then have "skill_read_file env fs' path = Some (s @ [nl])"
    using assms(6,7) l w(4) p(2) by (simp add: skill_read_file_alt sidecar_readable_def c_fread_def)
  then have "sidecar_entry J env fs' path m
       = (let e = cj_get J (usage_update J rt name fresh change) m in if is_object J e then e else None)" for m
    using p(1) o(2) by (simp add: sidecar_entry_def Let_def)
  with w(2) o(1) show ?thesis by blast
qed

section \<open>Operations that put telemetry\<close>

text \<open>
  The contract of an operation that records something about a skill: it updates the entry
  of the skill in the sidecar beside it, and does nothing for a skill that cannot be found or
  is bundled.
\<close>

locale sidecar_writer =
  fixes put :: "'j cjson \<Rightarrow> env \<Rightarrow> fs \<Rightarrow> string option \<Rightarrow> string \<Rightarrow> fs \<times> bool"
    and fresh :: "'j cjson \<Rightarrow> env \<Rightarrow> 'j \<Rightarrow> 'j"
    and change :: "'j cjson \<Rightarrow> env \<Rightarrow> nat \<Rightarrow> 'j \<Rightarrow> 'j"
  assumes write_found: "skill_name_is_valid (Some n)
      \<Longrightarrow> skill_usage_path_source env fs pr (Some n) SKILL_PATH_MAX = Some (path, src) \<Longrightarrow> src \<noteq> SKILL_SOURCE_BUNDLED
      \<Longrightarrow> put J env fs pr n = update_sidecar J env fs path n (fresh J env) (change J env)"
    and write_unfound: "skill_name_is_valid (Some n)
      \<Longrightarrow> skill_usage_path_source env fs pr (Some n) SKILL_PATH_MAX = None \<Longrightarrow> put J env fs pr n = (fs, False)"
    and write_bundled: "skill_name_is_valid (Some n)
      \<Longrightarrow> skill_usage_path_source env fs pr (Some n) SKILL_PATH_MAX = Some (path, SKILL_SOURCE_BUNDLED)
      \<Longrightarrow> fst (put J env fs pr n) = fs"
begin

lemma write_cases:
  assumes "skill_name_is_valid (Some n)" "bases_fit env pr" "put J env fs pr n = (fs', ok)"
  obtains (nothing) "fs' = fs"
    | (update) path src where "skill_usage_path_source env fs pr (Some n) SKILL_PATH_MAX = Some (path, src)"
        "src \<noteq> SKILL_SOURCE_BUNDLED" "sidecar_path path"
        "update_sidecar J env fs path n (fresh J env) (change J env) = (fs', ok)"
proof (cases "skill_usage_path_source env fs pr (Some n) SKILL_PATH_MAX")
  case None
  with write_unfound [OF assms(1) None, of J] assms(3) have "fs' = fs" by simp
  then show thesis by (rule nothing)
next
  case (Some r)
  obtain path src where r: "skill_usage_path_source env fs pr (Some n) SKILL_PATH_MAX = Some (path, src)"
    using Some by (cases r) simp
  show thesis
  proof (cases "src = SKILL_SOURCE_BUNDLED")
    case True
    with write_bundled [OF assms(1), of env fs pr path J] r assms(3) have "fs' = fs" by simp
    then show thesis by (rule nothing)
  next
    case False
    with update [OF r False usage_path(1) [OF r assms(2,1)]] write_found [OF assms(1) r False, of J] assms(3)
    show thesis by simp
  qed
qed

text \<open>Nothing but telemetry is written, and every skill loads as before.\<close>

lemma write_only:
  assumes "skill_name_is_valid (Some n)" "bases_fit env pr" "fs_wf fs" "put J env fs pr n = (fs', ok)"
  shows "sidecar_only fs fs'"
  using assms(1,2,4)
proof (cases rule: write_cases)
  case (update path src)
  have "pid_fits env" using assms(2) by (simp add: bases_fit_def)
  from update_sidecar_result(1) [OF update(3) assms(3) this update(4)] show ?thesis .
qed simp

lemma write_load:
  assumes "skill_name_is_valid (Some n)" "bases_fit env pr" "fs_wf fs" "put J env fs pr n = (fs', ok)"
    and "skill_name_is_valid (Some m)"
  shows "skill_load env fs' pr (Some m) = skill_load env fs pr (Some m)"
  by (rule sidecar_load [OF write_only [OF assms(1-4)] assms(2,5)])

lemma write_path:
  assumes "skill_name_is_valid (Some n)" "bases_fit env pr" "fs_wf fs" "put J env fs pr n = (fs', ok)"
    and "skill_name_is_valid (Some m)"
  shows "skill_usage_path_source env fs' pr (Some m) SKILL_PATH_MAX
      = skill_usage_path_source env fs pr (Some m) SKILL_PATH_MAX"
  by (rule sidecar_usage_path [OF write_only [OF assms(1-4)] assms(2,5)])

text \<open>A success leaves the printed tree in the sidecar, a failure leaves the sidecar alone.\<close>

lemma write_result:
  assumes "skill_name_is_valid (Some n)" "bases_fit env pr" "fs_wf fs" "put J env fs pr n = (fs', ok)"
    and "skill_usage_path_source env fs pr (Some n) SKILL_PATH_MAX = Some (path, src)"
    and "src \<noteq> SKILL_SOURCE_BUNDLED" "locate fs path = Inr q"
  shows "if ok then (\<exists>rt s. skill_usage_load_root J env fs path = Some rt
        \<and> cj_print J (usage_update J rt n (fresh J env) (change J env)) = Some s
        \<and> fs_at fs' q = Some (Reg (s @ [nl])))
      else fs_at fs' q = fs_at fs q"
proof -
  have pf: "pid_fits env" using assms(2) by (simp add: bases_fit_def)
  have u: "update_sidecar J env fs path n (fresh J env) (change J env) = (fs', ok)"
    using write_found [OF assms(1,5,6), of J] assms(4) by simp
  show ?thesis
    using update_sidecar_result [OF usage_path(1) [OF assms(5,2,1)] assms(3) pf u] assms(7) by fastforce
qed

text \<open>What the skill's own telemetry reads as after a success.\<close>

lemma write_entry:
  assumes "skill_name_is_valid (Some n)" "bases_fit env pr" "fs_wf fs" "put J env fs pr n = (fs', True)"
    and "skill_usage_path_source env fs pr (Some n) SKILL_PATH_MAX = Some (path, src)"
    and "src \<noteq> SKILL_SOURCE_BUNDLED" "cjson_ok J" "no_faults env" "sidecar_readable env fs' path"
  shows "sidecar_entry J env fs path n = Some ob
      \<Longrightarrow> sidecar_entry J env fs' path n = (if cj_is_object J (change J env 0 ob) then Some (change J env 0 ob) else None)"
    and "\<not> same_key n m \<Longrightarrow> sidecar_entry J env fs' path m = sidecar_entry J env fs path m"
proof -
  have u: "update_sidecar J env fs path n (fresh J env) (change J env) = (fs', True)"
    using write_found [OF assms(1,5,6), of J] assms(4) by simp
  have pf: "pid_fits env" using assms(2) by (simp add: bases_fit_def)
  obtain rt where rt: "skill_usage_load_root J env fs path = Some rt" "cj_is_object J rt"
    "\<And>m. sidecar_entry J env fs' path m
       = (let e = cj_get J (usage_update J rt n (fresh J env) (change J env)) m in
          if is_object J e then e else None)"
    using update_sidecar_entry [OF usage_path(1) [OF assms(5,2,1)] assms(3) pf u assms(7-9)] by blast
  note old = load_root_entry(2) [OF assms(7) rt(1)]
  show "sidecar_entry J env fs' path n = (if cj_is_object J (change J env 0 ob) then Some (change J env 0 ob) else None)"
    if "sidecar_entry J env fs path n = Some ob"
  proof -
    from that old [of n] have "cj_get J rt n = Some ob" "cj_is_object J ob" by (auto split: if_splits)
    from usage_update_entry(1) [OF assms(7) rt(2) this] show ?thesis by (simp add: rt(3) Let_def)
  qed
  show "\<not> same_key n m \<Longrightarrow> sidecar_entry J env fs' path m = sidecar_entry J env fs path m"
    using usage_update_other [OF assms(7) rt(2)] by (simp add: rt(3) old Let_def)
qed

lemma write_first:
  assumes "skill_name_is_valid (Some n)" "bases_fit env pr" "fs_wf fs" "put J env fs pr n = (fs', True)"
    and "skill_usage_path_source env fs pr (Some n) SKILL_PATH_MAX = Some (path, src)"
    and "src \<noteq> SKILL_SOURCE_BUNDLED" "cjson_ok J" "no_faults env" "sidecar_readable env fs' path"
    and "skill_usage_load_root J env fs path = Some rt" "cj_get J rt n = None" "cj_create_object J = Some ob"
  shows "sidecar_entry J env fs' path n
    = (let e = change J env 1 (fresh J env ob) in if cj_is_object J e then Some e else None)"
proof -
  have u: "update_sidecar J env fs path n (fresh J env) (change J env) = (fs', True)"
    using write_found [OF assms(1,5,6), of J] assms(4) by simp
  have pf: "pid_fits env" using assms(2) by (simp add: bases_fit_def)
  have "cj_is_object J rt" by (rule load_root_entry(1) [OF assms(7,10)])
  from usage_update_entry(2) [OF assms(7) this assms(11,12)]
    update_sidecar_entry [OF usage_path(1) [OF assms(5,2,1)] assms(3) pf u assms(7-9)] assms(10)
  show ?thesis by (auto simp: Let_def)
qed

end

lemma valid_given: "skill_name_is_valid (Some n) \<Longrightarrow> given (Some n)"
  using skill_name_valid_cstr skill_name_valid_chars(1) by (simp add: given_Some)

interpretation event: sidecar_writer
  "\<lambda>J env fs pr n. skill_record_event J env fs pr (Some n) activation view"
  "\<lambda>J env. usage_fresh J env ''user''" "\<lambda>J env. event_change J env activation view"
  for activation view
  by unfold_locales
    (simp_all add: skill_record_event_def valid_given)

interpretation mutation: sidecar_writer
  "\<lambda>J env fs pr n. skill_record_mutation J env fs pr (Some n) mu"
  "\<lambda>J env. usage_fresh J env (if given (actor mu) then the (actor mu) else ''user'')"
  "\<lambda>J env. mutation_change J env mu"
  for mu
  by unfold_locales (simp_all add: skill_record_mutation_def)

section \<open>Counting and pinning\<close>

lemma event_change_object [simp]:
  "cjson_ok J \<Longrightarrow> cj_is_object J ob \<Longrightarrow> cj_is_object J (event_change J env a v k ob)"
  by (simp add: event_change_def Let_def)

text \<open>What a reader sees of an entry depends on its values only.\<close>

lemma usage_of_activation:
  assumes "cjson_ok J" "entry_ok J ob"
  shows "usage_of_entry J env out (event_change J env True False k ob)
    = (usage_of_entry J env out ob)\<lparr>use_count := c_succ env (skill_json_int J env ob ''use_count''),
        last_used_at := c_buf 32 (now_utc env k), state := ''active''\<rparr>"
proof -
  note g = event_change_activation [OF assms, of env k]
  show ?thesis
    unfolding usage_of_entry_def Let_def skill_json_copy_def skill_json_int_def number_of_def string_of_def
      is_true_def g
    using assms(1) by (simp add: c_buf_def del: of_int_add)
qed

lemma usage_of_view:
  assumes "cjson_ok J" "entry_ok J ob"
  shows "usage_of_entry J env out (event_change J env False True k ob)
    = (usage_of_entry J env out ob)\<lparr>view_count := c_succ env (skill_json_int J env ob ''view_count'')\<rparr>"
proof -
  note g = event_change_view [OF assms, of env k]
  show ?thesis
    unfolding usage_of_entry_def Let_def skill_json_copy_def skill_json_int_def number_of_def string_of_def
      is_true_def g
    using assms(1) by (simp add: c_buf_def del: of_int_add)
qed

lemma mutation_change_pin:
  assumes "cjson_ok J" "entry_ok J ob"
  shows "cj_is_object J (mutation_change J env (no_mutation\<lparr>set_pin := Some b\<rparr>) k ob)"
    and "cj_get J (mutation_change J env (no_mutation\<lparr>set_pin := Some b\<rparr>) k ob) ''pinned'' = Some (cj_mk_bool J b)"
    and "\<not> same_key ''pinned'' l \<Longrightarrow>
      cj_get J (mutation_change J env (no_mutation\<lparr>set_pin := Some b\<rparr>) k ob) l = cj_get J ob l"
proof -
  have o: "cj_is_object J ob" "no_variant J ob ''pinned''" using assms(2) by (auto simp: entry_ok_def)
  have e: "mutation_change J env (no_mutation\<lparr>set_pin := Some b\<rparr>) k ob
    = (if cj_get J ob ''pinned'' \<noteq> None then cj_replace J ob ''pinned'' (cj_mk_bool J b)
       else cj_add J ob ''pinned'' (cj_mk_bool J b))"
    by (simp add: mutation_change_def no_mutation_def)
  show "cj_is_object J (mutation_change J env (no_mutation\<lparr>set_pin := Some b\<rparr>) k ob)"
    unfolding e using assms(1) o(1) by simp
  show "cj_get J (mutation_change J env (no_mutation\<lparr>set_pin := Some b\<rparr>) k ob) ''pinned'' = Some (cj_mk_bool J b)"
    unfolding e using assms(1) o cj_get_replace [OF assms(1) o(2)] cj_get_add [OF assms(1) o(1)] by simp
  have "l \<noteq> ''pinned''" if "\<not> same_key ''pinned'' l" using that by (auto simp: same_key_def)
  then show "\<not> same_key ''pinned'' l \<Longrightarrow>
      cj_get J (mutation_change J env (no_mutation\<lparr>set_pin := Some b\<rparr>) k ob) l = cj_get J ob l"
    unfolding e using assms(1) o(1) by (simp add: cj_get_replace_other cj_get_add)
qed

lemma not_same_key: "length k \<noteq> length l \<Longrightarrow> \<not> same_key k l"
  unfolding same_key_def by (metis length_map)

lemma usage_of_pin:
  assumes "cjson_ok J" "entry_ok J ob"
  shows "usage_of_entry J env out (mutation_change J env (no_mutation\<lparr>set_pin := Some b\<rparr>) k ob)
    = (usage_of_entry J env out ob)\<lparr>pinned := b\<rparr>"
proof -
  note g = mutation_change_pin [OF assms]
  have k: "cj_get J (mutation_change J env (no_mutation\<lparr>set_pin := Some b\<rparr>) k ob) l = cj_get J ob l"
    if "length l \<noteq> 6" for l using that by (intro g(3) not_same_key) simp
  show ?thesis
    unfolding usage_of_entry_def Let_def skill_json_copy_def skill_json_int_def number_of_def string_of_def
      is_true_def g(2)
    using assms(1) by (simp add: k)
qed

text \<open>The situation of the laws: a skill that can be found, outside the bundled ones, a working system.\<close>

definition telemetry_ready ::
  "'j cjson \<Rightarrow> env \<Rightarrow> fs \<Rightarrow> string option \<Rightarrow> string \<Rightarrow> string \<Rightarrow> skill_source_t \<Rightarrow> bool" where
  "telemetry_ready J env fs pr n path src \<longleftrightarrow>
     cjson_ok J \<and> no_faults env \<and> fs_wf fs \<and> bases_fit env pr \<and> skill_name_is_valid (Some n)
     \<and> skill_usage_path_source env fs pr (Some n) SKILL_PATH_MAX = Some (path, src) \<and> src \<noteq> SKILL_SOURCE_BUNDLED"

lemma entry_law:
  assumes "telemetry_ready J env fs pr n path src" "sidecar_entry J env fs path n = Some ob" "entry_ok J ob"
    and "skill_usage_path_source env fs' pr (Some n) SKILL_PATH_MAX = Some (path, src)"
    and "sidecar_entry J env fs' path n = Some ob'" "\<And>out. usage_of_entry J env out ob' = f (usage_of_entry J env out ob)"
  shows "\<exists>u. skill_usage_get J env fs pr (Some n) = Some u \<and> skill_usage_get J env fs' pr (Some n) = Some (f u)"
proof -
  have "given (Some n)" and p: "skill_usage_path_source env fs pr (Some n) SKILL_PATH_MAX = Some (path, src)"
    using assms(1) by (auto simp: telemetry_ready_def valid_given)
  with assms(2,4-6) show ?thesis
    using skill_usage_get_view [of n env fs pr path src J] skill_usage_get_view [of n env fs' pr path src J]
    by (simp add: usage_view_def)
qed

text \<open>
  Where a law starts: the sidecar has an entry of the skill as the module writes it, or it has
  none yet (\<open>first\<close>), also when there is no sidecar.
\<close>

definition entry_start :: "'j cjson \<Rightarrow> env \<Rightarrow> fs \<Rightarrow> string \<Rightarrow> string \<Rightarrow> bool \<Rightarrow> bool" where
  "entry_start J env fs path n first \<longleftrightarrow>
     (if first
      then cj_create_object J \<noteq> None
        \<and> (case skill_usage_load_root J env fs path of None \<Rightarrow> False | Some rt \<Rightarrow> cj_get J rt n = None)
      else (case sidecar_entry J env fs path n of None \<Rightarrow> False | Some ob \<Rightarrow> entry_ok J ob))"

text \<open>What an update leaves to be read, from what was read before: the time of a first entry is its creation.\<close>

definition usage_began :: "env \<Rightarrow> bool \<Rightarrow> skill_usage_t \<Rightarrow> skill_usage_t" where
  "usage_began env first u = (if first then u\<lparr>created_at := c_buf 32 (now_utc env 0)\<rparr> else u)"

lemma usage_of_fresh:
  assumes "cjson_ok J" "cj_create_object J = Some ob"
  shows "usage_of_entry J env skill_usage_default (usage_fresh J env ''user'' ob)
    = usage_began env True skill_usage_default"
  using assms(1)
  by (simp add: usage_of_entry_def get_usage_fresh(2) [OF assms] fresh_value_def skill_json_copy_def
      skill_json_int_def string_of_def number_of_def is_true_def skill_usage_default_def usage_began_def
      c_buf_def c_int_def c_trunc_def fits_int_def Let_def)

lemma first_law:
  assumes "telemetry_ready J env fs pr n path src" "entry_start J env fs path n True"
    and "skill_usage_path_source env fs' pr (Some n) SKILL_PATH_MAX = Some (path, src)"
    and "sidecar_entry J env fs' path n = Some ob'"
    and "usage_of_entry J env skill_usage_default ob' = f (usage_began env True skill_usage_default)"
  shows "\<exists>u. skill_usage_get J env fs pr (Some n) = Some u
    \<and> skill_usage_get J env fs' pr (Some n) = Some (f (usage_began env True u))"
proof -
  have t: "cjson_ok J" "given (Some n)" "src \<noteq> SKILL_SOURCE_BUNDLED"
    and p: "skill_usage_path_source env fs pr (Some n) SKILL_PATH_MAX = Some (path, src)"
    using assms(1) by (auto simp: telemetry_ready_def valid_given)
  obtain rt where rt: "skill_usage_load_root J env fs path = Some rt" "cj_get J rt n = None"
    using assms(2) by (auto simp: entry_start_def split: option.splits)
  have "sidecar_entry J env fs path n = None"
    using load_root_entry(2) [OF t(1) rt(1), of n] rt(2) by simp
  then show ?thesis
    using skill_usage_get_view [OF t(2) p, of J] skill_usage_get_view [OF t(2) assms(3), of J] assms(4,5) t(3)
    by (simp add: usage_view_def usage_base_def)
qed

text \<open>The law of an operation whose change is the function \<open>f\<close> on what is read.\<close>

context sidecar_writer
begin

lemma write_law:
  assumes "telemetry_ready J env fs pr n path src" "entry_start J env fs path n first"
    and "put J env fs pr n = (fs', True)" "sidecar_readable env fs' path"
    and "fresh J env = usage_fresh J env ''user''"
    and "\<And>k ob. entry_ok J ob \<Longrightarrow> cj_is_object J (change J env k ob)"
    and "\<And>k ob out. entry_ok J ob
      \<Longrightarrow> usage_of_entry J env out (change J env k ob) = f k (usage_of_entry J env out ob)"
  shows "\<exists>u. skill_usage_get J env fs pr (Some n) = Some u
      \<and> skill_usage_get J env fs' pr (Some n) = Some (f (if first then 1 else 0) (usage_began env first u))"
    and "\<not> same_key n m \<Longrightarrow> sidecar_entry J env fs' path m = sidecar_entry J env fs path m"
proof -
  have h: "cjson_ok J" "no_faults env" "fs_wf fs" "bases_fit env pr" "skill_name_is_valid (Some n)"
    "skill_usage_path_source env fs pr (Some n) SKILL_PATH_MAX = Some (path, src)" "src \<noteq> SKILL_SOURCE_BUNDLED"
    using assms(1) by (auto simp: telemetry_ready_def)
  note w = write_entry [OF h(5,4,3) assms(3) h(6,7,1,2) assms(4)]
  have p: "skill_usage_path_source env fs' pr (Some n) SKILL_PATH_MAX = Some (path, src)"
    using write_path [OF h(5,4,3) assms(3) h(5)] h(6) by simp
  show "\<exists>u. skill_usage_get J env fs pr (Some n) = Some u
      \<and> skill_usage_get J env fs' pr (Some n) = Some (f (if first then 1 else 0) (usage_began env first u))"
  proof (cases first)
    case True
    then have "entry_start J env fs path n True" using assms(2) by simp
    then obtain ob rt where ob: "cj_create_object J = Some ob" "skill_usage_load_root J env fs path = Some rt"
      "cj_get J rt n = None" by (auto simp: entry_start_def split: option.splits)
    note ok = entry_ok_fresh [OF h(1) ob(1), of env "''user''"]
    have "sidecar_entry J env fs' path n = Some (change J env 1 (usage_fresh J env ''user'' ob))"
      using write_first [OF h(5,4,3) assms(3) h(6,7,1,2) assms(4) ob(2,3,1)] assms(5) assms(6) [OF ok]
      by (simp add: Let_def)
    moreover have "usage_of_entry J env skill_usage_default (change J env 1 (usage_fresh J env ''user'' ob))
        = f 1 (usage_began env True skill_usage_default)"
      using assms(7) [OF ok] usage_of_fresh [OF h(1) ob(1)] by simp
    ultimately show ?thesis
      using first_law [OF assms(1) \<open>entry_start J env fs path n True\<close> p] True by simp
  next
    case False
    with assms(2) obtain ob where ob: "sidecar_entry J env fs path n = Some ob" "entry_ok J ob"
      by (auto simp: entry_start_def split: option.splits)
    have "sidecar_entry J env fs' path n = Some (change J env 0 ob)"
      using w(1) [OF ob(1)] assms(6) [OF ob(2)] by simp
    from entry_law [OF assms(1) ob p this, of "f 0"] assms(7) [OF ob(2)] False show ?thesis
      by (simp add: usage_began_def)
  qed
  show "\<not> same_key n m \<Longrightarrow> sidecar_entry J env fs' path m = sidecar_entry J env fs path m" by (rule w(2))
qed

end

text \<open>A telemetry update succeeds in a working system.\<close>

definition sidecar_writable :: "env \<Rightarrow> fs \<Rightarrow> string \<Rightarrow> bool" where
  "sidecar_writable env fs path \<longleftrightarrow> (\<exists>d. locate fs path = Inr (d @ [''.usage.json''])
     \<and> list_all (\<lambda>n. writable fs (d @ [n]))
         [''.usage.json'', ''.usage.json.lock'', ''.usage.json.tmp.'' @ show_nat (getpid env)])"

lemma load_root_total: "cj_create_object J \<noteq> None \<Longrightarrow> \<exists>rt. skill_usage_load_root J env fs path = Some rt"
  by (cases "skill_read_file env fs path"; cases "cj_parse J (the (skill_read_file env fs path))")
    (auto simp: skill_usage_load_root_def)

lemma update_sidecar_succeeds:
  assumes "sidecar_path path" "fs_wf fs" "pid_fits env" "no_faults env" "sidecar_writable env fs path"
    and "cjson_ok J" "cj_create_object J \<noteq> None" "\<And>ob. cj_is_object J ob \<Longrightarrow> cj_print J ob \<noteq> None"
  shows "snd (update_sidecar J env fs path name fresh change)"
proof -
  obtain fs1 locked where lock: "skill_usage_lock env fs path = (fs1, locked)" by fastforce
  note l = skill_usage_lock_result [OF assms(1,2) lock]
  from assms(1) obtain p where p: "path = p @ CHR ''/'' # ''.usage.json''" "p \<noteq> []"
    "length path < SKILL_PATH_MAX" "cstr path" by (auto simp: sidecar_path_def)
  from assms(5) obtain d where d: "locate fs path = Inr (d @ [''.usage.json''])"
    "writable fs (d @ [''.usage.json''])" "writable fs (d @ [''.usage.json.lock''])"
    "writable fs (d @ [''.usage.json.tmp.'' @ show_nat (getpid env)])"
    by (auto simp: sidecar_writable_def)
  have dir: "locate fs p = Inr d" "is_dir fs d"
    using d(1) locate_child [OF p(2), of "''.usage.json''" fs] unfolding p(1)
    by (auto split: sum.splits option.splits kind.splits)
  have lk: "path @ ''.lock'' = p @ CHR ''/'' # ''.usage.json.lock''" using p(1) by simp
  have ll: "locate fs (path @ ''.lock'') = Inr (d @ [''.usage.json.lock''])"
    unfolding lk using locate_child [OF p(2), of "''.usage.json.lock''" fs] dir by simp
  have "locked"
    using lock ll d(3) assms(4) p(3)
    by (auto simp: skill_usage_lock_def sys_path_def writable_def split: option.splits)
  moreover obtain rt where rt: "skill_usage_load_root J env fs1 path = Some rt"
    using load_root_total [OF assms(7)] by blast
  moreover have "cj_is_object J (usage_update J rt name fresh change)"
    using load_root_entry(1) [OF assms(6) rt] usage_update_object [OF assms(6)] by blast
  then obtain s where "cj_print J (usage_update J rt name fresh change) = Some s"
    using assms(8) by blast
  moreover have "snd (replace_file env fs1 path (s @ [nl]))" for s
  proof -
    have z: "locate fs1 path = Inr (d @ [''.usage.json''])" using sidecar_locate [OF l(1)] d(1) by blast
    note t = tmp_path_locate [OF p(1,3) assms(3) p(4,2) sidecar_name_ok(1) z]
    have w: "writable fs1 x" if "writable fs x" "last x \<noteq> ''.usage.json.lock''" for x
      using that l(1,2) by (auto simp: writable_def sidecar_only_def)
    show ?thesis
    proof (rule replace_file_ok [OF assms(4) _ t(2) z t(3)])
      show "fs_wf fs1" using l(1) assms(2) by (simp add: sidecar_only_def)
      show "writable fs1 (d @ [''.usage.json''])" using w d(2) by simp
      show "writable fs1 (butlast (d @ [''.usage.json'']) @ [''.usage.json'' @ ''.tmp.'' @ show_nat (getpid env)])"
        using w d(4) by simp
    qed
  qed
  ultimately show ?thesis using lock by (simp add: update_sidecar_def skill_usage_write_root_def)
qed

end
