(* ===== verification/Skill_Managed.thy ===== *)
theory Skill_Managed
  imports Skill_Manage Skill_Sidecar
begin

text \<open>
  What the operations of \<open>Skill_Manage\<close> do to a project: where the file of a skill lies, which
  entries an operation may touch, and the outcome of create, edit, patch, archive, the support
  files and the prompt injection on every branch, under every fault.
\<close>

section \<open>The paths of a project\<close>

text \<open>A project whose root has no \<open>..\<close> and whose paths are whole in their buffers.\<close>

definition project_ready :: "env \<Rightarrow> fs \<Rightarrow> string \<Rightarrow> bool" where
  "project_ready env fs r \<longleftrightarrow> r \<noteq> [] \<and> cstr r \<and> ''..'' \<notin> set (skills_place r)
     \<and> bases_fit env (Some r) \<and> fs_wf fs"

lemma project_ready_bases: "project_ready env fs r \<Longrightarrow> bases_fit env (Some r)" "project_ready env fs r \<Longrightarrow> pid_fits env"
  by (simp_all add: project_ready_def bases_fit_def)

lemma project_skills_whole:
  assumes "project_ready env fs r"
  shows "project_skills r = r @ ''/.aimee/skills''" "length (project_skills r) < 400"
    and "plain (project_skills r) (skills_place r)" "given (Some r)"
proof -
  have h: "r \<noteq> []" "cstr r" "''..'' \<notin> set (skills_place r)" "length (project_skills r) < 400"
    using assms by (auto simp: project_ready_def bases_fit_def base_fits_def)
  show "length (project_skills r) < 400" by (rule h(4))
  then show e: "project_skills r = r @ ''/.aimee/skills''"
    by (cases "length (r @ ''/.aimee/skills'') < SKILL_PATH_MAX")
      (simp_all add: project_skills_def c_buf_def SKILL_PATH_MAX_def min_def split: if_splits)
  have "cstr (project_skills r)" using h(2) by (simp add: project_skills_def)
  with h(1,3) e show "plain (project_skills r) (skills_place r)" by (simp add: plain_def)
  show "given (Some r)" using h(1,2) by (simp add: given_Some)
qed

definition skill_file :: "string \<Rightarrow> string \<Rightarrow> string" where
  "skill_file r n = project_skills r @ CHR ''/'' # (n @ ''.md'')"

definition skill_file_place :: "string \<Rightarrow> string \<Rightarrow> path" where
  "skill_file_place r n = skills_place r @ [n @ ''.md'']"

lemma project_skill_file:
  assumes "project_ready env fs r" "skill_name_is_valid (Some n)"
  shows "skill_project_path (Some r) (Some n) SKILL_PATH_MAX = Some (skill_file r n)"
    and "plain (skill_file r n) (skill_file_place r n)" "length (skill_file r n) < 470"
proof -
  note w = project_skills_whole [OF assms(1)]
  have l: "length n < 64" by (rule skill_name_valid_chars(2) [OF assms(2)])
  with w(1,2) show len: "length (skill_file r n) < 470" by (simp add: skill_file_def)
  then show "skill_project_path (Some r) (Some n) SKILL_PATH_MAX = Some (skill_file r n)"
    using assms(2) w(1,4) by (simp add: skill_project_path_def skill_file_def SKILL_PATH_MAX_def)
  show "plain (skill_file r n) (skill_file_place r n)"
    unfolding skill_file_def skill_file_place_def by (rule plain_sub [OF w(3) md_names(1) [OF assms(2)]])
qed

lemma project_skill_try:
  assumes "project_ready env fs0 r" "skill_name_is_valid (Some n)"
  shows "skill_try_base env fs (project_skills r) n SKILL_PATH_MAX
    = (if skill_regular_file env fs ((project_skills r @ CHR ''/'' # n) @ CHR ''/'' # ''SKILL.md'')
       then Some ((project_skills r @ CHR ''/'' # n) @ CHR ''/'' # ''SKILL.md'')
       else if skill_regular_file env fs (skill_file r n) then Some (skill_file r n) else None)"
proof -
  have b: "base_fits (project_skills r)" using assms(1) by (simp add: project_ready_def bases_fit_def)
  have "c_at (project_skills r) 0 \<noteq> nul"
    using project_skills_whole(3) [OF assms(1)] by (auto simp: plain_def c_at_0)
  then show ?thesis
    unfolding skill_try_base_def skill_dir_with_manifest_def skill_flat_file_def Let_def
      manifest_path [OF b assms(2)] skill_file_def by simp
qed

text \<open>No skill directory of the name hides the flat file.\<close>

definition no_manifest :: "fs \<Rightarrow> string \<Rightarrow> string \<Rightarrow> bool" where
  "no_manifest fs r n \<longleftrightarrow>
     (case fs_at fs (skills_place r @ [n, ''SKILL.md'']) of Some (Reg s) \<Rightarrow> False | _ \<Rightarrow> True)"

lemma no_manifest_iff: "no_manifest fs r n \<longleftrightarrow> (\<nexists>s. fs_at fs (skills_place r @ [n, ''SKILL.md'']) = Some (Reg s))"
  by (auto simp: no_manifest_def split: option.splits kind.splits)

lemma flat_resolved:
  assumes "project_ready env fs0 r" "skill_name_is_valid (Some n)" "no_faults env" "fs_wf fs"
    and "no_manifest fs r n" "fs_at fs (skill_file_place r n) = Some (Reg c)"
  shows "skill_resolve_path env fs (Some r) (Some n) SKILL_PATH_MAX = Some (skill_file r n, SKILL_SOURCE_PROJECT)"
    and "c \<noteq> [] \<Longrightarrow> skill_load env fs (Some r) (Some n) = Some (c_string (take SKILL_MAX_SIZE c))"
proof -
  note w = project_skills_whole [OF assms(1)] and f = project_skill_file [OF assms(1,2)]
  have lf: "locate fs (skill_file r n) = Inr (skill_file_place r n)"
    by (rule plain_locate_at [OF f(2) assms(4)]) (use assms(6) in simp)
  have nm: "name_ok n" "name_ok ''SKILL.md''"
    using skill_name_valid_chars [OF assms(2)] md_names(3) [OF assms(2)] by (auto simp: name_ok_def cstr_def)
  have pm: "plain ((project_skills r @ CHR ''/'' # n) @ CHR ''/'' # ''SKILL.md'')
      ((skills_place r @ [n]) @ [''SKILL.md''])"
    by (intro plain_sub w(3) nm)
  have "\<not> skill_regular_file env fs ((project_skills r @ CHR ''/'' # n) @ CHR ''/'' # ''SKILL.md'')"
    using plain_locate(1) [OF pm assms(4)] assms(5)
    unfolding skill_regular_file_iff no_manifest_iff by (metis append.assoc append_Cons append_Nil)
  moreover have "skill_regular_file env fs (skill_file r n)"
    using lf assms(3,6) by (simp add: skill_regular_file_iff)
  ultimately show res: "skill_resolve_path env fs (Some r) (Some n) SKILL_PATH_MAX
      = Some (skill_file r n, SKILL_SOURCE_PROJECT)"
    using w(4) valid_given [OF assms(2)] project_skill_try [OF assms(1,2)]
    by (simp add: skill_resolve_path_def SKILL_PATH_MAX_def)
  show "c \<noteq> [] \<Longrightarrow> skill_load env fs (Some r) (Some n) = Some (c_string (take SKILL_MAX_SIZE c))"
    using skill_load_resolved [OF assms(3) res lf assms(6)] by simp
qed

section \<open>Writing a file below the skills directory\<close>

abbreviation tmp_name :: "env \<Rightarrow> string \<Rightarrow> string" where
  "tmp_name env n \<equiv> n @ ''.tmp.'' @ show_nat (getpid env)"

abbreviation text_of :: "string option \<Rightarrow> string" where
  "text_of t \<equiv> (case t of None \<Rightarrow> [] | Some c \<Rightarrow> c)"

lemma write_text_result:
  assumes "plain d q" "name_ok n" "length (d @ CHR ''/'' # n) < SKILL_PATH_MAX" "pid_fits env" "fs_wf fs"
    and "skill_write_text_file env fs (d @ CHR ''/'' # n) content cap = (fs', ok)"
  shows "fs_wf fs'" "\<And>x. is_dir fs' x \<longleftrightarrow> is_dir fs x"
    and "\<And>x. x \<noteq> q @ [n] \<Longrightarrow> x \<noteq> q @ [tmp_name env n] \<Longrightarrow> fs_at fs' x = fs_at fs x"
    and "fs_at fs' (q @ [n]) = (if ok then Some (Reg (text_of content)) else fs_at fs (q @ [n]))"
    and "ok \<Longrightarrow> text_of content \<noteq> [] \<and> length (text_of content) \<le> cap"
proof -
  let ?p = "d @ CHR ''/'' # n" and ?t = "text_of content"
  have d: "d \<noteq> []" "cstr ?p" using plain_sub [OF assms(1,2)] assms(1) by (auto simp: plain_def)
  have "fs_wf fs' \<and> (\<forall>x. is_dir fs' x \<longleftrightarrow> is_dir fs x)
    \<and> (\<forall>x. x \<noteq> q @ [n] \<longrightarrow> x \<noteq> q @ [tmp_name env n] \<longrightarrow> fs_at fs' x = fs_at fs x)
    \<and> fs_at fs' (q @ [n]) = (if ok then Some (Reg ?t) else fs_at fs (q @ [n]))
    \<and> (ok \<longrightarrow> ?t \<noteq> [] \<and> length ?t \<le> cap)"
  proof (cases "?t = [] \<or> length ?t > cap")
    case True
    then show ?thesis using assms(5,6) by (auto simp: skill_write_text_file_def Let_def)
  next
    case False
    then have rp: "replace_file env fs ?p ?t = (fs', ok)"
      using assms(6) by (simp add: skill_write_text_file_def Let_def)
    show ?thesis
    proof (cases "locate fs ?p")
      case (Inl e)
      have tmp: "tmp_path env ?p = d @ CHR ''/'' # tmp_name env n"
        using tmp_path_plain [OF assms(3,4)] by simp
      have nn: "n \<noteq> []" "n \<noteq> ''.''" "n \<noteq> ''..''" "CHR ''/'' \<notin> set n" using assms(2) by (auto simp: name_ok_def)
      have tn: "tmp_name env n \<noteq> []" "tmp_name env n \<noteq> ''.''" "tmp_name env n \<noteq> ''..''"
        "CHR ''/'' \<notin> set (tmp_name env n)"
        using nn show_nat_plain(2) by (auto simp: append_eq_Cons_conv)
      have "\<exists>e. locate fs (tmp_path env ?p) = Inl e"
        unfolding tmp locate_child [OF d(1) tn] using Inl locate_child [OF d(1) nn, of fs]
        by (auto split: sum.splits option.splits kind.splits)
      then have "c_write_file env fs (tmp_path env ?p) ?t = None"
        by (auto simp: c_write_file_def sys_path_def)
      with rp False assms(5) show ?thesis by (simp add: replace_file_def)
    next
      case (Inr z)
      note tl = tmp_path_locate [OF refl assms(3,4) d(2,1) assms(2) Inr]
      have z: "z = q @ [n]" using plain_locate(1) [OF plain_sub [OF assms(1,2)] assms(5) Inr] .
      note r = replace_file_result [OF rp assms(5) d(2) tl(1,2) Inr tl(3)]
        and rd = replace_file_dirs [OF rp assms(5) d(2) tl(1,2) Inr tl(3)]
      show ?thesis using r rd False z by simp
    qed
  qed
  then show "fs_wf fs'" "\<And>x. is_dir fs' x \<longleftrightarrow> is_dir fs x"
    "\<And>x. x \<noteq> q @ [n] \<Longrightarrow> x \<noteq> q @ [tmp_name env n] \<Longrightarrow> fs_at fs' x = fs_at fs x"
    "fs_at fs' (q @ [n]) = (if ok then Some (Reg ?t) else fs_at fs (q @ [n]))"
    "ok \<Longrightarrow> ?t \<noteq> [] \<and> length ?t \<le> cap" by auto
qed

lemma write_text_ok:
  assumes "plain d q" "name_ok n" "length (d @ CHR ''/'' # n) < SKILL_PATH_MAX" "pid_fits env" "fs_wf fs"
    and "no_faults env" "is_dir fs q" "writable fs (q @ [n])" "writable fs (q @ [tmp_name env n])"
    and "text_of content \<noteq> []" "length (text_of content) \<le> cap"
  shows "snd (skill_write_text_file env fs (d @ CHR ''/'' # n) content cap)"
proof -
  let ?p = "d @ CHR ''/'' # n"
  have d: "d \<noteq> []" "cstr ?p" using plain_sub [OF assms(1,2)] assms(1) by (auto simp: plain_def)
  have z: "locate fs ?p = Inr (q @ [n])"
    using plain_locate_dir [OF plain_sub [OF assms(1,2)] assms(5)] assms(7) by simp
  note tl = tmp_path_locate [OF refl assms(3,4) d(2,1) assms(2) z]
  have "snd (replace_file env fs ?p (text_of content))"
    by (rule replace_file_ok [OF assms(6,5) tl(2) z tl(3)]) (use assms(8,9) in simp_all)
  then show ?thesis using assms(10,11) by (simp add: skill_write_text_file_def Let_def)
qed

section \<open>Making the skills directory\<close>

text \<open>On a plain path only the directories on the way to it are made.\<close>

definition dirs_made :: "path \<Rightarrow> fs \<Rightarrow> fs \<Rightarrow> bool" where
  "dirs_made q fs fs' \<longleftrightarrow> (fs_wf fs \<longrightarrow> fs_wf fs')
     \<and> (\<forall>x. fs_at fs' x = fs_at fs x \<or> (fs_at fs x = None \<and> is_dir fs' x \<and> prefix x q))"

lemma dirs_made_at: "dirs_made q fs fs' \<Longrightarrow> fs_at fs x \<noteq> None \<or> \<not> prefix x q \<Longrightarrow> fs_at fs' x = fs_at fs x"
  unfolding dirs_made_def by metis

lemma mkdirs_plain:
  assumes "mkdirs env fs ds = (fs', ok)"
    and "\<And>d. d \<in> set ds \<Longrightarrow> cstr d \<and> prefix (path_parts d) q" "''..'' \<notin> set q"
  shows "dirs_made q fs fs'"
  using assms(1,2)
proof (induction ds arbitrary: fs)
  case (Cons d ds)
  show ?case
  proof (cases "mkdir_or_dir env fs d")
    case None
    with Cons.prems show ?thesis by (simp add: dirs_made_def)
  next
    case (Some fs1)
    have rest: "dirs_made q fs1 fs'" by (rule Cons.IH) (use Cons.prems Some in auto)
    have d: "cstr d" "prefix (path_parts d) q" using Cons.prems(2) by auto
    then have nd: "''..'' \<notin> set (path_parts d)" using assms(3) set_mono_prefix by blast
    have "fs1 = fs \<or> (\<exists>x. prefix x q \<and> x \<noteq> [] \<and> fs_at fs x = None \<and> fs1 = fs_put x Dir fs)"
    proof (cases "c_mkdir env fs d")
      case (Inl e)
      then show ?thesis using Some by (auto simp: mkdir_or_dir_def split: sum.splits if_splits)
    next
      case (Inr g)
      from c_mkdir_Inr [OF Inr] obtain x where
        x: "locate fs d = Inr x" "x \<noteq> []" "fs_at fs x = None" "g = fs_put x Dir fs" by blast
      have "x = path_parts d" by (rule locate_plain_Inr [OF refl nd x(1)])
      with x d(2) Inr Some show ?thesis by (auto simp: mkdir_or_dir_def)
    qed
    moreover have "fs_wf fs \<longrightarrow> fs_wf fs1" using mkdir_or_dir_Some(3) [OF Some _ d(1)] by blast
    ultimately have "dirs_made q fs fs1" unfolding dirs_made_def by (metis fs_at_put fun_upd_apply)
    with rest show ?thesis unfolding dirs_made_def by metis
  qed
qed (simp add: dirs_made_def)

lemma mkdir_p_plain:
  assumes "skill_mkdir_p env fs p = (fs', ok)" "plain p q" "length p < SKILL_PATH_MAX"
  shows "dirs_made q fs fs'"
proof (rule mkdirs_plain)
  show "mkdirs env fs (slash_cuts p @ [p]) = (fs', ok)" using assms(1,3) by (simp add: skill_mkdir_p_def)
  show "''..'' \<notin> set q" using assms(2) by (simp add: plain_def)
  fix d assume d: "d \<in> set (slash_cuts p @ [p])"
  show "cstr d \<and> prefix (path_parts d) q"
  proof (cases "d = p")
    case True
    then show ?thesis using assms(2) by (simp add: plain_def)
  next
    case False
    with d obtain i where i: "d = take i p" "i < length p" "p ! i = CHR ''/''" by (auto simp: slash_cuts_def)
    then have "p = d @ CHR ''/'' # drop (Suc i) p" using id_take_nth_drop [of i p] by simp
    then have "q = path_parts d @ path_parts (drop (Suc i) p)"
      using assms(2) path_parts_append [of d "drop (Suc i) p"] by (simp add: plain_def)
    with i(1) assms(2) show ?thesis by (auto simp: plain_def cstr_def dest: in_set_takeD)
  qed
qed

section \<open>Creating a skill\<close>

text \<open>
  Every failure of \<open>skill_manage_create\<close> leaves the skill file as it was; success means both
  checks passed, the file was not there, and now holds the content.
\<close>

definition skill_accepted :: "string \<Rightarrow> string \<Rightarrow> bool" where
  "skill_accepted n c \<longleftrightarrow> skill_body_poison_check (Some c) = None \<and> lint_accepts n c
     \<and> c \<noteq> [] \<and> length c \<le> SKILL_MAX_SIZE"

text \<open>
  The entries an operation on a project skill may touch: the skill file, its temporary file and
  telemetry may change, and missing directories on the way to the skills may be made. Nothing
  else is changed, removed or new.
\<close>

definition managed_only :: "env \<Rightarrow> string \<Rightarrow> string \<Rightarrow> fs \<Rightarrow> fs \<Rightarrow> bool" where
  "managed_only env r n fs fs' \<longleftrightarrow> fs_wf fs' \<and> (no_manifest fs r n \<longrightarrow> no_manifest fs' r n)
     \<and> (\<forall>x. (x = [] \<or> \<not> sidecar_name (last x)) \<and> x \<noteq> skill_file_place r n
          \<and> x \<noteq> skills_place r @ [tmp_name env (n @ ''.md'')] \<longrightarrow> fs_at fs' x = fs_at fs x
            \<or> fs_at fs x = None \<and> is_dir fs' x \<and> prefix x (skills_place r))
     \<and> (\<forall>x. is_dir fs x \<longrightarrow> is_dir fs' x) \<and> (\<forall>x. is_dir fs' x \<longrightarrow> is_dir fs x \<or> prefix x (skills_place r))"

lemma managed_only_refl: "fs_wf fs \<Longrightarrow> managed_only env r n fs fs"
  by (simp add: managed_only_def)

lemma managed_only_trans: "managed_only env r n fs g \<Longrightarrow> managed_only env r n g h \<Longrightarrow> managed_only env r n fs h"
  unfolding managed_only_def by metis

lemma skill_file_place_not_below: "\<not> prefix (skill_file_place r n) (skills_place r)"
  by (auto simp: skill_file_place_def dest: prefix_length_le)

lemma dirs_made_managed:
  assumes "dirs_made (skills_place r) fs g" "fs_wf fs"
  shows "managed_only env r n fs g" "fs_at g (skill_file_place r n) = fs_at fs (skill_file_place r n)"
proof -
  show "fs_at g (skill_file_place r n) = fs_at fs (skill_file_place r n)"
    using dirs_made_at [OF assms(1)] skill_file_place_not_below by blast
  have "no_manifest fs r n \<longrightarrow> no_manifest g r n"
    using assms(1) unfolding dirs_made_def no_manifest_iff by (metis kind.distinct(1) option.inject)
  moreover have "fs_wf g" using assms by (simp add: dirs_made_def)
  ultimately show "managed_only env r n fs g"
    using assms(1) unfolding managed_only_def dirs_made_def by metis
qed

lemma write_skill_managed:
  assumes "project_ready env fs0 r" "skill_name_is_valid (Some n)" "fs_wf g"
    and "skill_write_text_file env g (skill_file r n) content SKILL_MAX_SIZE = (h, k)"
  shows "managed_only env r n g h"
    and "fs_at h (skill_file_place r n) = (if k then Some (Reg (text_of content)) else fs_at g (skill_file_place r n))"
    and "k \<Longrightarrow> text_of content \<noteq> [] \<and> length (text_of content) \<le> SKILL_MAX_SIZE"
proof -
  note w = project_skills_whole [OF assms(1)] and m = md_names [OF assms(2)]
  have len: "length (project_skills r @ CHR ''/'' # (n @ ''.md'')) < SKILL_PATH_MAX"
    using project_skill_file(3) [OF assms(1,2)] by (simp add: skill_file_def SKILL_PATH_MAX_def)
  note t = write_text_result [OF w(3) m(1) len project_ready_bases(2) [OF assms(1)] assms(3,4) [unfolded skill_file_def]]
  have "skills_place r @ [n, ''SKILL.md''] \<noteq> skills_place r @ [x]" for x by simp
  then have "no_manifest g r n \<longrightarrow> no_manifest h r n" using t(3) unfolding no_manifest_iff by metis
  with t show "managed_only env r n g h" by (simp add: managed_only_def skill_file_place_def)
  from t(4) show "fs_at h (skill_file_place r n)
      = (if k then Some (Reg (text_of content)) else fs_at g (skill_file_place r n))"
    by (simp add: skill_file_place_def)
  show "k \<Longrightarrow> text_of content \<noteq> [] \<and> length (text_of content) \<le> SKILL_MAX_SIZE" by (rule t(5))
qed

lemma sidecar_managed:
  assumes "skill_name_is_valid (Some n)" "sidecar_only g h" "fs_wf g"
  shows "managed_only env r n g h" "fs_at h (skill_file_place r n) = fs_at g (skill_file_place r n)"
proof -
  have "\<not> sidecar_name (last (skills_place r @ [n, ''SKILL.md'']))" "\<not> sidecar_name (last (skill_file_place r n))"
    using md_names [OF assms(1)] by (simp_all add: skill_file_place_def)
  then have k: "fs_at h (skills_place r @ [n, ''SKILL.md'']) = fs_at g (skills_place r @ [n, ''SKILL.md''])"
    "fs_at h (skill_file_place r n) = fs_at g (skill_file_place r n)"
    using assms(2) unfolding sidecar_only_def by blast+
  then show "fs_at h (skill_file_place r n) = fs_at g (skill_file_place r n)" by simp
  show "managed_only env r n g h"
    using k(1) assms(2,3) unfolding managed_only_def sidecar_only_def no_manifest_iff by metis
qed

lemma mutation_managed:
  assumes "project_ready env fs0 r" "skill_name_is_valid (Some n)" "fs_wf g"
    and "skill_record_mutation J env g (Some r) (Some n) mu = (h, k)"
  shows "managed_only env r n g h" "fs_at h (skill_file_place r n) = fs_at g (skill_file_place r n)"
  using sidecar_managed [OF assms(2) mutation.write_only [OF assms(2) project_ready_bases(1) [OF assms(1)] assms(3,4)]
    assms(3)] .

lemma mkdir_skills:
  assumes "project_ready env fs0 r" "skill_mkdir_p env fs (project_skills r) = (g, k)"
  shows "dirs_made (skills_place r) fs g"
  using mkdir_p_plain [OF assms(2) project_skills_whole(3) [OF assms(1)]] project_skills_whole(2) [OF assms(1)]
  by (simp add: SKILL_PATH_MAX_def)

lemma create_result:
  assumes "project_ready env fs r" "skill_name_is_valid (Some n)"
    and "skill_manage_create J env fs (Some r) (Some n) (Some c) creator = (fs', out)"
  shows "managed_only env r n fs fs'"
    and "out \<noteq> Inr () \<Longrightarrow> fs_at fs' (skill_file_place r n) = fs_at fs (skill_file_place r n)"
    and "out = Inr () \<Longrightarrow> skill_accepted n c \<and> \<not> c_access env fs (skill_file r n)
      \<and> fs_at fs' (skill_file_place r n) = Some (Reg c)"
proof -
  let ?q = "skill_file_place r n"
  have wf: "fs_wf fs" using assms(1) by (simp add: project_ready_def)
  consider (refused) "fs' = fs" "out \<noteq> Inr ()"
    | (nodir) "skill_mkdir_p env fs (project_skills r) = (fs', False)" "out \<noteq> Inr ()"
    | (unwritten) g where "skill_mkdir_p env fs (project_skills r) = (g, True)" "out \<noteq> Inr ()"
        "skill_write_text_file env g (skill_file r n) (Some c) SKILL_MAX_SIZE = (fs', False)"
    | (written) g h where "skill_mkdir_p env fs (project_skills r) = (g, True)" "out = Inr ()"
        "skill_write_text_file env g (skill_file r n) (Some c) SKILL_MAX_SIZE = (h, True)"
        "skill_body_poison_check (Some c) = None" "lint_accepts n c" "\<not> c_access env fs (skill_file r n)"
        "fs' = fst (skill_record_mutation J env h (Some r) (Some n)
           (no_mutation\<lparr>actor := creator, new_state := Some ''active''\<rparr>))"
    using assms(3) project_skill_file(1) [OF assms(1,2)] skill_lint_content_accepts [of n c 512]
    by (auto simp: skill_manage_create_def Let_def split: option.splits prod.splits if_splits)
  then have "managed_only env r n fs fs' \<and> (out \<noteq> Inr () \<longrightarrow> fs_at fs' ?q = fs_at fs ?q)
    \<and> (out = Inr () \<longrightarrow> skill_accepted n c \<and> \<not> c_access env fs (skill_file r n) \<and> fs_at fs' ?q = Some (Reg c))"
  proof cases
    case refused
    then show ?thesis using managed_only_refl [OF wf] by simp
  next
    case nodir
    show ?thesis using dirs_made_managed [OF mkdir_skills [OF assms(1) nodir(1)] wf] nodir(2) by simp
  next
    case (unwritten g)
    note d = dirs_made_managed [OF mkdir_skills [OF assms(1) unwritten(1)] wf]
    have "fs_wf g" using d(1) by (simp add: managed_only_def)
    note t = write_skill_managed [OF assms(1,2) this unwritten(3)]
    show ?thesis using managed_only_trans [OF d(1) t(1)] d(2) t(2) unwritten(2) by simp
  next
    case (written g h)
    note d = dirs_made_managed [OF mkdir_skills [OF assms(1) written(1)] wf]
    have "fs_wf g" using d(1) by (simp add: managed_only_def)
    note t = write_skill_managed [OF assms(1,2) this written(3)]
    have "fs_wf h" using t(1) by (simp add: managed_only_def)
    moreover obtain k where "skill_record_mutation J env h (Some r) (Some n)
        (no_mutation\<lparr>actor := creator, new_state := Some ''active''\<rparr>) = (fs', k)"
      using written(7) by (metis prod.collapse)
    ultimately have u: "managed_only env r n h fs'" "fs_at fs' ?q = fs_at h ?q"
      using mutation_managed [OF assms(1,2)] by blast+
    show ?thesis
      using managed_only_trans [OF managed_only_trans [OF d(1) t(1)] u(1)] u(2) t(2,3) written
      by (simp add: skill_accepted_def)
  qed
  then show "managed_only env r n fs fs'"
    "out \<noteq> Inr () \<Longrightarrow> fs_at fs' ?q = fs_at fs ?q"
    "out = Inr () \<Longrightarrow> skill_accepted n c \<and> \<not> c_access env fs (skill_file r n) \<and> fs_at fs' ?q = Some (Reg c)"
    by blast+
qed

lemma skill_file_unseen:
  assumes "project_ready env fs r" "skill_name_is_valid (Some n)" "\<not> c_access env fs (skill_file r n)"
    and "\<not> fault env Access (skill_file r n)"
  shows "fs_at fs (skill_file_place r n) = None"
proof (rule ccontr)
  assume at: "fs_at fs (skill_file_place r n) \<noteq> None"
  have "fs_wf fs" using assms(1) by (simp add: project_ready_def)
  from plain_locate_at [OF project_skill_file(2) [OF assms(1,2)] this at] at assms(3,4) show False
    by (auto simp: c_access_def c_stat_def sys_path_def)
qed

text \<open>Room for a new skill: its file is free, and so are the names on the way to it.\<close>

definition file_or_free :: "fs \<Rightarrow> path \<Rightarrow> bool" where
  "file_or_free fs q \<longleftrightarrow> (case fs_at fs q of None \<Rightarrow> True | Some (Reg s) \<Rightarrow> True | _ \<Rightarrow> False)"

definition room_for :: "env \<Rightarrow> fs \<Rightarrow> string \<Rightarrow> string \<Rightarrow> bool" where
  "room_for env fs r n \<longleftrightarrow> fs_at fs (skill_file_place r n) = None
     \<and> list_all (\<lambda>x. fs_at fs x = None \<or> is_dir fs x) (prefixes (skills_place r))
     \<and> file_or_free fs (skills_place r @ [tmp_name env (n @ ''.md'')])"

lemma file_or_free_iff: "file_or_free fs q \<longleftrightarrow> fs_at fs q = None \<or> (\<exists>s. fs_at fs q = Some (Reg s))"
  by (auto simp: file_or_free_def split: option.splits kind.splits)

lemma create_succeeds:
  assumes "project_ready env fs r" "skill_name_is_valid (Some n)" "no_faults env" "skill_accepted n c"
    and "room_for env fs r n"
  shows "snd (skill_manage_create J env fs (Some r) (Some n) (Some c) creator) = Inr ()"
proof -
  let ?q = "skill_file_place r n" and ?S = "skills_place r"
  note w = project_skills_whole [OF assms(1)] and f = project_skill_file [OF assms(1,2)]
  note b = project_ready_bases [OF assms(1)]
  have wf: "fs_wf fs" using assms(1) by (simp add: project_ready_def)
  have p: "project_skills r \<noteq> []" "''..'' \<notin> set ?S" "cstr (project_skills r)" using w(3) by (auto simp: plain_def)
  have room: "fs_at fs ?q = None" "prefix x ?S \<Longrightarrow> fs_at fs x = None \<or> is_dir fs x"
    "file_or_free fs (?S @ [tmp_name env (n @ ''.md'')])" for x
    using assms(5) by (auto simp: room_for_def list_all_iff)
  have "\<not> c_access env fs (skill_file r n)"
    using plain_locate(1) [OF f(2) wf] room(1)
    by (auto simp: c_access_def c_stat_def sys_path_def split: sum.splits option.splits)
  moreover obtain g where g: "skill_mkdir_p env fs (project_skills r) = (g, True)"
    "fs_at g = dir_added ?S (fs_at fs)"
    using mkdir_p_ok [OF assms(3) wf p room(2)] w(2) by (auto simp: skill_mkdir_p_def SKILL_PATH_MAX_def)
  have wfg: "fs_wf g" using skill_mkdir_p_result(3) [OF g(1) wf p(3)] .
  have at: "fs_at g (?S @ [x]) = fs_at fs (?S @ [x])" for x
    by (auto simp: g(2) dir_added_def dest: prefix_length_le)
  have dg: "is_dir g ?S" by (simp add: g(2) dir_added_def)
  have "snd (skill_write_text_file env g (project_skills r @ CHR ''/'' # (n @ ''.md'')) (Some c) SKILL_MAX_SIZE)"
  proof (rule write_text_ok [OF w(3) md_names(1) [OF assms(2)] _ b(2) wfg assms(3) dg])
    show "length (project_skills r @ CHR ''/'' # n @ ''.md'') < SKILL_PATH_MAX"
      using f(3) by (simp add: skill_file_def SKILL_PATH_MAX_def)
    show "writable g (?S @ [n @ ''.md''])"
      using room(1) at dg by (simp add: writable_def skill_file_place_def)
    show "writable g (?S @ [tmp_name env (n @ ''.md'')])"
      using room(3) at dg unfolding file_or_free_iff writable_def by simp
    show "text_of (Some c) \<noteq> []" "length (text_of (Some c)) \<le> SKILL_MAX_SIZE"
      using assms(4) by (auto simp: skill_accepted_def)
  qed
  ultimately show ?thesis
    using f(1) g(1) assms(4) skill_lint_content_accepts [of n c 512]
    by (auto simp: skill_manage_create_def Let_def skill_accepted_def skill_file_def split: prod.splits)
qed

lemma create_then_load:
  assumes "project_ready env fs r" "skill_name_is_valid (Some n)" "no_faults env" "skill_accepted n c"
    and "room_for env fs r n" "no_manifest fs r n" "cstr c"
  shows "\<exists>fs'. skill_manage_create J env fs (Some r) (Some n) (Some c) creator = (fs', Inr ())
    \<and> skill_load env fs' (Some r) (Some n) = Some c \<and> skill_source env fs' (Some r) (Some n) = Some ''project''"
proof -
  obtain fs' where c: "skill_manage_create J env fs (Some r) (Some n) (Some c) creator = (fs', Inr ())"
    using create_succeeds [OF assms(1-5), of J creator] by (metis prod.collapse)
  note res = create_result [OF assms(1,2) c]
  have "fs_wf fs'" "no_manifest fs' r n" using res(1) assms(6) by (auto simp: managed_only_def)
  moreover have "fs_at fs' (skill_file_place r n) = Some (Reg c)" using res(3) by simp
  moreover have "c \<noteq> []" "c_string (take SKILL_MAX_SIZE c) = c"
    using assms(4,7) by (auto simp: skill_accepted_def)
  ultimately show ?thesis
    using c flat_resolved [OF assms(1-3), of fs' c] by (simp add: skill_source_def)
qed

section \<open>Editing\<close>

lemma edit_result:
  assumes "project_ready env fs r" "skill_name_is_valid (Some n)"
    and "skill_manage_edit J env fs (Some r) (Some n) (Some c) updated_by = (fs', out)"
  shows "managed_only env r n fs fs'"
    and "out = Inl (Some msg) \<Longrightarrow> fs_at fs' (skill_file_place r n) = fs_at fs (skill_file_place r n)"
    and "out = Inr () \<or> out = Inl None \<Longrightarrow> lint_accepts n c \<and> c_access env fs (skill_file r n)
      \<and> fs_at fs' (skill_file_place r n) = Some (Reg c) \<and> c \<noteq> [] \<and> length c \<le> SKILL_MAX_SIZE
      \<and> (\<exists>h. skill_write_text_file env fs (skill_file r n) (Some c) SKILL_MAX_SIZE = (h, True)
          \<and> skill_record_mutation J env h (Some r) (Some n)
              (no_mutation\<lparr>actor := updated_by, bump_patch := True, new_state := Some ''active''\<rparr>)
            = (fs', out = Inr ()))"
proof -
  let ?q = "skill_file_place r n"
  let ?tel = "\<exists>h. skill_write_text_file env fs (skill_file r n) (Some c) SKILL_MAX_SIZE = (h, True)
      \<and> skill_record_mutation J env h (Some r) (Some n)
          (no_mutation\<lparr>actor := updated_by, bump_patch := True, new_state := Some ''active''\<rparr>)
        = (fs', out = Inr ())"
  have wf: "fs_wf fs" using assms(1) by (simp add: project_ready_def)
  consider (refused) "fs' = fs" "\<exists>m. out = Inl (Some m)"
    | (unwritten) "\<exists>m. out = Inl (Some m)"
        "skill_write_text_file env fs (skill_file r n) (Some c) SKILL_MAX_SIZE = (fs', False)"
    | (written) h where "skill_write_text_file env fs (skill_file r n) (Some c) SKILL_MAX_SIZE = (h, True)"
        "lint_accepts n c" "c_access env fs (skill_file r n)"
        "mutation_outcome (skill_record_mutation J env h (Some r) (Some n)
           (no_mutation\<lparr>actor := updated_by, bump_patch := True, new_state := Some ''active''\<rparr>)) = (fs', out)"
    using assms(3) project_skill_file(1) [OF assms(1,2)] skill_lint_content_accepts [of n c 512]
    by (auto simp: skill_manage_edit_def Let_def split: option.splits prod.splits if_splits)
  then have "managed_only env r n fs fs' \<and> (\<forall>m. out = Inl (Some m) \<longrightarrow> fs_at fs' ?q = fs_at fs ?q)
    \<and> (out = Inr () \<or> out = Inl None \<longrightarrow> lint_accepts n c \<and> c_access env fs (skill_file r n)
      \<and> fs_at fs' ?q = Some (Reg c) \<and> c \<noteq> [] \<and> length c \<le> SKILL_MAX_SIZE \<and> ?tel)"
  proof cases
    case refused
    then show ?thesis using managed_only_refl [OF wf] by auto
  next
    case unwritten
    from write_skill_managed [OF assms(1,2) wf unwritten(2)] unwritten(1) show ?thesis by auto
  next
    case (written h)
    obtain k where k: "skill_record_mutation J env h (Some r) (Some n)
        (no_mutation\<lparr>actor := updated_by, bump_patch := True, new_state := Some ''active''\<rparr>) = (fs', k)"
      using written(4) unfolding mutation_outcome_def by (metis fst_conv prod.collapse)
    note t = write_skill_managed [OF assms(1,2) wf written(1)]
    have "fs_wf h" using t(1) by (simp add: managed_only_def)
    note u = mutation_managed [OF assms(1,2) this k]
    have out: "out = (if k then Inr () else Inl None)" using written(4) k by (simp add: mutation_outcome_def)
    with written(1) k have ?tel by auto
    with out show ?thesis using managed_only_trans [OF t(1) u(1)] u(2) t(2,3) written(2,3) by auto
  qed
  then show "managed_only env r n fs fs'"
    "out = Inl (Some msg) \<Longrightarrow> fs_at fs' ?q = fs_at fs ?q"
    "out = Inr () \<or> out = Inl None \<Longrightarrow> lint_accepts n c \<and> c_access env fs (skill_file r n)
      \<and> fs_at fs' ?q = Some (Reg c) \<and> c \<noteq> [] \<and> length c \<le> SKILL_MAX_SIZE \<and> ?tel" by blast+
qed

section \<open>Patching\<close>

text \<open>The dynamic string keeps what was appended (it is not part of the repository).\<close>

definition dstr_ok :: "env \<Rightarrow> bool" where
  "dstr_ok env \<longleftrightarrow> (\<forall>ps s. dstr_steal env ps = Some s \<longrightarrow> s = concat ps)"

lemma patch_result:
  assumes "project_ready env fs r" "skill_name_is_valid (Some n)" "dstr_ok env"
    and "skill_manage_patch J env fs (Some r) (Some n) (Some old) (Some new) everywhere author = (fs', Inr ())"
  shows "managed_only env r n fs fs' \<and> (\<exists>tx. skill_load env fs (Some r) (Some n) = Some tx
    \<and> fs_at fs' (skill_file_place r n)
        = Some (Reg (concat (snd (patch_loop everywhere old new tx 0))))
    \<and> fst (patch_loop everywhere old new tx 0) \<noteq> 0
    \<and> lint_accepts n (concat (snd (patch_loop everywhere old new tx 0))))"
proof -
  from assms(4) obtain tx hits ps s where p: "skill_load env fs (Some r) (Some n) = Some tx"
    "patch_loop everywhere old new tx 0 = (hits, ps)" "dstr_steal env ps = Some s" "hits \<noteq> 0"
    "skill_manage_edit J env fs (Some r) (Some n) (Some s) author = (fs', Inr ())"
    by (auto simp: skill_manage_patch_def split: option.splits prod.splits if_splits)
  have "s = concat ps" using p(3) assms(3) by (simp add: dstr_ok_def)
  with edit_result(1,3) [OF assms(1,2) p(5)] p(1,2,4) show ?thesis by auto
qed

section \<open>Archiving\<close>

definition archive_place :: "string \<Rightarrow> string \<Rightarrow> path" where
  "archive_place r n = skills_place r @ [''.archive'', n @ ''.md'']"

lemma archive_paths:
  assumes "project_ready env fs r" "skill_name_is_valid (Some n)"
  shows "archive_dir r = project_skills r @ CHR ''/'' # ''.archive''"
    and "plain (archive_dir r) (skills_place r @ [''.archive''])"
    and "archive_path r n = archive_dir r @ CHR ''/'' # (n @ ''.md'')"
    and "plain (archive_path r n) (archive_place r n)" "length (archive_dir r) < SKILL_PATH_MAX"
proof -
  note w = project_skills_whole [OF assms(1)] and m = md_names(1) [OF assms(2)]
  show a: "archive_dir r = project_skills r @ CHR ''/'' # ''.archive''"
    using w(1,2) by (simp add: archive_dir_def SKILL_PATH_MAX_def)
  with w(2) show "length (archive_dir r) < SKILL_PATH_MAX" by (simp add: SKILL_PATH_MAX_def)
  show pa: "plain (archive_dir r) (skills_place r @ [''.archive''])"
    unfolding a by (rule plain_sub [OF w(3)]) (simp add: name_ok_def cstr_def)
  show p: "archive_path r n = archive_dir r @ CHR ''/'' # (n @ ''.md'')"
    using a w(2) skill_name_valid_chars(2) [OF assms(2)] by (simp add: archive_path_def SKILL_PATH_MAX_def)
  show "plain (archive_path r n) (archive_place r n)"
    unfolding p archive_place_def using plain_sub [OF pa m] by simp
qed

lemma archive_refuses_pinned:
  assumes "skill_usage_get J env fs pr n = Some u" "pinned u"
  shows "skill_manage_archive J env fs pr n absorbed = (fs, failed ''pinned skills cannot be archived'')"
  using assms by (simp add: skill_manage_archive_def)

lemma archive_cases:
  assumes "project_ready env fs0 r" "skill_name_is_valid (Some n)"
    and "skill_manage_archive J env fs (Some r) (Some n) absorbed = (fs', out)"
  obtains (nothing) "fs' = fs" "out \<noteq> Inr ()"
    | (nodir) k where "skill_mkdir_p env fs (archive_dir r) = (fs', k)" "out \<noteq> Inr ()"
    | (mark) g mu k where "skill_mkdir_p env fs (archive_dir r) = (g, True)" "out \<noteq> Inr ()"
        "skill_record_mutation J env g (Some r) (Some n) mu = (fs', k)"
    | (move) g mu h where "skill_mkdir_p env fs (archive_dir r) = (g, True)" "out = Inr ()"
        "\<not> c_access env g (archive_path r n)"
        "skill_record_mutation J env g (Some r) (Some n) mu = (h, True)"
        "c_rename env h (skill_file r n) (archive_path r n) = Inr fs'"
  using assms(3) project_skill_file(1) [OF assms(1,2)]
  by (auto simp: skill_manage_archive_def Let_def split: option.splits prod.splits if_splits sum.splits)

text \<open>
  Archiving moves the file as a whole or leaves it: a failure keeps it in place, a success
  has it in the archive, where no file of the name was.
\<close>

lemma archive_result:
  assumes "project_ready env fs r" "skill_name_is_valid (Some n)"
    and "fs_at fs (skill_file_place r n) = Some (Reg c)"
    and "skill_manage_archive J env fs (Some r) (Some n) absorbed = (fs', out)"
  shows "fs_at fs' (skill_file_place r n) = (if out = Inr () then None else Some (Reg c))"
    and "out = Inr () \<Longrightarrow> fs_at fs' (archive_place r n) = Some (Reg c)"
    and "out = Inr () \<Longrightarrow> \<not> fault env Access (archive_path r n) \<Longrightarrow> fs_at fs (archive_place r n) = None"
    and "fs_wf fs'"
proof -
  let ?q = "skill_file_place r n" and ?a = "archive_place r n" and ?dst = "archive_path r n"
  note f = project_skill_file [OF assms(1,2)] and ap = archive_paths [OF assms(1,2)]
  have wf: "fs_wf fs" using assms(1) by (simp add: project_ready_def)
  have nd: "n @ ''.md'' \<noteq> ''.archive''" using skill_name_valid_chars(1,7) [OF assms(2)] by (cases n) auto
  have out_q: "\<not> prefix ?q (skills_place r @ [''.archive''])"
    using nd by (auto simp: skill_file_place_def)
  have out_a: "\<not> prefix ?a (skills_place r @ [''.archive''])" "?a \<noteq> ?q"
    by (auto simp: archive_place_def skill_file_place_def dest: prefix_length_le)
  have ns: "\<not> sidecar_name (last ?q)" "\<not> sidecar_name (last ?a)"
    using md_names [OF assms(2)] by (simp_all add: skill_file_place_def archive_place_def)
  from assms(1,2,4) have "fs_at fs' ?q = (if out = Inr () then None else Some (Reg c))
    \<and> (out = Inr () \<longrightarrow> fs_at fs' ?a = Some (Reg c) \<and> (\<not> fault env Access ?dst \<longrightarrow> fs_at fs ?a = None))
    \<and> fs_wf fs'"
  proof (cases rule: archive_cases)
    case nothing
    then show ?thesis using assms(3) wf by simp
  next
    case (nodir k)
    from mkdir_p_plain [OF nodir(1) ap(2,5)] have "dirs_made (skills_place r @ [''.archive'']) fs fs'" .
    with dirs_made_at [OF this] out_q nodir(2) assms(3) wf show ?thesis by (auto simp: dirs_made_def)
  next
    case (mark g mu k)
    have d: "dirs_made (skills_place r @ [''.archive'']) fs g" by (rule mkdir_p_plain [OF mark(1) ap(2,5)])
    then have wg: "fs_wf g" using wf by (simp add: dirs_made_def)
    note u = mutation_managed [OF assms(1,2) wg mark(3)]
    show ?thesis using u dirs_made_at [OF d] out_q mark(2) assms(3) by (simp add: managed_only_def)
  next
    case (move g mu h)
    have d: "dirs_made (skills_place r @ [''.archive'']) fs g" by (rule mkdir_p_plain [OF move(1) ap(2,5)])
    then have wg: "fs_wf g" using wf by (simp add: dirs_made_def)
    note so = mutation.write_only [OF assms(2) project_ready_bases(1) [OF assms(1)] wg move(4)]
    have wh: "fs_wf h" using so wg by (simp add: sidecar_only_def)
    have same: "fs_at h x = fs_at g x" if "\<not> sidecar_name (last x)" for x
      using so that by (simp add: sidecar_only_def)
    have hq: "fs_at h ?q = Some (Reg c)" using same [OF ns(1)] dirs_made_at [OF d] out_q assms(3) by simp
    obtain a b where "locate h (skill_file r n) = Inr a" "locate h ?dst = Inr b"
      using c_rename_Inr [OF move(5)] by blast
    then have l: "locate h (skill_file r n) = Inr ?q" "locate h ?dst = Inr ?a"
      using plain_locate(1) [OF f(2) wh] plain_locate(1) [OF ap(4) wh] by simp_all
    have "fs_at g ?a = None" if "\<not> fault env Access ?dst"
    proof (rule ccontr)
      assume "fs_at g ?a \<noteq> None"
      with plain_locate_at [OF ap(4) wg] move(3) that show False
        by (auto simp: c_access_def c_stat_def sys_path_def split: sum.splits option.splits)
    qed
    then have "\<not> fault env Access ?dst \<longrightarrow> fs_at fs ?a = None" using dirs_made_at [OF d, of ?a] out_a(1) by simp
    with c_rename_file [OF move(5) wh l out_a(2) [symmetric] hq] out_a(2) move(2)
      c_rename_wf [OF move(5) wh] ap(4)
    show ?thesis by (auto simp: plain_def)
  qed
  then show "fs_at fs' ?q = (if out = Inr () then None else Some (Reg c))"
    "out = Inr () \<Longrightarrow> fs_at fs' ?a = Some (Reg c)"
    "out = Inr () \<Longrightarrow> \<not> fault env Access ?dst \<Longrightarrow> fs_at fs ?a = None" "fs_wf fs'" by auto
qed

section \<open>Support files\<close>

text \<open>Replacing a file changes nothing but the two places its paths lead to.\<close>

lemma replace_file_frame:
  assumes "replace_file env fs path s = (fs', ok)" "fs_wf fs" "cstr path" "cstr (tmp_path env path)"
    and "\<And>t. locate fs (tmp_path env path) = Inr t \<Longrightarrow> locate fs path \<noteq> Inr t"
    and "\<And>t. locate fs (tmp_path env path) = Inr t \<Longrightarrow> A t" "\<And>q. locate fs path = Inr q \<Longrightarrow> A q"
  shows "fs_wf fs' \<and> (\<forall>x. \<not> A x \<longrightarrow> fs_at fs' x = fs_at fs x)"
proof (cases "c_write_file env fs (tmp_path env path) s")
  case None
  with assms(1,2) show ?thesis by (simp add: replace_file_def)
next
  case (Some r)
  obtain fs1 wok where r: "r = (fs1, wok)" by (cases r)
  from c_write_file_Some [OF Some [unfolded r]] obtain t u where
    t: "locate fs (tmp_path env path) = Inr t" "t \<noteq> []" "\<not> is_dir fs t" "fs1 = fs_put t (Reg u) fs" by blast
  have At: "A t" by (rule assms(6) [OF t(1)])
  have d: "is_dir fs1 x \<longleftrightarrow> is_dir fs x" for x using t by auto
  have l: "locate fs1 p = Inr q \<longleftrightarrow> locate fs p = Inr q" for p q
    using locate_dirs_mono [of fs fs1 p q] locate_dirs_mono [of fs1 fs p q] d by blast
  have wf1: "fs_wf fs1" using c_write_file_wf [OF Some [unfolded r] assms(2,4)] .
  have at: "fs_at fs1 t = Some (Reg u)" "x \<noteq> t \<Longrightarrow> fs_at fs1 x = fs_at fs x" for x using t by simp_all
  have "commit_file env fs1 (tmp_path env path) path wok = (fs', ok)"
    using assms(1) Some r by (simp add: replace_file_def)
  then consider (moved) "c_rename env fs1 (tmp_path env path) path = Inr fs'"
    | (gone) "c_unlink env fs1 (tmp_path env path) = Inr fs'" | (left) "fs' = fs1"
    by (auto simp: commit_file_def split: sum.splits if_splits)
  then show ?thesis
  proof cases
    case moved
    then obtain q where q: "locate fs1 path = Inr q" using c_rename_Inr by blast
    then have lq: "locate fs path = Inr q" using l by blast
    have tq: "t \<noteq> q" using assms(5) [OF t(1)] lq by auto
    have lt: "locate fs1 (tmp_path env path) = Inr t" using l t(1) by blast
    have "fs_at fs' = (fs_at fs1)(t := None, q \<mapsto> Reg u)"
      by (rule c_rename_file [OF moved wf1 lt q tq at(1)])
    with c_rename_wf [OF moved wf1 assms(3)] assms(7) [OF lq] At at(2) show ?thesis by auto
  next
    case gone
    have lt: "locate fs1 (tmp_path env path) = Inr t" using l t(1) by blast
    from c_unlink_Inr [OF gone] lt have "t \<noteq> []" "fs' = fs_del t fs1" by auto
    with c_unlink_wf [OF gone wf1] At at(2) show ?thesis by auto
  next
    case left
    with wf1 At at(2) show ?thesis by metis
  qed
qed

text \<open>The four directories a support file may lie in.\<close>

definition support_dirs :: "string list" where
  "support_dirs = [''references'', ''templates'', ''scripts'', ''assets'']"

definition in_support :: "string \<Rightarrow> path \<Rightarrow> bool" where
  "in_support r x \<longleftrightarrow> list_ex (\<lambda>d. prefix (skills_place r @ [d]) x) support_dirs"

text \<open>The buffers of \<open>skill_manage_write_file\<close>, cut or not: paths below one of the four.\<close>

lemma support_write_paths:
  assumes "project_ready env fs0 r" "skill_support_path_ok (Some p)" "cstr p"
  obtains d z where "d \<in> set support_dirs" "support_path r p = (project_skills r @ CHR ''/'' # d) @ CHR ''/'' # z"
    "\<not> sublist ''..'' z" "cstr z" "length (support_path r p) < SKILL_PATH_MAX"
proof -
  note w = project_skills_whole [OF assms(1)]
  from assms(2) obtain d y where d: "d \<in> set support_dirs" "p = d @ CHR ''/'' # y" "\<not> sublist ''..'' p"
    by (cases rule: skill_support_path_cases) (simp add: support_dirs_def)
  define k where "k = 510 - length (project_skills r) - length d"
  have "length d \<le> 10" using d(1) by (auto simp: support_dirs_def)
  then have e: "support_path r p = (project_skills r @ CHR ''/'' # d) @ CHR ''/'' # take (k - 1) y"
    using w(1,2) by (simp add: support_path_def d(2) c_buf_def SKILL_PATH_MAX_def k_def take_Cons' numeral_eq_Suc)
  have "\<not> sublist ''..'' (take (k - 1) y)"
  proof
    assume "sublist ''..'' (take (k - 1) y)"
    then have "sublist ''..'' y" by (meson sublist_order.order.trans sublist_take)
    with d(2,3) show False by (auto simp: sublist_append sublist_Cons_right)
  qed
  moreover have "cstr (take (k - 1) y)" using d(2) assms(3) by (auto simp: cstr_def dest: in_set_takeD)
  moreover have "length (support_path r p) < SKILL_PATH_MAX"
    unfolding support_path_def by (rule length_c_buf) (simp add: SKILL_PATH_MAX_def)
  ultimately show thesis using that d(1) e by blast
qed

lemma no_dotdot_parts: "\<not> sublist ''..'' z \<Longrightarrow> ''..'' \<notin> set (path_parts z)"
  using path_parts_infix by blast

text \<open>The temporary file of a path is another place, with no \<open>..\<close> that the path has not.\<close>

lemma tmp_parts:
  assumes "\<not> sublist ''..'' z"
  shows "''..'' \<notin> set (path_parts (z @ ''.tmp.'' @ show_nat k))" "path_parts (z @ ''.tmp.'' @ show_nat k) \<noteq> path_parts z"
proof -
  let ?u = "''.tmp.'' @ show_nat k"
  have single: "path_parts (b @ ?u) = [b @ ?u]" "b @ ?u \<noteq> ''..''" "path_parts (b @ ?u) \<noteq> path_parts b"
    if "CHR ''/'' \<notin> set b" for b
  proof -
    show one: "path_parts (b @ ?u) = [b @ ?u]"
      using that show_nat_plain(2) by (intro path_parts_single) (auto simp: append_eq_Cons_conv)
    show "b @ ?u \<noteq> ''..''" by (auto simp: append_eq_Cons_conv)
    have "path_parts b = [] \<or> path_parts b = [b]" using that by (auto simp: path_parts_def)
    then show "path_parts (b @ ?u) \<noteq> path_parts b" unfolding one by auto
  qed
  have "''..'' \<notin> set (path_parts (z @ ?u)) \<and> path_parts (z @ ?u) \<noteq> path_parts z"
  proof (cases "CHR ''/'' \<in> set z")
    case False
    from single [OF this] show ?thesis by auto
  next
    case True
    then obtain a b where z: "z = a @ CHR ''/'' # b" "CHR ''/'' \<notin> set b" by (meson split_list_last)
    have "\<not> sublist ''..'' a" using assms unfolding z by (auto simp: sublist_append)
    with single [OF z(2)] no_dotdot_parts [of a] show ?thesis unfolding z by auto
  qed
  then show "''..'' \<notin> set (path_parts (z @ ?u))" "path_parts (z @ ?u) \<noteq> path_parts z" by auto
qed

text \<open>A write below one of the four directories stays there.\<close>

lemma support_plain:
  assumes "project_ready env fs0 r" "d \<in> set support_dirs" "cstr z" "''..'' \<notin> set (path_parts z)"
  shows "plain ((project_skills r @ CHR ''/'' # d) @ CHR ''/'' # z) ((skills_place r @ [d]) @ path_parts z)"
    and "in_support r ((skills_place r @ [d]) @ path_parts z)"
proof -
  have "name_ok d" using assms(2) by (auto simp: support_dirs_def name_ok_def cstr_def)
  from plain_sub [OF project_skills_whole(3) [OF assms(1)] this] assms(3,4)
  show "plain ((project_skills r @ CHR ''/'' # d) @ CHR ''/'' # z) ((skills_place r @ [d]) @ path_parts z)"
    by (auto simp: plain_def)
  show "in_support r ((skills_place r @ [d]) @ path_parts z)"
    using assms(2) by (auto simp: in_support_def list_ex_iff)
qed

lemma support_write:
  assumes "project_ready env fs0 r" "skill_support_path_ok (Some p)" "cstr p" "fs_wf fs"
    and "skill_write_text_file env fs (support_path r p) content cap = (fs', ok)"
  shows "fs_wf fs' \<and> (\<forall>x. \<not> in_support r x \<longrightarrow> fs_at fs' x = fs_at fs x)"
proof -
  obtain d z where z: "d \<in> set support_dirs" "support_path r p = (project_skills r @ CHR ''/'' # d) @ CHR ''/'' # z"
    "\<not> sublist ''..'' z" "cstr z" "length (support_path r p) < SKILL_PATH_MAX"
    by (rule support_write_paths [OF assms(1-3)])
  let ?u = "''.tmp.'' @ show_nat (getpid env)"
  have tmp: "tmp_path env (support_path r p) = (project_skills r @ CHR ''/'' # d) @ CHR ''/'' # (z @ ?u)"
    using tmp_path_plain [OF z(5) project_ready_bases(2) [OF assms(1)]] z(2) by simp
  have cu: "cstr z" "cstr (z @ ?u)" using z(4) show_nat_plain(1) by simp_all
  note a = support_plain [OF assms(1) z(1) cu(1) no_dotdot_parts [OF z(3)]]
    and b = support_plain [OF assms(1) z(1) cu(2) tmp_parts(1) [OF z(3)]]
  show ?thesis
  proof (cases "replace_file env fs (support_path r p) (text_of content) = (fs', ok)")
    case True
    show ?thesis
    proof (rule replace_file_frame [OF True assms(4)])
      show "cstr (support_path r p)" using a(1) unfolding z(2) by (simp add: plain_def)
      show "cstr (tmp_path env (support_path r p))" using b(1) unfolding tmp by (simp add: plain_def)
      show "in_support r t" if "locate fs (tmp_path env (support_path r p)) = Inr t" for t
        using plain_locate(1) [OF b(1) assms(4)] b(2) that unfolding tmp by simp
      show "in_support r t" if "locate fs (support_path r p) = Inr t" for t
        using plain_locate(1) [OF a(1) assms(4)] a(2) that unfolding z(2) by simp
      show "locate fs (support_path r p) \<noteq> Inr t" if t: "locate fs (tmp_path env (support_path r p)) = Inr t" for t
      proof
        assume l: "locate fs (support_path r p) = Inr t"
        have "t = (skills_place r @ [d]) @ path_parts (z @ ?u)"
          by (rule plain_locate(1) [OF b(1) assms(4) t [unfolded tmp]])
        moreover have "t = (skills_place r @ [d]) @ path_parts z"
          by (rule plain_locate(1) [OF a(1) assms(4) l [unfolded z(2)]])
        ultimately show False using tmp_parts(2) [OF z(3), of "getpid env"] by simp
      qed
    qed
  next
    case False
    with assms(4,5) show ?thesis by (auto simp: skill_write_text_file_def Let_def split: if_splits)
  qed
qed

text \<open>
  Whatever its outcome, writing a support file changes no entry outside the four directories
  and the telemetry; it only makes directories.
\<close>

lemma write_file_result:
  assumes "project_ready env fs r" "skill_name_is_valid (Some n)" "cstr p"
    and "skill_manage_write_file J env fs (Some r) (Some n) (Some p) content author = (fs', out)"
    and "fs_at fs x \<noteq> None" "x = [] \<or> \<not> sidecar_name (last x)" "\<not> in_support r x"
  shows "fs_at fs' x = fs_at fs x"
proof (cases "skill_support_path_ok (Some p) \<and> c_access env fs (skill_file r n)")
  case False
  with assms(4) project_skill_file(1) [OF assms(1,2)] show ?thesis
    by (auto simp: skill_manage_write_file_def split: if_splits)
next
  case True
  then have ok: "skill_support_path_ok (Some p)" "c_access env fs (skill_file r n)" by auto
  let ?path = "support_path r p"
  let ?dir = "case c_strrchr ?path (CHR ''/'') of None \<Rightarrow> ?path | Some i \<Rightarrow> take i ?path"
  have wf: "fs_wf fs" using assms(1) by (simp add: project_ready_def)
  obtain g k where g: "skill_mkdir_p env fs ?dir = (g, k)" by fastforce
  obtain h m where h: "skill_write_text_file env g ?path content SKILL_SUPPORT_MAX_SIZE = (h, m)" by fastforce
  obtain d z where z: "d \<in> set support_dirs" "?path = (project_skills r @ CHR ''/'' # d) @ CHR ''/'' # z"
    "\<not> sublist ''..'' z" "cstr z" "length ?path < SKILL_PATH_MAX"
    by (rule support_write_paths [OF assms(1) ok(1) assms(3)])
  have pp: "plain ?path ((skills_place r @ [d]) @ path_parts z)"
    unfolding z(2) by (rule support_plain(1) [OF assms(1) z(1) z(4) no_dotdot_parts [OF z(3)]])
  have "cstr ?dir" using pp by (auto simp: plain_def cstr_def dest: in_set_takeD split: option.splits)
  then have wg: "fs_wf g" using skill_mkdir_p_result(3) [OF g wf] by blast
  have gx: "fs_at g x = fs_at fs x" using skill_mkdir_p_result(1) [OF g] assms(5) by (auto simp: fs_grows_def)
  note s = support_write [OF assms(1) ok(1) assms(3) wg h]
  then have hx: "fs_at h x = fs_at fs x" using gx assms(7) by simp
  have "fs' = fs \<or> fs' = g \<or> fs' = h \<or> (\<exists>mu. fs' = fst (skill_record_mutation J env h (Some r) (Some n) mu))"
    using assms(4) project_skill_file(1) [OF assms(1,2)] ok g h
    by (auto simp: skill_manage_write_file_def mutation_outcome_def Let_def split: if_splits)
  then show ?thesis
  proof (elim disjE exE)
    fix mu assume "fs' = fst (skill_record_mutation J env h (Some r) (Some n) mu)"
    then obtain k where "skill_record_mutation J env h (Some r) (Some n) mu = (fs', k)" by (metis prod.collapse)
    with mutation.write_only [OF assms(2) project_ready_bases(1) [OF assms(1)]] s
    have "sidecar_only h fs'" by blast
    then have "fs_at fs' x = fs_at h x" using assms(6) unfolding sidecar_only_def by blast
    with hx show ?thesis by simp
  qed (use gx hx in simp_all)
qed

section \<open>Importing\<close>

lemma import_creates:
  assumes "skill_import_content J env fs pr (Some c) author len = (fs', Inr out)"
  shows "\<exists>n. skill_manage_create J env fs pr (Some n) (Some c) author = (fs', Inr ())
    \<and> lint_accepts n c \<and> out = c_buf len n"
proof -
  from assms obtain start k name u where h: "fm_opens c" "fm_header c = Some (start, k)"
    "skill_manage_create J env fs pr (Some name) (Some c) author = (fs', Inr u)" "out = c_buf len name"
    by (auto simp: skill_import_content_def Let_def split: option.splits prod.splits sum.splits if_splits)
  have "snd (skill_lint_content (Some name) (Some c) 512) = 0"
    using h(3) by (auto simp: skill_manage_create_def Let_def split: option.splits if_splits)
  with h(3,4) show ?thesis by (auto simp: skill_lint_content_accepts)
qed

section \<open>Injecting\<close>

text \<open>
  The prompt with a skill: the base prompt, ended by a newline, an empty line, the heading and
  the text of the skill.
\<close>

definition prompt_with :: "string option \<Rightarrow> string \<Rightarrow> string \<Rightarrow> string" where
  "prompt_with base n c =
     (case base of None \<Rightarrow> [] | Some b \<Rightarrow> if b = [] then [] else b @ (if last b = nl then [nl] else [nl, nl]))
     @ ''### ACTIVE SKILL: '' @ n @ [nl] @ c"

lemma inject_pieces_prompt:
  "pred_option cstr base \<Longrightarrow> concat (inject_pieces base n c) = prompt_with base n c"
  by (cases base) (auto simp: inject_pieces_def prompt_with_def given_Some)

lemma inject_result:
  assumes "dstr_ok env" "dstr_steal env (inject_pieces base n c) \<noteq> None" "pred_option cstr base"
    and "skill_load env fs pr (Some n) = Some c"
  shows "snd (skill_inject J env fs m pr base (Some n))
      = (m\<lparr>self_activations_total := self_activations_total m + 1\<rparr>, Some (prompt_with base n c))"
    and "fst (skill_inject J env fs m pr base (Some n)) = fst (skill_record_activation J env fs pr (Some n))"
  using assms inject_pieces_prompt [of base n c]
  by (auto simp: skill_inject_def Let_def skill_metrics_record_activation_def dstr_ok_def)

lemma inject_missing:
  "skill_load env fs pr n = None \<Longrightarrow>
     skill_inject J env fs m pr base n = (fs, m, case base of None \<Rightarrow> None | Some b \<Rightarrow> safe_strdup env b)"
  by (simp add: skill_inject_def)

section \<open>Loading a support file\<close>

text \<open>What is read lies beside the skill file and is returned whole.\<close>

lemma support_load_result:
  assumes "skill_resolve_path env fs pr (Some n) SKILL_PATH_MAX = Some (dir @ CHR ''/'' # m, src)"
    and "CHR ''/'' \<notin> set m" "skill_support_path_ok (Some p)"
    and "locate fs (c_buf SKILL_PATH_MAX (dir @ CHR ''/'' # p)) = Inr q" "fs_at fs q = Some (Reg s)" "no_faults env"
  shows "skill_support_file_load env fs pr (Some n) (Some p)
    = (if length s \<le> SKILL_SUPPORT_MAX_SIZE then Inr (c_string s) else failed ''support file is too large'')"
proof -
  have "c_fopen_r env fs (c_buf SKILL_PATH_MAX (dir @ CHR ''/'' # p)) = Inr (Reg s)"
    using assms(4-6) by (simp add: c_fopen_r_def c_stat_def sys_path_def)
  then show ?thesis
    using assms(1-3,6) c_strrchr_append [OF assms(2), of dir]
    by (auto simp: skill_support_file_load_def Let_def c_fread_def not_le)
qed

text \<open>Writing a support file with a proper name and loading it from a flat skill gives it back.\<close>

lemma support_roundtrip:
  assumes "project_ready env fs r" "skill_name_is_valid (Some n)" "no_faults env"
    and "skill_manage_write_file J env fs (Some r) (Some n) (Some p) (Some c) author = (fs', Inr ())"
    and "p = z @ CHR ''/'' # m" "name_ok m" "\<not> sidecar_name m" "cstr p" "cstr c"
    and "length (project_skills r) + length p + 1 < SKILL_PATH_MAX"
    and "skill_resolve_path env fs' (Some r) (Some n) SKILL_PATH_MAX = Some (skill_file r n, SKILL_SOURCE_PROJECT)"
  shows "skill_support_file_load env fs' (Some r) (Some n) (Some p) = Inr c"
proof -
  have wf: "fs_wf fs" using assms(1) by (simp add: project_ready_def)
  note w = project_skills_whole [OF assms(1)]
  have sp: "support_path r p = (project_skills r @ CHR ''/'' # z) @ CHR ''/'' # m"
    using assms(10) w(1) by (simp add: support_path_def assms(5) SKILL_PATH_MAX_def)
  from assms(4) project_skill_file(1) [OF assms(1,2)] obtain dir g h mu where
    ok: "skill_support_path_ok (Some p)" and g: "skill_mkdir_p env fs dir = (g, True)" "dir = project_skills r @ CHR ''/'' # z"
    and h: "skill_write_text_file env g (support_path r p) (Some c) SKILL_SUPPORT_MAX_SIZE = (h, True)"
    and out: "mutation_outcome (skill_record_mutation J env h (Some r) (Some n) mu) = (fs', Inr ())"
    using c_strrchr_append [of "CHR ''/''" m "project_skills r @ CHR ''/'' # z"] assms(6)
    by (auto simp: skill_manage_write_file_def Let_def sp name_ok_def split: if_splits prod.splits)
  have u: "skill_record_mutation J env h (Some r) (Some n) mu = (fs', True)"
    using out by (cases "skill_record_mutation J env h (Some r) (Some n) mu")
      (auto simp: mutation_outcome_def split: if_splits)
  have nz: "''..'' \<notin> set (path_parts z)"
    using ok assms(5) no_dotdot_parts [of z]
    by (cases rule: skill_support_path_cases) (auto simp: sublist_append)
  have pz: "plain (project_skills r @ CHR ''/'' # z) (skills_place r @ path_parts z)"
    using w(3) nz assms(5,8) by (auto simp: plain_def cstr_def)
  let ?q = "(skills_place r @ path_parts z) @ [m]"
  have cd: "cstr dir" using pz g(2) by (simp add: plain_def)
  have wg: "fs_wf g" by (rule skill_mkdir_p_result(3) [OF g(1) wf cd])
  have len: "length ((project_skills r @ CHR ''/'' # z) @ CHR ''/'' # m) < SKILL_PATH_MAX"
    using assms(5,10) by simp
  note t = write_text_result [OF pz assms(6) len project_ready_bases(2) [OF assms(1)] wg h [unfolded sp]]
  note so = mutation.write_only [OF assms(2) project_ready_bases(1) [OF assms(1)] t(1) u]
  have at: "fs_at fs' ?q = Some (Reg c)" using so t(4) assms(7) by (simp add: sidecar_only_def)
  have wf': "fs_wf fs'" using so t(1) by (simp add: sidecar_only_def)
  have l: "locate fs' (project_skills r @ CHR ''/'' # p) = Inr ?q"
    using plain_locate_at [OF plain_sub [OF pz assms(6)] wf'] at by (simp add: assms(5))
  then have lb: "locate fs' (c_buf SKILL_PATH_MAX (project_skills r @ CHR ''/'' # p)) = Inr ?q"
    using assms(10) by simp
  have "CHR ''/'' \<notin> set (n @ ''.md'')" using md_names(1) [OF assms(2)] by (simp add: name_ok_def)
  from support_load_result [OF assms(11) [unfolded skill_file_def] this ok lb at assms(3)]
  show ?thesis using t(5) assms(9) by simp
qed

end
