(* ===== verification/Skill_Pass.thy ===== *)
theory Skill_Pass
  imports Skill_Lifecycle Skill_Managed
begin

text \<open>
  What a lifecycle pass can do to the files of a project: a skill is moved only at its own turn,
  and only when its telemetry then says it is not pinned and old enough.
\<close>


section \<open>What an archived skill takes with it\<close>

text \<open>A rename touches nothing outside the two places.\<close>

lemma c_rename_frame:
  assumes "c_rename env fs old new = Inr fs'" "fs_wf fs" "locate fs old = Inr a" "locate fs new = Inr b"
    and "\<not> prefix a x" "\<not> prefix b x"
  shows "fs_at fs' x = fs_at fs x"
proof -
  have at: "fs_at fs a \<noteq> None" using c_rename_Inr [OF assms(1)] assms(3) by auto
  from c_rename_Inr [OF assms(1)] assms(3,4) consider "fs' = fs"
    | "\<not> prefix a b" "fs_at fs b = None" "fs' = fs_move a b fs"
    | "\<not> prefix a b" "\<not> prefix b a" "is_dir fs b \<longrightarrow> fs_names fs b = []" "fs' = fs_move a b (fs_del b fs)"
    by fastforce
  then show ?thesis
  proof cases
    case 2
    have free: "fs_at fs (b @ q) = None" for q
      using fs_no_child [OF assms(2), of b q] 2(2) by (cases "q = []") auto
    then have "\<not> prefix b a" using at by (auto simp: prefix_def)
    with fs_at_move(1) [OF assms(2) free 2(1)] 2(3) assms(5,6) show ?thesis by simp
  next
    case 3
    have b: "b \<noteq> []" using 3(2) by auto
    have below: "q \<noteq> [] \<Longrightarrow> fs_at fs (b @ q) = None" for q
      using fs_no_child [OF assms(2), of b q] fs_empty_dir [OF assms(2), of b q] 3(3) by blast
    have "fs_wf (fs_del b fs)" using fs_wf_del [OF assms(2) b] below by simp
    moreover have "fs_at (fs_del b fs) (b @ q) = None" for q using below b by (cases "q = []") auto
    ultimately have "fs_at fs' x = fs_at (fs_del b fs) x"
      using fs_at_move(1) [of "fs_del b fs" b a x] 3(1,2,4) assms(5,6) by simp
    then show ?thesis using b assms(6) by auto
  qed simp
qed

text \<open>Archiving one skill leaves the files of the others in place.\<close>

lemma archive_frame:
  assumes "project_ready env fs0 r" "skill_name_is_valid (Some m)" "skill_name_is_valid (Some n)" "m \<noteq> n" "fs_wf fs"
    and "skill_manage_archive J env fs (Some r) (Some m) absorbed = (fs', out)"
  shows "fs_wf fs' \<and> fs_at fs' (skill_file_place r n) = fs_at fs (skill_file_place r n)"
proof -
  let ?q = "skill_file_place r n"
  note f = project_skill_file [OF assms(1,2)] and ap = archive_paths [OF assms(1,2)]
  have "n @ ''.md'' \<noteq> ''.archive''" using skill_name_valid_chars(1,7) [OF assms(3)] by (cases n) auto
  then have out: "\<not> prefix ?q (skills_place r @ [''.archive''])" by (auto simp: skill_file_place_def)
  have ns: "\<not> sidecar_name (last ?q)" using md_names [OF assms(3)] by (simp add: skill_file_place_def)
  have apart: "\<not> prefix (skill_file_place r m) ?q" "\<not> prefix (archive_place r m) ?q"
    using assms(4) by (simp_all add: skill_file_place_def archive_place_def)
  have mkd: "fs_wf g \<and> fs_at g ?q = fs_at fs ?q" if "skill_mkdir_p env fs (archive_dir r) = (g, k)" for g k
  proof -
    have d: "dirs_made (skills_place r @ [''.archive'']) fs g" by (rule mkdir_p_plain [OF that ap(2,5)])
    from dirs_made_at [OF this, of ?q] out show ?thesis using d assms(5) by (simp add: dirs_made_def)
  qed
  have rec: "fs_wf h \<and> fs_at h x = fs_at g x"
    if "skill_record_mutation J env g (Some r) (Some m) mu = (h, k)" "fs_wf g" "\<not> sidecar_name (last x)" for h g mu k x
    using mutation.write_only [OF assms(2) project_ready_bases(1) [OF assms(1)] that(2,1)] that(2,3)
    by (simp add: sidecar_only_def)
  from assms(1,2,6) show ?thesis
  proof (cases rule: archive_cases)
    case (move g mu h)
    have g: "fs_wf g" "fs_at g ?q = fs_at fs ?q" using mkd [OF move(1)] by auto
    have h: "fs_wf h" "fs_at h ?q = fs_at g ?q" using rec [OF move(4) g(1)] ns by auto
    obtain a b where "locate h (skill_file r m) = Inr a" "locate h (archive_path r m) = Inr b"
      using c_rename_Inr [OF move(5)] by blast
    then have l: "locate h (skill_file r m) = Inr (skill_file_place r m)"
      "locate h (archive_path r m) = Inr (archive_place r m)"
      using plain_locate(1) [OF f(2) h(1)] plain_locate(1) [OF ap(4) h(1)] by simp_all
    have "cstr (archive_path r m)" using ap(4) by (simp add: plain_def)
    with c_rename_wf [OF move(5) h(1)] c_rename_frame [OF move(5) h(1) l apart] g h show ?thesis by simp
  next
    case (mark g mu k)
    have "fs_wf g" "fs_at g ?q = fs_at fs ?q" using mkd [OF mark(1)] by auto
    with rec [OF mark(3) _ ns] show ?thesis by simp
  next
    case (nodir k)
    with mkd [OF nodir(1)] show ?thesis by simp
  qed (use assms(5) in simp)
qed

section \<open>Which skills a pass can move\<close>

lemma lifecycle_step_file:
  assumes "project_ready env fs0 r" "skill_name_is_valid (Some m)" "skill_name_is_valid (Some n)" "fs_wf fs"
    and "m = n \<longrightarrow> lifecycle_action env sd ad (skill_usage_get J env fs (Some r) (Some n)) \<noteq> Archive"
  shows "fs_wf (fst (lifecycle_step J env (Some r) sd ad m (fs, out)))
    \<and> fs_at (fst (lifecycle_step J env (Some r) sd ad m (fs, out))) (skill_file_place r n) = fs_at fs (skill_file_place r n)"
proof -
  obtain g k where g: "skill_record_mutation J env fs (Some r) (Some m) (no_mutation\<lparr>new_state := Some ''stale''\<rparr>) = (g, k)"
    by (metis prod.collapse)
  obtain h e where h: "skill_manage_archive J env fs (Some r) (Some m) None = (h, e)" by (metis prod.collapse)
  have ns: "\<not> sidecar_name (last (skill_file_place r n))" using md_names [OF assms(3)] by (simp add: skill_file_place_def)
  have "fs_wf g \<and> fs_at g (skill_file_place r n) = fs_at fs (skill_file_place r n)"
    using mutation.write_only [OF assms(2) project_ready_bases(1) [OF assms(1)] assms(4) g] assms(4) ns
    by (simp add: sidecar_only_def)
  with archive_frame [OF assms(1-3) _ assms(4) h] assms(4,5) g h show ?thesis
    unfolding lifecycle_step_action by (cases "m = n") (auto split: lifecycle_action.splits)
qed

text \<open>The file system before the turn of each name.\<close>

lemma lifecycle_fold_file:
  assumes "project_ready env fs0 r" "skill_name_is_valid (Some n)" "fs_wf (fst st)"
    and "list_all (\<lambda>m. skill_name_is_valid (Some m)) names"
    and "fs_at (fst (fold (lifecycle_step J env (Some r) sd ad) names st)) (skill_file_place r n)
           \<noteq> fs_at (fst st) (skill_file_place r n)"
  shows "\<exists>us vs. names = us @ n # vs \<and> lifecycle_action env sd ad
     (skill_usage_get J env (fst (fold (lifecycle_step J env (Some r) sd ad) us st)) (Some r) (Some n)) = Archive"
  using assms(3-5)
proof (induction names arbitrary: st)
  case (Cons m names)
  let ?st = "lifecycle_step J env (Some r) sd ad m st"
  show ?case
  proof (cases "m = n \<and> lifecycle_action env sd ad (skill_usage_get J env (fst st) (Some r) (Some n)) = Archive")
    case True
    then have "m # names = [] @ n # names" by simp
    with True show ?thesis by (metis fold_simps(1))
  next
    case False
    then have "fs_wf (fst ?st) \<and> fs_at (fst ?st) (skill_file_place r n) = fs_at (fst st) (skill_file_place r n)"
      using lifecycle_step_file [OF assms(1) _ assms(2) Cons.prems(1), of m sd ad J "snd st"] Cons.prems(2) by auto
    with Cons.IH [of ?st] Cons.prems(2,3) obtain us vs where "names = us @ n # vs"
      "lifecycle_action env sd ad (skill_usage_get J env (fst (fold (lifecycle_step J env (Some r) sd ad) us ?st))
         (Some r) (Some n)) = Archive" by auto
    then show ?thesis by (intro exI [of _ "m # us"] exI [of _ vs]) simp
  qed
qed simp

lemma lifecycle_Archive: 
  "lifecycle_action env sd ad usage = Archive \<longleftrightarrow> (\<exists>u. usage = Some u \<and> \<not> pinned u \<and> 0 < ad \<and> ad \<le> lifecycle_age env u)"
  by (auto simp: lifecycle_action_def split: option.splits)

end
