(* ===== verification/Skill_Autostub.thy ===== *)
theory Skill_Autostub
  imports Skill_Manage
begin

text \<open>
  Capability autostubs (\<open>skill.c\<close>): for every tool of a registry snapshot that no skill covers,
  a proposed skill change is written under \<open>.aimee/skills/.changes\<close>.
\<close>

section \<open>Coverage\<close>

definition skill_capability_tool_is_covered :: "env \<Rightarrow> fs \<Rightarrow> string option \<Rightarrow> string \<Rightarrow> string \<Rightarrow> bool" where
  "skill_capability_tool_is_covered env fs project_root tool_name slug =
     (if skill_path env fs project_root (Some tool_name) SKILL_PATH_MAX \<noteq> None
         \<or> (c_at slug 0 \<noteq> nul \<and> skill_path env fs project_root (Some slug) SKILL_PATH_MAX \<noteq> None)
      then True
      else list_ex (\<lambda>name. case skill_load env fs project_root (Some name) of
                      None \<Rightarrow> False
                    | Some content \<Rightarrow> c_strstr content tool_name \<noteq> None)
             (skill_list env fs project_root SKILL_MAX_SKILLS))"

section \<open>The proposal\<close>

definition stub_body :: "string \<Rightarrow> string \<Rightarrow> string" where
  "stub_body skill_name tool_name = c_buf 4096
     (''---'' @ [nl] @ ''name: '' @ skill_name @ [nl]
      @ ''description: Use when '' @ tool_name @ '' is the direct Aimee capability for the task.'' @ [nl]
      @ ''triggers:'' @ [nl] @ ''  tool: ['' @ tool_name @ '']'' @ [nl] @ ''---'' @ [nl] @ [nl]
      @ ''Route this task to `'' @ tool_name
      @ ''` instead of rebuilding the capability with generic tools.'' @ [nl] @ [nl]
      @ ''1. Check whether `'' @ tool_name @ ''` directly answers the request.'' @ [nl]
      @ ''2. Prefer the tool result over broad file reads or ad hoc reconstruction.'' @ [nl]
      @ ''3. If the tool is unavailable or insufficient, fall back to the narrowest generic ''
      @ ''workflow and note why.'' @ [nl])"

definition add_string :: "'j cjson \<Rightarrow> string \<Rightarrow> string \<Rightarrow> 'j \<Rightarrow> 'j" where
  "add_string J key val obj = cj_add J obj key (cj_mk_string J val)"

definition add_number :: "'j cjson \<Rightarrow> string \<Rightarrow> rat \<Rightarrow> 'j \<Rightarrow> 'j" where
  "add_number J key val obj = cj_add J obj key (cj_mk_number J val)"

definition stub_eval :: "'j cjson \<Rightarrow> 'j \<Rightarrow> 'j" where
  "stub_eval J obj =
     add_string J ''message'' ''skill eval fixtures have not run''
      (add_number J ''compliance_delta'' 0
        (add_number J ''treatment_compliances'' 0
          (add_number J ''baseline_violations'' 0
            (add_number J ''scenarios'' 0
              (cj_add J (add_string J ''status'' ''missing'' obj) ''passed'' (cj_mk_bool J False))))))"

definition stub_tree :: "'j cjson \<Rightarrow> string \<Rightarrow> string \<Rightarrow> string \<Rightarrow> 'j \<Rightarrow> 'j" where
  "stub_tree J skill_name tool_name prompt obj =
     (let o1 = add_string J ''source'' ''capability-autostub''
                (add_string J ''review_gate'' ''skill lint + skill eval before apply''
                  (add_string J ''route_tool'' tool_name
                    (add_string J ''source_tool'' tool_name
                      (add_string J ''skill_name'' skill_name
                        (add_string J ''target_surface'' ''skill''
                          (add_string J ''state'' ''proposed''
                            (add_string J ''kind'' ''skill_change'' obj)))))));
          o2 = (case cj_create_object J of
                  None \<Rightarrow> o1 | Some e \<Rightarrow> cj_add J o1 ''eval_result'' (stub_eval J e));
          o3 = (if c_at prompt 0 \<noteq> nul then add_string J ''tool_prompt'' prompt o2 else o2) in
      add_string J ''proposed_content'' (stub_body skill_name tool_name) o3)"

definition skill_capability_stub_content :: "'j cjson \<Rightarrow> string \<Rightarrow> string \<Rightarrow> string \<Rightarrow> string option" where
  "skill_capability_stub_content J skill_name tool_name prompt =
     (case cj_create_object J of
        None \<Rightarrow> None
      | Some obj \<Rightarrow> cj_print_unformatted J (stub_tree J skill_name tool_name prompt obj))"

section \<open>The pass\<close>

record autostub_result =
  scanned :: nat
  existing :: nat
  proposed :: nat
  skipped :: nat
  stub_errors :: nat
  first_proposal :: string
  first_change_path :: string

definition autostub_zero :: autostub_result where
  "autostub_zero = \<lparr>scanned = 0, existing = 0, proposed = 0, skipped = 0, stub_errors = 0,
     first_proposal = [], first_change_path = []\<rparr>"

definition change_dir_of :: "string \<Rightarrow> string" where
  "change_dir_of project_root = c_buf SKILL_PATH_MAX (project_root @ ''/.aimee/skills/.changes'')"

text \<open>One item of the snapshot.\<close>

definition autostub_step ::
  "'j cjson \<Rightarrow> env \<Rightarrow> string \<Rightarrow> 'j \<Rightarrow> fs \<times> autostub_result \<Rightarrow> fs \<times> autostub_result" where
  "autostub_step J env project_root item st =
     (case st of (fs, out0) \<Rightarrow>
      let name_j = string_of J (cj_get J item ''name'');
          prompt_j = string_of J (cj_get J item ''prompt'');
          out = out0\<lparr>scanned := scanned out0 + 1\<rparr> in
      if \<not> given name_j then (fs, out\<lparr>skipped := skipped out + 1\<rparr>)
      else
        let skill_name = skill_capability_slug name_j SKILL_NAME_MAX in
        if \<not> skill_name_is_valid (Some skill_name) then (fs, out\<lparr>skipped := skipped out + 1\<rparr>)
        else if skill_capability_tool_is_covered env fs (Some project_root) (the name_j) skill_name
        then (fs, out\<lparr>existing := existing out + 1\<rparr>)
        else
          let change_path = c_buf SKILL_PATH_MAX (change_dir_of project_root @ ''/'' @ skill_name
                              @ ''.skill_change.json'') in
          if c_access env fs change_path then (fs, out\<lparr>skipped := skipped out + 1\<rparr>)
          else
            (case skill_capability_stub_content J skill_name (the name_j)
                    (case prompt_j of Some p \<Rightarrow> p | None \<Rightarrow> []) of
               None \<Rightarrow> (fs, out\<lparr>stub_errors := stub_errors out + 1\<rparr>)
             | Some proposal \<Rightarrow>
                 (case skill_write_text_file env fs change_path (Some proposal) SKILL_SUPPORT_MAX_SIZE of
                    (fs', ok) \<Rightarrow>
                      if \<not> ok then (fs', out\<lparr>stub_errors := stub_errors out + 1\<rparr>)
                      else
                        (fs', (let o1 = out\<lparr>proposed := proposed out + 1\<rparr> in
                               if first_proposal o1 = []
                               then o1\<lparr>first_proposal := c_buf SKILL_NAME_MAX skill_name,
                                       first_change_path := c_buf SKILL_PATH_MAX change_path\<rparr>
                               else o1)))))"

definition skill_capability_autostub_from_json ::
  "'j cjson \<Rightarrow> env \<Rightarrow> fs \<Rightarrow> string option \<Rightarrow> string option \<Rightarrow> bool
   \<Rightarrow> fs \<times> autostub_result \<times> unit outcome" where
  "skill_capability_autostub_from_json J env fs project_root snapshot_json has_out =
     (if \<not> given project_root then (fs, autostub_zero, failed ''project root is required'')
      else if \<not> given snapshot_json then (fs, autostub_zero, failed ''tool registry snapshot is required'')
      else
        let rt = cj_parse J (the snapshot_json) in
        if \<not> is_object J rt then (fs, autostub_zero, failed ''invalid tool registry snapshot'')
        else
          let status = string_of J (cj_get J (the rt) ''status'');
              prompts = (case cj_get J (the rt) ''prompts'' of None \<Rightarrow> None | Some p \<Rightarrow> cj_items J p) in
          if status \<noteq> None \<and> status \<noteq> Some ''ok''
          then (fs, autostub_zero, failed ''tool registry snapshot is not ok'')
          else
            (case prompts of
               None \<Rightarrow> (fs, autostub_zero, failed ''tool registry snapshot missing prompts'')
             | Some items \<Rightarrow>
                 (case skill_mkdir_p env fs (change_dir_of (the project_root)) of
                    (fs1, made) \<Rightarrow>
                      if \<not> made
                      then (fs1, autostub_zero, failed ''failed to create skill change directory'')
                      else
                        (case fold (autostub_step J env (the project_root)) items (fs1, autostub_zero) of
                           (fs2, out) \<Rightarrow>
                             (fs2, out,
                              if has_out \<and> stub_errors out > 0
                              then failed ''one or more skill changes failed'' else Inr ())))))"

end
