(* ===== verification/Skill_Eval.thy ===== *)
theory Skill_Eval
  imports Skill_Json Skill_Usage Skill_Manage
begin

text \<open>
  Compliance evaluation (\<open>skill.c\<close>): the fixtures of a skill, the run over them, and the gate
  a proposed change must pass. Doubles are rationals here: the rates are quotients of two
  counts that are at most 32, for which the order of the doubles is that of the rationals.
\<close>

section \<open>One fixture\<close>

definition skill_eval_dir :: "env \<Rightarrow> fs \<Rightarrow> string option \<Rightarrow> string option \<Rightarrow> nat \<Rightarrow> string option" where
  "skill_eval_dir env fs project_root name bufsz =
     (if bufsz = 0 then None
      else case skill_resolve_path env fs project_root name SKILL_PATH_MAX of
        None \<Rightarrow> None
      | Some (skill_file, source) \<Rightarrow>
          (case c_strrchr skill_file (CHR ''/'') of
             None \<Rightarrow> None
           | Some i \<Rightarrow>
               Some (if drop (i + 1) skill_file = ''SKILL.md'' then c_buf bufsz (take i skill_file @ ''/eval'')
                     else c_buf bufsz (take i skill_file @ ''/'' @ the name @ ''/eval''))))"

definition skill_eval_check :: "string option \<Rightarrow> string option \<Rightarrow> string option \<Rightarrow> bool" where
  "skill_eval_check type val response =
     (if (case type of None \<Rightarrow> True | Some t \<Rightarrow> c_at t 0 = nul \<or> t = ''contains'') then
        (case (val, response) of
           (Some v, Some r) \<Rightarrow> c_strstr r v \<noteq> None
         | _ \<Rightarrow> False)
      else False)"

definition skill_eval_json_string :: "'j cjson \<Rightarrow> 'j \<Rightarrow> string \<Rightarrow> string option" where
  "skill_eval_json_string J obj key =
     (let v = string_of J (cj_get J obj key) in if given v then v else None)"

text \<open>The type and the value of a check.\<close>

definition skill_eval_json_check :: "'j cjson \<Rightarrow> 'j \<Rightarrow> string \<Rightarrow> (string \<times> string) option" where
  "skill_eval_json_check J obj key =
     (let check = cj_get J obj key in
      if \<not> is_object J check then None
      else
        let jt = string_of J (cj_get J (the check) ''type'');
            jv = string_of J (cj_get J (the check) ''value'') in
        if \<not> given jv then None
        else Some (case jt of Some t \<Rightarrow> t | None \<Rightarrow> ''contains'', the jv))"

record skill_eval_result =
  scenarios :: nat
  baseline_violations :: nat
  baseline_compliances :: nat
  treatment_compliances :: nat
  passed :: bool
  compliance_delta :: rat
  first_failure :: string

definition skill_eval_zero :: skill_eval_result where
  "skill_eval_zero = \<lparr>scenarios = 0, baseline_violations = 0, baseline_compliances = 0,
     treatment_compliances = 0, passed = False, compliance_delta = 0, first_failure = []\<rparr>"

definition skill_eval_first_failure :: "string \<Rightarrow> string \<Rightarrow> skill_eval_result \<Rightarrow> skill_eval_result" where
  "skill_eval_first_failure scenario message out =
     (if first_failure out = []
      then out\<lparr>first_failure := c_buf 256 ((if c_at scenario 0 \<noteq> nul then scenario else ''scenario'')
             @ '': '' @ message)\<rparr>
      else out)"

text \<open>What a well-formed fixture holds: the two responses and the two checks.\<close>

definition eval_fixture ::
  "'j cjson \<Rightarrow> 'j \<Rightarrow> (string \<times> string \<times> (string \<times> string) \<times> (string \<times> string)) option" where
  "eval_fixture J rt =
     (case skill_eval_json_string J rt ''baseline_response'' of None \<Rightarrow> None | Some baseline \<Rightarrow>
     (case skill_eval_json_string J rt ''treatment_response'' of None \<Rightarrow> None | Some treatment \<Rightarrow>
     (case skill_eval_json_check J rt ''violation_check'' of None \<Rightarrow> None | Some violation \<Rightarrow>
     (case skill_eval_json_check J rt ''compliance_check'' of None \<Rightarrow> None | Some compliance \<Rightarrow>
        Some (baseline, treatment, violation, compliance)))))"

definition eval_check_of :: "string \<times> string \<Rightarrow> string \<Rightarrow> bool" where
  "eval_check_of c response = skill_eval_check (Some (fst c)) (Some (snd c)) (Some response)"

definition eval_count ::
  "string \<Rightarrow> string \<times> string \<times> (string \<times> string) \<times> (string \<times> string)
   \<Rightarrow> skill_eval_result \<Rightarrow> skill_eval_result" where
  "eval_count scenario fixture out =
     (case fixture of (baseline, treatment, violation, compliance) \<Rightarrow>
      let o1 = out\<lparr>scenarios := scenarios out + 1\<rparr>;
          o2 = (if eval_check_of violation baseline
                then o1\<lparr>baseline_violations := baseline_violations o1 + 1\<rparr>
                else skill_eval_first_failure scenario ''baseline did not show target violation'' o1);
          o3 = (if eval_check_of compliance baseline
                then o2\<lparr>baseline_compliances := baseline_compliances o2 + 1\<rparr> else o2) in
      if eval_check_of compliance treatment
      then o3\<lparr>treatment_compliances := treatment_compliances o3 + 1\<rparr>
      else skill_eval_first_failure scenario ''treatment did not show compliance'' o3)"

text \<open>The new counts and whether the fixture is valid.\<close>

definition skill_eval_one_file ::
  "'j cjson \<Rightarrow> env \<Rightarrow> fs \<Rightarrow> string \<Rightarrow> skill_eval_result \<Rightarrow> skill_eval_result \<times> bool" where
  "skill_eval_one_file J env fs path out =
     (case skill_read_file env fs path of
        None \<Rightarrow> (out, False)
      | Some text \<Rightarrow>
          let rt = cj_parse J text in
          if \<not> is_object J rt then (out, False)
          else
            let scenario = (case skill_eval_json_string J (the rt) ''name'' of Some s \<Rightarrow> s | None \<Rightarrow> path) in
            (case eval_fixture J (the rt) of
               None \<Rightarrow> (skill_eval_first_failure scenario ''invalid fixture'' out, False)
             | Some fixture \<Rightarrow> (eval_count scenario fixture out, True)))"

section \<open>The run\<close>

definition ends_with_json :: "string \<Rightarrow> bool" where
  "ends_with_json n \<longleftrightarrow> length n > 5 \<and> drop (length n - 5) n = ''.json''"

text \<open>The loop over the directory; the second component counts the invalid fixtures.\<close>

fun eval_loop ::
  "'j cjson \<Rightarrow> env \<Rightarrow> fs \<Rightarrow> string \<Rightarrow> string list \<Rightarrow> skill_eval_result \<times> nat \<Rightarrow> skill_eval_result \<times> nat" where
  "eval_loop J env fs dir [] st = st"
| "eval_loop J env fs dir (ent # ents) st =
     (if \<not> scenarios (fst st) < SKILL_EVAL_MAX_CASES then st
      else if \<not> ends_with_json ent then eval_loop J env fs dir ents st
      else
        (case skill_eval_one_file J env fs (c_buf SKILL_PATH_MAX (dir @ ''/'' @ ent)) (fst st) of
           (out, ok) \<Rightarrow> eval_loop J env fs dir ents (out, if ok then snd st else snd st + 1)))"

definition eval_finish :: "skill_eval_result \<Rightarrow> skill_eval_result" where
  "eval_finish out =
     (let n = rat_of_nat (scenarios out);
          delta = rat_of_nat (treatment_compliances out) / n - rat_of_nat (baseline_compliances out) / n;
          ok = (baseline_violations out = scenarios out \<and> treatment_compliances out = scenarios out \<and> delta > 0);
          o1 = out\<lparr>compliance_delta := delta, passed := ok\<rparr> in
      if \<not> ok \<and> first_failure o1 = []
      then o1\<lparr>first_failure := c_buf 256 ''treatment did not improve compliance over baseline''\<rparr>
      else o1)"

definition skill_eval_run ::
  "'j cjson \<Rightarrow> env \<Rightarrow> fs \<Rightarrow> string option \<Rightarrow> string option \<Rightarrow> bool \<Rightarrow> skill_eval_result \<times> unit outcome" where
  "skill_eval_run J env fs project_root name has_out =
     (if \<not> given project_root \<or> \<not> given name \<or> \<not> has_out
      then (skill_eval_zero, failed ''project root and skill name are required'')
      else
        (case skill_eval_dir env fs project_root name SKILL_PATH_MAX of
           None \<Rightarrow> (skill_eval_zero, failed ''skill not found'')
         | Some dir \<Rightarrow>
             (case c_opendir env fs dir of
                Inl e \<Rightarrow> (skill_eval_zero, failed ''skill eval fixtures not found'')
              | Inr ents \<Rightarrow>
                  (case eval_loop J env fs dir ents (skill_eval_zero, 0) of
                     (out, errs) \<Rightarrow>
                       if scenarios out = 0 then (out, failed ''skill eval fixtures not found'')
                       else if errs > 0 then (out, failed ''one or more skill eval fixtures are invalid'')
                       else (eval_finish out, Inr ())))))"

section \<open>The gate\<close>

text \<open>\<open>"%.3f"\<close>: the nearest multiple of a thousandth, ties to the even one.\<close>

definition round_half_even :: "rat \<Rightarrow> int" where
  "round_half_even r =
     (let f = \<lfloor>r\<rfloor>; d = r - of_int f in
      if d < 1 / 2 then f else if d > 1 / 2 then f + 1 else if even f then f else f + 1)"

definition show_fixed3 :: "rat \<Rightarrow> string" where
  "show_fixed3 r =
     (let n = nat (round_half_even (\<bar>r\<bar> * 1000)); frac = show_nat (n mod 1000) in
      (if r < 0 then ''-'' else []) @ show_nat (n div 1000) @ ''.''
      @ replicate (3 - length frac) (CHR ''0'') @ frac)"

text \<open>None allows the change; a refusal comes with its reason.\<close>

definition skill_change_eval_gate :: "'j cjson \<Rightarrow> string option \<Rightarrow> rat \<Rightarrow> string option" where
  "skill_change_eval_gate J payload_json threshold =
     (let rt = cj_parse J (case payload_json of None \<Rightarrow> [] | Some p \<Rightarrow> p) in
      if \<not> is_object J rt then Some ''skill_change payload is not valid JSON''
      else
        let eval = cj_get J (the rt) ''eval_result'' in
        if \<not> is_object J eval then Some ''skill_change missing eval_result''
        else
          let ev = the eval;
              ok = (is_true J (cj_get J ev ''passed'')
                    \<or> string_of J (cj_get J ev ''status'') = Some ''pass'');
              delta = (case number_of J (cj_get J ev ''compliance_delta'') of None \<Rightarrow> 0 | Some d \<Rightarrow> d) in
          if \<not> ok then
            (let msg = string_of J (cj_get J ev ''message'') in
             Some (if given msg then the msg else ''skill eval did not pass''))
          else if delta < threshold then
            Some (''skill eval delta '' @ show_fixed3 delta @ '' is below threshold '' @ show_fixed3 threshold)
          else None)"

definition skill_change_eval_gate_allows :: "'j cjson \<Rightarrow> string option \<Rightarrow> rat \<Rightarrow> bool" where
  "skill_change_eval_gate_allows J payload_json threshold =
     (skill_change_eval_gate J payload_json threshold = None)"

section \<open>What a run finds\<close>

text \<open>The fixture a file holds, if it holds one, and the four questions put to it.\<close>

definition fixture_of ::
  "'j cjson \<Rightarrow> env \<Rightarrow> fs \<Rightarrow> string \<Rightarrow> (string \<times> string \<times> (string \<times> string) \<times> (string \<times> string)) option" where
  "fixture_of J env fs path =
     (case skill_read_file env fs path of
        None \<Rightarrow> None
      | Some text \<Rightarrow> (case cj_parse J text of
          None \<Rightarrow> None | Some rt \<Rightarrow> if cj_is_object J rt then eval_fixture J rt else None))"

definition shows_violation :: "string \<times> string \<times> (string \<times> string) \<times> (string \<times> string) \<Rightarrow> bool" where
  "shows_violation fx = (case fx of (baseline, treatment, violation, compliance) \<Rightarrow> eval_check_of violation baseline)"

definition baseline_complies :: "string \<times> string \<times> (string \<times> string) \<times> (string \<times> string) \<Rightarrow> bool" where
  "baseline_complies fx = (case fx of (baseline, treatment, violation, compliance) \<Rightarrow> eval_check_of compliance baseline)"

definition treatment_complies :: "string \<times> string \<times> (string \<times> string) \<times> (string \<times> string) \<Rightarrow> bool" where
  "treatment_complies fx = (case fx of (baseline, treatment, violation, compliance) \<Rightarrow> eval_check_of compliance treatment)"

definition eval_tally ::
  "(string \<times> string \<times> (string \<times> string) \<times> (string \<times> string)) list \<Rightarrow> skill_eval_result \<Rightarrow> bool" where
  "eval_tally fxs out \<longleftrightarrow> scenarios out = length fxs
     \<and> baseline_violations out = length (filter shows_violation fxs)
     \<and> baseline_compliances out = length (filter baseline_complies fxs)
     \<and> treatment_compliances out = length (filter treatment_complies fxs)
     \<and> (first_failure out = [] \<longleftrightarrow> list_all (\<lambda>fx. shows_violation fx \<and> treatment_complies fx) fxs)"

lemma first_failure_fields [simp]:
  "scenarios (skill_eval_first_failure s m out) = scenarios out"
  "baseline_violations (skill_eval_first_failure s m out) = baseline_violations out"
  "baseline_compliances (skill_eval_first_failure s m out) = baseline_compliances out"
  "treatment_compliances (skill_eval_first_failure s m out) = treatment_compliances out"
  "m \<noteq> [] \<Longrightarrow> first_failure (skill_eval_first_failure s m out) \<noteq> []"
  by (simp_all add: skill_eval_first_failure_def c_buf_def)

lemma eval_count_tally:
  assumes "eval_tally fxs out"
  shows "eval_tally (fxs @ [fx]) (eval_count scenario fx out)"
proof -
  obtain b t v c where fx: "fx = (b, t, v, c)" by (metis prod.collapse)
  show ?thesis
    using assms unfolding fx
    by (auto simp: eval_tally_def eval_count_def shows_violation_def baseline_complies_def treatment_complies_def Let_def)
qed

lemma one_file_result:
  "skill_eval_one_file J env fs path out = (out', ok) \<Longrightarrow>
     (ok \<longleftrightarrow> fixture_of J env fs path \<noteq> None) \<and> scenarios out' = (if ok then Suc (scenarios out) else scenarios out)
     \<and> (ok \<longrightarrow> eval_tally fxs out \<longrightarrow> eval_tally (fxs @ [the (fixture_of J env fs path)]) out')"
  by (auto simp: skill_eval_one_file_def fixture_of_def is_object_def Let_def eval_count_tally
      split: option.splits if_splits)
    (auto simp: eval_count_def Let_def)

lemma eval_loop_errs: "snd st \<le> snd (eval_loop J env fs dir ents st)"
proof (induction J env fs dir ents st rule: eval_loop.induct)
  case (2 J env fs dir ent ents st)
  obtain out1 ok where o: "skill_eval_one_file J env fs (c_buf SKILL_PATH_MAX (dir @ ''/'' @ ent)) (fst st) = (out1, ok)"
    by fastforce
  show ?case
  proof (cases "scenarios (fst st) < SKILL_EVAL_MAX_CASES")
    case True
    show ?thesis
    proof (cases "ends_with_json ent")
      case True
      with "2.IH"(2) [OF _ _ o [symmetric]] \<open>scenarios (fst st) < SKILL_EVAL_MAX_CASES\<close> o show ?thesis
        by (cases ok) simp_all
    qed (use "2.IH"(1) True in simp)
  qed simp
qed simp

text \<open>With no invalid fixture, the first 32 files are counted.\<close>

lemma eval_loop_result:
  assumes "eval_loop J env fs dir ents (out0, 0) = (out, 0)" "eval_tally fxs0 out0" 
  shows "\<exists>fxs. eval_tally (fxs0 @ fxs) out
    \<and> map (\<lambda>ent. fixture_of J env fs (c_buf SKILL_PATH_MAX (dir @ ''/'' @ ent)))
        (take (SKILL_EVAL_MAX_CASES - length fxs0) (filter ends_with_json ents)) = map Some fxs"
  using assms
proof (induction ents arbitrary: out0 fxs0)
  case (Cons ent ents)
  show ?case
  proof (cases "scenarios out0 < SKILL_EVAL_MAX_CASES \<and> ends_with_json ent")
    case True
    let ?p = "c_buf SKILL_PATH_MAX (dir @ ''/'' @ ent)"
    obtain out1 ok where o: "skill_eval_one_file J env fs ?p out0 = (out1, ok)" by fastforce
    with True Cons.prems(1) have l: "eval_loop J env fs dir ents (out1, if ok then 0 else 1) = (out, 0)"
      by (cases ok) simp_all
    then have ok using eval_loop_errs [of "(out1, if ok then 0 else 1)" J env fs dir ents] by (auto split: if_splits)
    from one_file_result [OF o, of fxs0] this Cons.prems(2) obtain fx where
      fx: "fixture_of J env fs ?p = Some fx" "eval_tally (fxs0 @ [fx]) out1" by auto
    from Cons.IH [OF _ fx(2)] l \<open>ok\<close> obtain fxs where "eval_tally (fxs0 @ fx # fxs) out"
      "map (\<lambda>ent. fixture_of J env fs (c_buf SKILL_PATH_MAX (dir @ ''/'' @ ent)))
        (take (SKILL_EVAL_MAX_CASES - Suc (length fxs0)) (filter ends_with_json ents)) = map Some fxs" by auto
    moreover have "SKILL_EVAL_MAX_CASES - length fxs0 = Suc (SKILL_EVAL_MAX_CASES - Suc (length fxs0))"
      using True Cons.prems(2) unfolding eval_tally_def by linarith
    ultimately show ?thesis using True fx(1) by (intro exI [of _ "fx # fxs"]) simp
  next
    case False
    then consider "\<not> scenarios out0 < SKILL_EVAL_MAX_CASES" | "scenarios out0 < SKILL_EVAL_MAX_CASES" "\<not> ends_with_json ent" by blast
    then show ?thesis
    proof cases
      case 1
      with Cons.prems show ?thesis by (intro exI [of _ "[]"]) (simp add: eval_tally_def)
    next
      case 2
      with Cons.prems Cons.IH [of out0 fxs0] show ?thesis by simp
    qed
  qed
qed (auto intro!: exI [of _ "[]"])

lemma eval_loop_cap: "scenarios (fst st) \<le> SKILL_EVAL_MAX_CASES \<Longrightarrow>
    scenarios (fst (eval_loop J env fs dir ents st)) \<le> SKILL_EVAL_MAX_CASES"
proof (induction J env fs dir ents st rule: eval_loop.induct)
  case (2 J env fs dir ent ents st)
  let ?p = "c_buf SKILL_PATH_MAX (dir @ ''/'' @ ent)"
  obtain out1 ok where o: "skill_eval_one_file J env fs ?p (fst st) = (out1, ok)" by fastforce
  from one_file_result [OF o] "2.prems" "2.IH" o show ?case by (auto split: if_splits)
qed simp

text \<open>A run passes when the skill was needed everywhere and helped everywhere.\<close>

definition eval_passes :: "(string \<times> string \<times> (string \<times> string) \<times> (string \<times> string)) list \<Rightarrow> bool" where
  "eval_passes fxs \<longleftrightarrow> list_all (\<lambda>fx. shows_violation fx \<and> treatment_complies fx) fxs
     \<and> list_ex (\<lambda>fx. \<not> baseline_complies fx) fxs"

lemma filter_length_all: "length (filter P xs) = length xs \<longleftrightarrow> list_all P xs"
  by (metis filter_id_conv length_filter_less less_irrefl list.pred_set)

lemma eval_finish_passed:
  assumes "eval_tally fxs out" "fxs \<noteq> []"
  shows "passed (eval_finish out) \<longleftrightarrow> eval_passes fxs"
    and "passed (eval_finish out) \<longleftrightarrow> first_failure (eval_finish out) = []"
    and "- 1 \<le> compliance_delta (eval_finish out)" "compliance_delta (eval_finish out) \<le> 1"
    and "scenarios (eval_finish out) = scenarios out"
proof -
  let ?n = "rat_of_nat (length fxs)" and ?t = "length (filter treatment_complies fxs)" and ?b = "length (filter baseline_complies fxs)"
  note t = assms(1) [unfolded eval_tally_def]
  have n: "0 < ?n" using assms(2) by simp
  have d: "rat_of_nat ?t / ?n - rat_of_nat ?b / ?n = (rat_of_nat ?t - rat_of_nat ?b) / ?n"
    by (simp add: diff_divide_distrib)
  have le: "?t \<le> length fxs" "?b \<le> length fxs" by (rule length_filter_le)+
  have pos: "0 < rat_of_nat ?t / ?n - rat_of_nat ?b / ?n \<longleftrightarrow> ?b < ?t"
    unfolding d using n by (simp add: zero_less_divide_iff)
  have ex: "?b < length fxs \<longleftrightarrow> list_ex (\<lambda>fx. \<not> baseline_complies fx) fxs"
    using le(2) filter_length_all [of baseline_complies fxs]
    by (auto simp: le_less list_all_iff list_ex_iff)
  have p: "passed (eval_finish out) \<longleftrightarrow> list_all shows_violation fxs \<and> list_all treatment_complies fxs \<and> ?b < ?t"
    using t pos by (simp add: eval_finish_def Let_def filter_length_all [symmetric])
  have "list_all treatment_complies fxs \<Longrightarrow> ?t = length fxs" by (simp add: filter_length_all)
  with p ex show "passed (eval_finish out) \<longleftrightarrow> eval_passes fxs"
    unfolding eval_passes_def by (auto simp: list_all_iff)
  show "passed (eval_finish out) \<longleftrightarrow> first_failure (eval_finish out) = []"
    using p t by (auto simp: eval_finish_def Let_def c_buf_def list_all_iff)
  have "rat_of_nat ?t \<le> ?n" "rat_of_nat ?b \<le> ?n" "0 \<le> rat_of_nat ?t" "0 \<le> rat_of_nat ?b" using le by simp_all
  then have "\<bar>rat_of_nat ?t - rat_of_nat ?b\<bar> \<le> ?n" unfolding abs_le_iff by linarith
  then have one: "\<bar>(rat_of_nat ?t - rat_of_nat ?b) / ?n\<bar> \<le> 1" using n by (simp add: abs_divide)
  have cd: "compliance_delta (eval_finish out) = (rat_of_nat ?t - rat_of_nat ?b) / ?n"
    using t by (simp add: eval_finish_def Let_def d)
  show "- 1 \<le> compliance_delta (eval_finish out)" "compliance_delta (eval_finish out) \<le> 1"
    using one unfolding cd abs_le_iff by linarith+
  show "scenarios (eval_finish out) = scenarios out" by (simp add: eval_finish_def Let_def)
qed

lemma eval_run_result:
  assumes "skill_eval_run J env fs pr n has_out = (out, Inr ())"
  obtains dir ents fxs where "skill_eval_dir env fs pr n SKILL_PATH_MAX = Some dir" "c_opendir env fs dir = Inr ents"
    "map (\<lambda>ent. fixture_of J env fs (c_buf SKILL_PATH_MAX (dir @ ''/'' @ ent)))
        (take SKILL_EVAL_MAX_CASES (filter ends_with_json ents)) = map Some fxs" "fxs \<noteq> []"
    "scenarios out = length fxs"
    "passed out \<longleftrightarrow> eval_passes fxs" "passed out \<longleftrightarrow> first_failure out = []"
    "- 1 \<le> compliance_delta out" "compliance_delta out \<le> 1"
proof -
  from assms obtain dir ents o1 where o: "skill_eval_dir env fs pr n SKILL_PATH_MAX = Some dir" "c_opendir env fs dir = Inr ents"
    "eval_loop J env fs dir ents (skill_eval_zero, 0) = (o1, 0)" "scenarios o1 \<noteq> 0" "out = eval_finish o1"
    by (auto simp: skill_eval_run_def split: if_splits option.splits sum.splits prod.splits)
  have "eval_tally [] skill_eval_zero" by (simp add: eval_tally_def skill_eval_zero_def)
  from eval_loop_result [OF o(3) this] obtain fxs where fxs: "eval_tally fxs o1"
    "map (\<lambda>ent. fixture_of J env fs (c_buf SKILL_PATH_MAX (dir @ ''/'' @ ent)))
        (take SKILL_EVAL_MAX_CASES (filter ends_with_json ents)) = map Some fxs" by auto
  then have ne: "fxs \<noteq> []" using o(4) by (auto simp: eval_tally_def)
  note f = eval_finish_passed [OF fxs(1) ne, folded o(5)]
  show thesis using that [OF o(1,2) fxs(2) ne _ f(1-4)] f(5) fxs(1) by (simp add: eval_tally_def)
qed
text \<open>Only the end of a complete run sets the verdict.\<close>

lemma one_file_passed: "passed (fst (skill_eval_one_file J env fs path out)) = passed out"
  by (auto simp: skill_eval_one_file_def eval_count_def skill_eval_first_failure_def Let_def split: option.splits prod.splits)

lemma eval_loop_passed: "passed (fst (eval_loop J env fs dir ents st)) = passed (fst st)"
proof (induction J env fs dir ents st rule: eval_loop.induct)
  case (2 J env fs dir ent ents st)
  obtain out1 ok where o: "skill_eval_one_file J env fs (c_buf SKILL_PATH_MAX (dir @ ''/'' @ ent)) (fst st) = (out1, ok)"
    by fastforce
  then have p: "passed out1 = passed (fst st)" using one_file_passed by (metis fst_conv)
  show ?case
  proof (cases "scenarios (fst st) < SKILL_EVAL_MAX_CASES \<and> ends_with_json ent")
    case True
    with "2.IH"(2) [OF _ _ o [symmetric]] o p show ?thesis by (cases ok) simp_all
  qed (use "2.IH"(1) in auto)
qed simp

lemma eval_run_failed:
  "skill_eval_run J env fs pr n has_out = (out, Inl e) \<Longrightarrow> \<not> passed out"
  using eval_loop_passed [of J env fs _ _ "(skill_eval_zero, 0)"]
  by (auto simp: skill_eval_run_def skill_eval_zero_def split: if_splits option.splits sum.splits prod.splits)
    (metis fst_conv skill_eval_result.select_convs(5))+

end
