(* ===== verification/Skill_Proposals.thy ===== *)
theory Skill_Proposals
  imports Skill_Autostub Skill_Eval Skill_Managed
begin

text \<open>
  What an autostub pass does: every item of the snapshot falls into one of four counts, no file is
  replaced by a proposal, and the evaluation gate refuses every proposal as it is written.
\<close>


section \<open>What a pass counts\<close>

definition autostub_tally :: "nat \<Rightarrow> autostub_result \<Rightarrow> bool" where
  "autostub_tally k out \<longleftrightarrow> scanned out = k \<and> existing out + proposed out + skipped out + stub_errors out = k
     \<and> (proposed out = 0 \<longleftrightarrow> first_proposal out = [])"

lemma autostub_step_tally:
  assumes "autostub_tally k (snd st)"
  shows "autostub_tally (Suc k) (snd (autostub_step J env pr item st))"
proof -
  have "skill_name_is_valid (Some s) \<Longrightarrow> c_buf SKILL_NAME_MAX s \<noteq> []" for s
    using skill_name_valid_chars(1) [of s] by (simp add: c_buf_def SKILL_NAME_MAX_def)
  with assms show ?thesis
    by (cases st) (auto simp: autostub_step_def autostub_tally_def Let_def split: option.splits prod.splits if_splits)
qed

lemma autostub_fold_tally:
  "autostub_tally k (snd st) \<Longrightarrow> autostub_tally (k + length items) (snd (fold (autostub_step J env pr) items st))"
proof (induction items arbitrary: st k)
  case (Cons item items)
  from Cons.IH [OF autostub_step_tally [OF Cons.prems, of J env pr item]] show ?case by simp
qed simp

text \<open>The slug of a given name is always a valid skill name, so that test never fails.\<close>

lemma slug_of_given:
  assumes "given (Some t)" "cstr t"
  shows "skill_name_is_valid (Some (skill_capability_slug (Some t) SKILL_NAME_MAX))"
proof -
  have "t \<noteq> []" using assms(1) by (auto simp: given_def c_at_def)
  from skill_capability_slug_text [OF this assms(2)] show ?thesis
    using slug_text_valid by (simp add: SKILL_NAME_MAX_def)
qed

section \<open>Proposals never replace a file\<close>

definition changes_place :: "string \<Rightarrow> path" where
  "changes_place r = skills_place r @ [''.changes'']"

definition change_name :: "string \<Rightarrow> string" where
  "change_name n = n @ ''.skill_change.json''"

lemma change_paths:
  assumes "project_ready env fs0 r" "skill_name_is_valid (Some n)"
  shows "plain (change_dir_of r) (changes_place r)" "length (change_dir_of r) < SKILL_PATH_MAX"
    and "name_ok (change_name n)"
    and "c_buf SKILL_PATH_MAX (change_dir_of r @ CHR ''/'' # n @ ''.skill_change.json'') = change_dir_of r @ CHR ''/'' # change_name n"
    and "length (change_dir_of r @ CHR ''/'' # change_name n) < SKILL_PATH_MAX"
proof -
  note w = project_skills_whole [OF assms(1)]
  have c: "change_dir_of r = project_skills r @ CHR ''/'' # ''.changes''"
    using w(1,2) by (simp add: change_dir_of_def SKILL_PATH_MAX_def)
  show "plain (change_dir_of r) (changes_place r)"
    unfolding c changes_place_def by (rule plain_sub [OF w(3)]) (simp add: name_ok_def cstr_def)
  show "length (change_dir_of r) < SKILL_PATH_MAX" using w(2) by (simp add: c SKILL_PATH_MAX_def)
  note v = skill_name_valid_chars [OF assms(2)]
  then show "name_ok (change_name n)" by (auto simp: name_ok_def change_name_def cstr_def append_eq_Cons_conv)
  show "length (change_dir_of r @ CHR ''/'' # change_name n) < SKILL_PATH_MAX"
    using v(2) w(2) by (simp add: c SKILL_PATH_MAX_def change_name_def)
  then show "c_buf SKILL_PATH_MAX (change_dir_of r @ CHR ''/'' # n @ ''.skill_change.json'') = change_dir_of r @ CHR ''/'' # change_name n"
    by (simp add: change_name_def)
qed

text \<open>Every entry stays as it is, but for the temporary files of the process beside the proposals.\<close>

definition proposals_only :: "env \<Rightarrow> string \<Rightarrow> fs \<Rightarrow> fs \<Rightarrow> bool" where
  "proposals_only env r fs fs' \<longleftrightarrow> fs_wf fs' \<and>
     (\<forall>x. fs_at fs x \<noteq> None \<longrightarrow> (\<nexists>n. x = changes_place r @ [tmp_name env (change_name n)]) \<longrightarrow> fs_at fs' x = fs_at fs x)"

lemma proposals_only_trans: "proposals_only env r fs g \<Longrightarrow> proposals_only env r g h \<Longrightarrow> proposals_only env r fs h"
  unfolding proposals_only_def by metis

lemma write_proposal:
  assumes "project_ready env fs0 r" "skill_name_is_valid (Some n)" "fs_wf fs" "\<And>p. \<not> fault env Access p"
    and "\<not> c_access env fs (change_dir_of r @ CHR ''/'' # change_name n)"
    and "skill_write_text_file env fs (change_dir_of r @ CHR ''/'' # change_name n) content cap = (fs', ok)"
  shows "proposals_only env r fs fs'" "ok \<Longrightarrow> fs_at fs' (changes_place r @ [change_name n]) = Some (Reg (text_of content))"
proof -
  note c = change_paths [OF assms(1,2)]
  note w = write_text_result [OF c(1,3,5) project_ready_bases(2) [OF assms(1)] assms(3,6)]
  note p = plain_sub [OF c(1,3)]
  have "fs_at fs (changes_place r @ [change_name n]) = None"
  proof (rule ccontr)
    assume "fs_at fs (changes_place r @ [change_name n]) \<noteq> None"
    with plain_locate_at [OF p assms(3)] assms(4,5) show False
      by (auto simp: c_access_def c_stat_def sys_path_def split: sum.splits option.splits)
  qed
  with w(1,3) show "proposals_only env r fs fs'" unfolding proposals_only_def by metis
  show "ok \<Longrightarrow> fs_at fs' (changes_place r @ [change_name n]) = Some (Reg (text_of content))" using w(4) by simp
qed

lemma autostub_step_keeps:
  assumes "project_ready env fs0 r" "fs_wf (fst st)" "\<And>p. \<not> fault env Access p"
  shows "proposals_only env r (fst st) (fst (autostub_step J env r item st))"
proof -
  obtain fs out where st: "st = (fs, out)" by fastforce
  let ?n = "skill_capability_slug (string_of J (cj_get J item ''name'')) SKILL_NAME_MAX"
  have refl: "proposals_only env r fs fs" using assms(2) st by (simp add: proposals_only_def)
  show ?thesis
  proof (cases "skill_name_is_valid (Some ?n)")
    case True
    note c = change_paths(4) [OF assms(1) True]
    have wf: "fs_wf fs" using assms(2) st by simp
    show ?thesis unfolding st
      using refl write_proposal(1) [OF assms(1) True wf assms(3)]
      by (auto simp: autostub_step_def Let_def c simp del: append_assoc split: option.splits prod.splits)
  next
    case False
    then show ?thesis using refl unfolding st by (auto simp: autostub_step_def Let_def)
  qed
qed

lemma autostub_fold_keeps:
  assumes "project_ready env fs0 r" "fs_wf (fst st)" "\<And>p. \<not> fault env Access p"
  shows "proposals_only env r (fst st) (fst (fold (autostub_step J env r) items st))"
  using assms(2)
proof (induction items arbitrary: st)
  case (Cons item items)
  note s = autostub_step_keeps [OF assms(1) Cons.prems assms(3), of J item]
  then have "fs_wf (fst (autostub_step J env r item st))" by (simp add: proposals_only_def)
  from proposals_only_trans [OF s Cons.IH [OF this]] show ?case by simp
qed (simp add: proposals_only_def)

lemma autostub_result:
  assumes "project_ready env fs r" "\<And>p. \<not> fault env Access p"
    and "skill_capability_autostub_from_json J env fs (Some r) snap has_out = (fs', out, rc)"
  shows "proposals_only env r fs fs'" "autostub_tally (scanned out) out"
    and "rc = Inr () \<Longrightarrow> has_out \<Longrightarrow> stub_errors out = 0"
proof -
  have wf: "fs_wf fs" using assms(1) by (simp add: project_ready_def)
  then have refl: "proposals_only env r fs fs" by (simp add: proposals_only_def)
  have zero: "autostub_tally 0 autostub_zero" by (simp add: autostub_tally_def autostub_zero_def)
  have mk: "proposals_only env r fs g" if "skill_mkdir_p env fs (change_dir_of r) = (g, k)" for g k
  proof -
    have "skill_name_is_valid (Some ''a'')" by code_simp
    from mkdir_p_plain [OF that change_paths(1,2) [OF assms(1) this]] have d: "dirs_made (changes_place r) fs g" .
    then show ?thesis using dirs_made_at [OF d] wf by (simp add: proposals_only_def dirs_made_def)
  qed
  consider (refused) "fs' = fs" "out = autostub_zero"
    | (nodir) k where "skill_mkdir_p env fs (change_dir_of r) = (fs', k)" "out = autostub_zero"
    | (ran) g items where "skill_mkdir_p env fs (change_dir_of r) = (g, True)"
        "fold (autostub_step J env r) items (g, autostub_zero) = (fs', out)"
        "rc = Inr () \<Longrightarrow> has_out \<Longrightarrow> stub_errors out = 0"
    using assms(3)
    by (auto simp: skill_capability_autostub_from_json_def Let_def
        split: if_splits option.splits prod.splits)
  then have "proposals_only env r fs fs' \<and> autostub_tally (scanned out) out
    \<and> (rc = Inr () \<and> has_out \<longrightarrow> stub_errors out = 0)"
  proof cases
    case (ran g items)
    note m = mk [OF ran(1)]
    then have "fs_wf (fst (g, autostub_zero))" by (simp add: proposals_only_def)
    from autostub_fold_keeps [OF assms(1) this assms(2), of J items] proposals_only_trans [OF m]
      autostub_fold_tally [of 0 "(g, autostub_zero)" items J env r] zero ran(2,3)
    show ?thesis by (auto simp: autostub_tally_def)
  qed (use refl mk zero in \<open>simp_all add: autostub_zero_def\<close>)
  then show "proposals_only env r fs fs'" "autostub_tally (scanned out) out"
    "rc = Inr () \<Longrightarrow> has_out \<Longrightarrow> stub_errors out = 0" by auto
qed

section \<open>A proposal is not applied before its fixtures ran\<close>

lemma stub_refused:
  assumes "cjson_ok J" "skill_capability_stub_content J n tool pr = Some s"
  shows "skill_change_eval_gate J (Some s) threshold = Some ''skill eval fixtures have not run''"
proof -
  obtain ob where ob: "cj_create_object J = Some ob" "cj_print_unformatted J (stub_tree J n tool pr ob) = Some s"
    using assms(2) by (auto simp: skill_capability_stub_content_def split: option.splits)
  note o = cj_created [OF assms(1) ob(1)]
  note add = cj_get_add [OF assms(1)]
  have e: "cj_is_object J (stub_eval J ob)"
    "cj_get J (stub_eval J ob) ''passed'' = Some (cj_mk_bool J False)"
    "cj_get J (stub_eval J ob) ''status'' = Some (cj_mk_string J ''missing'')"
    "cj_get J (stub_eval J ob) ''message'' = Some (cj_mk_string J ''skill eval fixtures have not run'')"
    using assms(1) o by (simp_all add: stub_eval_def add_string_def add_number_def add)
  have t: "cj_is_object J (stub_tree J n tool pr ob)" "cj_get J (stub_tree J n tool pr ob) ''eval_result'' = Some (stub_eval J ob)"
    using assms(1) o ob(1) by (simp_all add: stub_tree_def add_string_def add Let_def)
  note p = cj_unformatted_parse [OF assms(1) t(1) ob(2)]
  show ?thesis
    using assms(1) p t e by (simp add: skill_change_eval_gate_def is_true_def string_of_def Let_def given_def c_at_def)
qed

end
