(* ===== verification/Skill_Rollback.thy ===== *)
theory Skill_Rollback
  imports Skill_Fs Skill_Names Skill_Resolve
begin

text \<open>
  Restoring a snapshot (\<open>skill_rollback.c\<close>): the current skills are removed, then the
  snapshot is copied back. A result of 0 or -1 is True or False.

  \<open>remove_tree\<close> and \<open>copy_tree\<close> recurse on path strings cut to 512 bytes, and hold the directory
  of every level open: \<open>fds\<close> is the number of files the process can still open, and opening one
  more fails. So the recursion ends on every path.
\<close>

section \<open>Loops over a directory\<close>

text \<open>
  The loop shared by the four directory scans: every entry but the skipped ones is acted on,
  a failure is remembered and the loop goes on.
\<close>

fun each_entry ::
  "(string \<Rightarrow> bool) \<Rightarrow> (string \<Rightarrow> fs \<Rightarrow> fs \<times> bool) \<Rightarrow> string list \<Rightarrow> fs \<times> bool \<Rightarrow> fs \<times> bool" where
  "each_entry skip act [] st = st"
| "each_entry skip act (ent # ents) st =
     (if skip ent then each_entry skip act ents st
      else case act ent (fst st) of
        (fs', ok) \<Rightarrow> each_entry skip act ents (fs', snd st \<and> ok))"

definition dot_entry :: "string \<Rightarrow> bool" where
  "dot_entry n \<longleftrightarrow> n = ''.'' \<or> n = ''..''"

definition dot_or_snapshots :: "string \<Rightarrow> bool" where
  "dot_or_snapshots n \<longleftrightarrow> n = ''.'' \<or> n = ''..'' \<or> n = ''.snapshots''"

definition child_path :: "string \<Rightarrow> string \<Rightarrow> string" where
  "child_path path n = c_buf SKILL_PATH_MAX (path @ ''/'' @ n)"

section \<open>Removing and copying\<close>

definition unlink_flag :: "env \<Rightarrow> fs \<Rightarrow> string \<Rightarrow> fs \<times> bool" where
  "unlink_flag env fs path = (case c_unlink env fs path of Inl e \<Rightarrow> (fs, False) | Inr fs' \<Rightarrow> (fs', True))"

definition rmdir_flag :: "env \<Rightarrow> fs \<Rightarrow> string \<Rightarrow> fs \<times> bool" where
  "rmdir_flag env fs path = (case c_rmdir env fs path of Inl e \<Rightarrow> (fs, False) | Inr fs' \<Rightarrow> (fs', True))"

fun remove_tree :: "env \<Rightarrow> nat \<Rightarrow> fs \<Rightarrow> string \<Rightarrow> fs \<times> bool" where
  "remove_tree env 0 fs path =
     (case c_stat env Lstat fs path of
        Inl e \<Rightarrow> (fs, e = ENOENT)
      | Inr k \<Rightarrow> if \<not> S_ISDIR k then unlink_flag env fs path else (fs, False))"
| "remove_tree env (Suc fds) fs path =
     (case c_stat env Lstat fs path of
        Inl e \<Rightarrow> (fs, e = ENOENT)
      | Inr k \<Rightarrow>
          if \<not> S_ISDIR k then unlink_flag env fs path
          else
            (case c_opendir env fs path of
               Inl e \<Rightarrow> (fs, False)
             | Inr ents \<Rightarrow>
                 (case each_entry dot_entry (\<lambda>n fs. remove_tree env fds fs (child_path path n)) ents (fs, True) of
                    (fs1, ok) \<Rightarrow> if \<not> ok then (fs1, False) else rmdir_flag env fs1 path)))"

text \<open>
  The copy loop reads blocks until the file ends or a read or a write fails; the file it
  leaves holds what was read, or less after a failed write. It needs two files open.
\<close>

definition copy_file :: "env \<Rightarrow> nat \<Rightarrow> fs \<Rightarrow> string \<Rightarrow> string \<Rightarrow> fs \<times> bool" where
  "copy_file env fds fs src dst =
     (case c_fopen_r env fs src of
        Inl e \<Rightarrow> (fs, False)
      | Inr f \<Rightarrow>
          if fds < 2 then (fs, False)
          else (case c_fread env src f (case f of Reg s \<Rightarrow> length s | _ \<Rightarrow> 0) of
             (buf, ferror) \<Rightarrow>
               (case c_write_file env fs dst buf of
                  None \<Rightarrow> (fs, False)
                | Some (fs', ok) \<Rightarrow> (fs', ok \<and> \<not> ferror))))"

definition mkdir_or_exists :: "env \<Rightarrow> fs \<Rightarrow> string \<Rightarrow> fs option" where
  "mkdir_or_exists env fs d =
     (case c_mkdir env fs d of
        Inr fs' \<Rightarrow> Some fs' | Inl e \<Rightarrow> if e = EEXIST then Some fs else None)"

fun copy_tree :: "env \<Rightarrow> nat \<Rightarrow> fs \<Rightarrow> string \<Rightarrow> string \<Rightarrow> fs \<times> bool" where
  "copy_tree env 0 fs src dst =
     (case c_stat env Lstat fs src of
        Inl e \<Rightarrow> (fs, False)
      | Inr k \<Rightarrow>
          if \<not> S_ISDIR k then (if S_ISREG k then copy_file env 0 fs src dst else (fs, False))
          else (case mkdir_or_exists env fs dst of None \<Rightarrow> (fs, False) | Some fs1 \<Rightarrow> (fs1, False)))"
| "copy_tree env (Suc fds) fs src dst =
     (case c_stat env Lstat fs src of
        Inl e \<Rightarrow> (fs, False)
      | Inr k \<Rightarrow>
          if \<not> S_ISDIR k then (if S_ISREG k then copy_file env (Suc fds) fs src dst else (fs, False))
          else
            (case mkdir_or_exists env fs dst of
               None \<Rightarrow> (fs, False)
             | Some fs1 \<Rightarrow>
                 (case c_opendir env fs1 src of
                    Inl e \<Rightarrow> (fs1, False)
                  | Inr ents \<Rightarrow>
                      each_entry dot_or_snapshots
                        (\<lambda>n fs. copy_tree env fds fs (child_path src n) (child_path dst n)) ents (fs1, True))))"

section \<open>The rollback\<close>

definition local_cuts :: "string \<Rightarrow> string list" where
  "local_cuts tmp = map (\<lambda>i. take i tmp) (filter (\<lambda>i. tmp ! i = CHR ''/'') [1..<length tmp])"

fun mkdirs_local :: "env \<Rightarrow> fs \<Rightarrow> string list \<Rightarrow> fs \<times> bool" where
  "mkdirs_local env fs [] = (fs, True)"
| "mkdirs_local env fs (d # ds) =
     (case mkdir_or_exists env fs d of None \<Rightarrow> (fs, False) | Some fs' \<Rightarrow> mkdirs_local env fs' ds)"

definition mkdir_p_local :: "env \<Rightarrow> fs \<Rightarrow> string \<Rightarrow> fs \<times> bool" where
  "mkdir_p_local env fs path =
     (if c_at path 0 = nul then (fs, False)
      else let tmp = c_buf SKILL_PATH_MAX path in mkdirs_local env fs (local_cuts tmp @ [tmp]))"

definition snapshot_dir :: "string \<Rightarrow> string \<Rightarrow> string" where
  "snapshot_dir skills_dir snapshot_id = c_buf SKILL_PATH_MAX (skills_dir @ ''/.snapshots/'' @ snapshot_id)"

text \<open>Inr is 0, Inl the message of a failure. No directory opens when no more files can be open.\<close>

definition skill_rollback_snapshot ::
  "env \<Rightarrow> nat \<Rightarrow> fs \<Rightarrow> string option \<Rightarrow> string option \<Rightarrow> fs \<times> (string + unit)" where
  "skill_rollback_snapshot env fds fs project_root snapshot_id =
     (if \<not> given project_root then (fs, Inl ''project root is required'')
      else if \<not> snapshot_id_ok snapshot_id then (fs, Inl ''invalid snapshot id'')
      else
        let skills_dir = project_skills (the project_root);
            snap = snapshot_dir skills_dir (the snapshot_id) in
        (case c_stat env Lstat fs snap of
           Inl e \<Rightarrow> (fs, Inl ''skill snapshot not found'')
         | Inr k \<Rightarrow>
             if \<not> S_ISDIR k then (fs, Inl ''skill snapshot not found'')
             else
               (case mkdir_p_local env fs skills_dir of
                  (fs1, made) \<Rightarrow>
                    if \<not> made then (fs1, Inl ''failed to prepare skills directory'')
                    else
                      (case (if fds = 0 then Inl EIO else c_opendir env fs1 skills_dir) of
                         Inl e \<Rightarrow> (fs1, Inl ''failed to read skills directory'')
                       | Inr ents \<Rightarrow>
                           (case each_entry dot_or_snapshots
                                   (\<lambda>n fs. remove_tree env (fds - 1) fs (child_path skills_dir n)) ents (fs1, True) of
                              (fs2, cleared) \<Rightarrow>
                                if \<not> cleared then (fs2, Inl ''failed to clear current skills'')
                                else
                                  (case c_opendir env fs2 snap of
                                     Inl e \<Rightarrow> (fs2, Inl ''failed to read skill snapshot'')
                                   | Inr sents \<Rightarrow>
                                       (case each_entry dot_or_snapshots
                                               (\<lambda>n fs. copy_tree env (fds - 1) fs (child_path snap n)
                                                 (child_path skills_dir n)) sents (fs2, True) of
                                          (fs3, restored) \<Rightarrow>
                                            (fs3, if restored then Inr ()
                                              else Inl ''failed to restore skill snapshot''))))))))"

end
