(* ===== verification/Skill_Restore.thy ===== *)
theory Skill_Restore
  imports Skill_Rollback
begin

text \<open>
  What a rollback does to the file system. \<open>remove_tree\<close> and \<open>copy_tree\<close> are described
  for every path that fits the path buffer, under every fault and every limit on open files:
  they touch nothing outside their tree, a flag of True means the tree is gone or copied, and
  without failures and with enough open files the flag is True. From the two,
  \<open>skill_rollback_snapshot\<close> never touches the snapshots, and on success leaves below the skills
  directory what the snapshot holds outside nested directories \<open>.snapshots\<close>.
\<close>

section \<open>Paths that fit\<close>

text \<open>The bytes the names below a path add to it.\<close>

definition plen :: "path \<Rightarrow> nat" where
  "plen r = sum_list (map (\<lambda>n. length n + 1) r)"

lemma plen_simps [simp]: "plen [] = 0" "plen (n # r) = length n + 1 + plen r" "plen (r @ t) = plen r + plen t"
  by (simp_all add: plen_def)

text \<open>Every path below \<open>q\<close> that exists fits the buffer when it is written out from \<open>s\<close>.\<close>

definition fits :: "fs \<Rightarrow> string \<Rightarrow> path \<Rightarrow> bool" where
  "fits fs s q \<longleftrightarrow> (\<forall>r. fs_at fs (q @ r) \<noteq> None \<longrightarrow> length s + plen r < SKILL_PATH_MAX)"

lemma plain_child:
  assumes "plain s q" "name_ok n" "length s + length n + 1 < SKILL_PATH_MAX"
  shows "child_path s n = s @ CHR ''/'' # n" "plain (child_path s n) (q @ [n])"
proof -
  show c: "child_path s n = s @ CHR ''/'' # n" using assms(3) by (simp add: child_path_def)
  have "path_parts n = [n]" using assms(2) by (auto simp: name_ok_def intro: path_parts_single)
  with assms show "plain (child_path s n) (q @ [n])" by (auto simp: plain_def c name_ok_def)
qed

section \<open>The loop\<close>

text \<open>
  An assertion on the entries that are left, the file system and the flag, kept by every
  round, holds at the end.
\<close>

lemma each_entry_total:
  assumes "P ents fs b"
    and "\<And>n rest g b. suffix (n # rest) ents \<Longrightarrow> P (n # rest) g b \<Longrightarrow> skip n \<Longrightarrow> P rest g b"
    and "\<And>n rest g b. suffix (n # rest) ents \<Longrightarrow> P (n # rest) g b \<Longrightarrow> \<not> skip n
           \<Longrightarrow> \<exists>g1 c. act n g = (g1, c) \<and> P rest g1 (b \<and> c)"
  shows "\<exists>fs' b'. each_entry skip act ents (fs, b) = (fs', b') \<and> P [] fs' b'"
  using assms
proof (induction ents arbitrary: fs b)
  case (Cons n rest)
  have suf: "suffix x rest \<Longrightarrow> suffix x (n # rest)" for x by (simp add: suffix_ConsI)
  show ?case
  proof (cases "skip n")
    case True
    have "\<exists>fs' b'. each_entry skip act rest (fs, b) = (fs', b') \<and> P [] fs' b'"
      by (rule Cons.IH) (use True Cons.prems suf in \<open>blast+\<close>)
    with True show ?thesis by simp
  next
    case False
    with Cons.prems obtain g1 c where a: "act n fs = (g1, c)" "P rest g1 (b \<and> c)" by blast
    have "\<exists>fs' b'. each_entry skip act rest (g1, b \<and> c) = (fs', b') \<and> P [] fs' b'"
      by (rule Cons.IH) (use a Cons.prems suf in \<open>blast+\<close>)
    with False a(1) show ?thesis by simp
  qed
qed simp

lemma fs_names_ok: "fs_wf fs \<Longrightarrow> n \<in> set (fs_names fs q) \<Longrightarrow> name_ok n"
  unfolding fs_names_iff using fs_wf_parent [of fs q n] by auto

lemma readdir_distinct: "fs_wf fs \<Longrightarrow> distinct (''.'' # ''..'' # fs_names fs q)"
  using fs_names_distinct fs_names_ok [of fs "''.''" q] fs_names_ok [of fs "''..''" q]
  by (auto simp: name_ok_def)

section \<open>Removing a tree\<close>

text \<open>What removing leaves: nothing new, and nothing changed outside the tree.\<close>

definition removed_in :: "path \<Rightarrow> fs \<Rightarrow> fs \<Rightarrow> bool" where
  "removed_in q fs fs' \<longleftrightarrow> fs_wf fs'
     \<and> (\<forall>x. \<not> prefix q x \<longrightarrow> fs_at fs' x = fs_at fs x)
     \<and> (\<forall>x. fs_at fs' x = None \<or> fs_at fs' x = fs_at fs x)"

definition gone :: "path \<Rightarrow> fs \<Rightarrow> bool" where
  "gone q fs \<longleftrightarrow> (\<forall>r. fs_at fs (q @ r) = None)"

lemma removed_in_del:
  assumes "fs_wf fs" "q \<noteq> []" "\<And>r. r \<noteq> [] \<Longrightarrow> fs_at fs (q @ r) = None"
  shows "removed_in q fs (fs_del q fs)" "gone q (fs_del q fs)"
proof -
  have "fs_wf (fs_del q fs)" using fs_wf_del [OF assms(1,2)] assms(3) by simp
  then show "removed_in q fs (fs_del q fs)"
    using assms(2) by (auto simp: removed_in_def)
  show "gone q (fs_del q fs)"
    using assms(2,3) by (simp add: gone_def)
qed

text \<open>The assertion of the loop: what is left is untouched, what is done is gone.\<close>

definition remove_inv ::
  "bool \<Rightarrow> path \<Rightarrow> fs \<Rightarrow> string list \<Rightarrow> string list \<Rightarrow> fs \<Rightarrow> bool \<Rightarrow> bool" where
  "remove_inv good q fs ents rest g b \<longleftrightarrow>
     removed_in q fs g \<and> fs_at g q = fs_at fs q
     \<and> (\<forall>n \<in> set rest. \<forall>r. fs_at g (q @ n # r) = fs_at fs (q @ n # r))
     \<and> (b \<longrightarrow> (\<forall>n \<in> set ents. n \<notin> set rest \<longrightarrow> gone (q @ [n]) g))
     \<and> (good \<longrightarrow> b)"

lemma remove_inv_skip:
  assumes "fs_wf fs" "remove_inv good q fs ents (n # rest) g b" "\<not> name_ok n"
  shows "remove_inv good q fs ents rest g b"
proof -
  have "gone (q @ [n]) g"
    unfolding gone_def
  proof
    fix r show "fs_at g ((q @ [n]) @ r) = None"
    proof (rule ccontr)
      assume a: "fs_at g ((q @ [n]) @ r) \<noteq> None"
      have "fs_wf g" using assms(2) by (simp add: remove_inv_def removed_in_def)
      from fs_wf_names [OF this a] assms(3) show False by simp
    qed
  qed
  with assms(2) show ?thesis by (auto simp: remove_inv_def)
qed

lemma remove_inv_step:
  assumes "remove_inv good q fs ents (n # rest) g b" "removed_in (q @ [n]) g g1"
    and "c \<longrightarrow> gone (q @ [n]) g1" "good \<longrightarrow> c" "n \<notin> set rest"
  shows "remove_inv good q fs ents rest g1 (b \<and> c)"
proof -
  have r1: "fs_wf g1" "\<And>x. \<not> prefix (q @ [n]) x \<Longrightarrow> fs_at g1 x = fs_at g x"
    "\<And>x. fs_at g1 x = None \<or> fs_at g1 x = fs_at g x"
    using assms(2) by (auto simp: removed_in_def)
  have r0: "\<And>x. \<not> prefix q x \<Longrightarrow> fs_at g x = fs_at fs x" "\<And>x. fs_at g x = None \<or> fs_at g x = fs_at fs x"
    "fs_at g q = fs_at fs q" "\<And>m r. m \<in> set (n # rest) \<Longrightarrow> fs_at g (q @ m # r) = fs_at fs (q @ m # r)"
    "\<And>m. b \<Longrightarrow> m \<in> set ents \<Longrightarrow> m \<notin> set (n # rest) \<Longrightarrow> gone (q @ [m]) g" "good \<Longrightarrow> b"
    using assms(1) by (auto simp: remove_inv_def removed_in_def)
  have "removed_in q fs g1"
    unfolding removed_in_def
  proof (intro conjI allI impI)
    fix x
    show "\<not> prefix q x \<Longrightarrow> fs_at g1 x = fs_at fs x"
      using r1(2) [of x] r0(1) [of x] by (auto dest: append_prefixD)
    show "fs_at g1 x = None \<or> fs_at g1 x = fs_at fs x"
      using r1(3) [of x] r0(2) [of x] by auto
  qed (rule r1(1))
  moreover have "fs_at g1 q = fs_at fs q"
    using r1(2) [of q] r0(3) by (auto dest: prefix_length_le)
  moreover have "fs_at g1 (q @ m # r) = fs_at fs (q @ m # r)" if "m \<in> set rest" for m r
  proof -
    have "\<not> prefix (q @ [n]) (q @ m # r)" using that assms(5) by auto
    with r1(2) r0(4) [of m r] that show ?thesis by simp
  qed
  moreover have "gone (q @ [m]) g1" if "b \<and> c" "m \<in> set ents" "m \<notin> set rest" for m
  proof (cases "m = n")
    case True
    with that assms(3) show ?thesis by simp
  next
    case False
    with that r0(5) have "gone (q @ [m]) g" by simp
    then show ?thesis unfolding gone_def using r1(3) by (metis)
  qed
  ultimately show ?thesis using r0(6) assms(4) by (auto simp: remove_inv_def)
qed

text \<open>There are enough files to open: the entry of every level can be opened.\<close>

definition open_enough :: "nat \<Rightarrow> fs \<Rightarrow> path \<Rightarrow> bool" where
  "open_enough fds fs q \<longleftrightarrow> (\<forall>r. fs_at fs (q @ r) \<noteq> None \<longrightarrow> length r < fds)"

lemma remove_tree_leaf:
  "c_stat env Lstat fs s = Inl e \<Longrightarrow> remove_tree env fds fs s = (fs, e = ENOENT)"
  "c_stat env Lstat fs s = Inr k \<Longrightarrow> \<not> S_ISDIR k \<Longrightarrow> remove_tree env fds fs s = unlink_flag env fs s"
  by (cases fds; simp)+

lemma remove_tree_file:
  assumes "plain s q" "fs_wf fs" "q \<noteq> []" "fs_at fs q \<noteq> None" "\<not> is_dir fs q \<or> c_stat env Lstat fs s = Inl e"
  shows "\<exists>fs' ok. remove_tree env fds fs s = (fs', ok) \<and> removed_in q fs fs'
    \<and> (ok \<longrightarrow> gone q fs') \<and> (no_faults env \<longrightarrow> ok)"
proof -
  note loc = plain_locate_at [OF assms(1,2,4)]
  have same: "removed_in q fs fs" using assms(2) by (simp add: removed_in_def)
  show ?thesis
  proof (cases "c_stat env Lstat fs s")
    case (Inl e)
    have "e = ENOENT \<Longrightarrow> False" using Inl loc assms(4)
      by (auto simp: c_stat_def sys_path_def split: if_splits option.splits)
    moreover have "\<not> no_faults env" using Inl loc assms(4)
      by (auto simp: c_stat_def sys_path_def)
    ultimately show ?thesis using remove_tree_leaf(1) [OF Inl, of fds] same by auto
  next
    case (Inr k)
    then have k: "fs_at fs q = Some k" using loc by (auto simp: c_stat_Inr)
    from Inr assms(5) have nd: "\<not> is_dir fs q" by auto
    then have "\<not> S_ISDIR k" using k by (auto simp: S_ISDIR_def split: kind.splits)
    note run = remove_tree_leaf(2) [OF Inr this, of fds]
      and del = removed_in_del [OF assms(2,3) fs_no_child [OF assms(2) nd]]
    show ?thesis
    proof (cases "c_unlink env fs s")
      case (Inl e)
      have "\<not> no_faults env" using Inl loc k nd
        by (auto simp: c_unlink_def sys_path_def split: kind.splits)
      with run Inl same show ?thesis by (auto simp: unlink_flag_def)
    next
      case (Inr fs')
      then have "fs' = fs_del q fs" using c_unlink_Inr [OF Inr] loc by auto
      with run Inr del show ?thesis by (auto simp: unlink_flag_def)
    qed
  qed
qed

lemma remove_tree_result:
  assumes "plain s q" "fs_wf fs" "fits fs s q" "q \<noteq> []" "fs_at fs q \<noteq> None"
  shows "\<exists>fs' ok. remove_tree env fds fs s = (fs', ok) \<and> removed_in q fs fs'
    \<and> (ok \<longrightarrow> gone q fs') \<and> (no_faults env \<and> open_enough fds fs q \<longrightarrow> ok)"
  using assms
proof (induction fds arbitrary: fs s q)
  case 0
  have low: "\<not> open_enough 0 fs q" using 0(5) unfolding open_enough_def by (metis append_Nil2 not_less_zero)
  have same: "removed_in q fs fs" using 0(2) by (simp add: removed_in_def)
  show ?case
  proof (cases "is_dir fs q \<and> (\<exists>k. c_stat env Lstat fs s = Inr k)")
    case True
    then have "c_stat env Lstat fs s = Inr Dir" using plain_locate_at [OF 0(1,2,5)] by (auto simp: c_stat_Inr)
    with low same show ?thesis by (auto simp: S_ISDIR_def)
  next
    case False
    then obtain e where "\<not> is_dir fs q \<or> c_stat env Lstat fs s = Inl e" by (cases "c_stat env Lstat fs s") auto
    from remove_tree_file [OF 0(1,2,4,5) this, of 0] low show ?thesis by auto
  qed
next
  case (Suc fds)
  note loc = plain_locate_at [OF Suc.prems(1,2,5)]
  have same: "removed_in q fs fs" using Suc.prems(2) by (simp add: removed_in_def)
  let ?good = "no_faults env \<and> open_enough (Suc fds) fs q"
  show ?case
  proof (cases "is_dir fs q \<and> (\<exists>k. c_stat env Lstat fs s = Inr k)")
    case False
    then obtain e where "\<not> is_dir fs q \<or> c_stat env Lstat fs s = Inl e" by (cases "c_stat env Lstat fs s") auto
    from remove_tree_file [OF Suc.prems(1,2,4,5) this, of "Suc fds"] show ?thesis by auto
  next
    case True
    then have d: "is_dir fs q" and st: "c_stat env Lstat fs s = Inr Dir" using loc by (auto simp: c_stat_Inr)
    show ?thesis
    proof (cases "c_opendir env fs s")
      case (Inl e)
      have "\<not> no_faults env" using Inl loc d by (auto simp: c_opendir_def sys_path_def)
      with Inl st same show ?thesis by (auto simp: S_ISDIR_def)
    next
      case (Inr ents)
      then have ents: "ents = ''.'' # ''..'' # fs_names fs q"
        using loc d by (auto simp: c_opendir_def sys_path_def split: if_splits)
      let ?act = "\<lambda>n g. remove_tree env fds g (child_path s n)"
      have name: "name_ok n \<and> fs_at fs (q @ [n]) \<noteq> None" if "n \<in> set ents" "\<not> dot_entry n" for n
      proof -
        have "n \<in> set (fs_names fs q)" using that ents by (auto simp: dot_entry_def)
        then have "fs_at fs (q @ [n]) \<noteq> None" unfolding fs_names_iff .
        with Suc.prems(2) show ?thesis unfolding fs_wf_at by blast
      qed
      have dist: "distinct ents" unfolding ents by (rule readdir_distinct [OF Suc.prems(2)])
      have init: "remove_inv ?good q fs ents ents fs True"
        using same by (simp add: remove_inv_def)
      have "\<exists>fs1 b. each_entry dot_entry ?act ents (fs, True) = (fs1, b)
          \<and> remove_inv ?good q fs ents [] fs1 b"
      proof (rule each_entry_total [where P = "remove_inv ?good q fs ents", OF init])
        fix n rest g b
        assume inv: "remove_inv ?good q fs ents (n # rest) g b" and "dot_entry n"
        then have "\<not> name_ok n" by (auto simp: dot_entry_def name_ok_def)
        with remove_inv_skip [OF Suc.prems(2) inv] show "remove_inv ?good q fs ents rest g b" .
      next
        fix n rest g b
        assume suf: "suffix (n # rest) ents" and inv: "remove_inv ?good q fs ents (n # rest) g b"
          and nd: "\<not> dot_entry n"
        from suf have n: "n \<in> set ents" and nr: "n \<notin> set rest"
          using dist by (auto simp: suffix_def)
        note nm = name [OF n nd]
        have at: "fs_at g (q @ n # r) = fs_at fs (q @ n # r)" for r
          using inv by (simp add: remove_inv_def)
        have len: "length s + length n + 1 + plen r < SKILL_PATH_MAX"
          if "fs_at fs (q @ n # r) \<noteq> None" for r
          using Suc.prems(3) that unfolding fits_def by (metis plen_simps(2) add.assoc)
        have l1: "length s + length n + 1 < SKILL_PATH_MAX" using len [of "[]"] nm by simp
        note ch = plain_child [OF Suc.prems(1) _ l1, of]
        have wfg: "fs_wf g" using inv by (simp add: remove_inv_def removed_in_def)
        have "\<exists>g1 c. remove_tree env fds g (child_path s n) = (g1, c)
            \<and> removed_in (q @ [n]) g g1 \<and> (c \<longrightarrow> gone (q @ [n]) g1) \<and> (no_faults env \<and> open_enough fds g (q @ [n]) \<longrightarrow> c)"
        proof (rule Suc.IH)
          show "plain (child_path s n) (q @ [n])" using ch(2) nm by blast
          show "fs_wf g" by (rule wfg)
          show "fits g (child_path s n) (q @ [n])"
            unfolding fits_def using len at ch(1) nm by simp
          show "q @ [n] \<noteq> []" by simp
          show "fs_at g (q @ [n]) \<noteq> None" using at [of "[]"] nm by simp
        qed
        moreover have "?good \<Longrightarrow> open_enough fds g (q @ [n])"
          using at unfolding open_enough_def by fastforce
        ultimately obtain g1 c where g1: "remove_tree env fds g (child_path s n) = (g1, c)"
            "removed_in (q @ [n]) g g1" "c \<longrightarrow> gone (q @ [n]) g1" "?good \<longrightarrow> c" by blast
        from remove_inv_step [OF inv g1(2,3,4) nr] g1(1)
        show "\<exists>g1 c. remove_tree env fds g (child_path s n) = (g1, c)
            \<and> remove_inv ?good q fs ents rest g1 (b \<and> c)" by blast
      qed
      then obtain fs1 b where loop: "each_entry dot_entry ?act ents (fs, True) = (fs1, b)"
        and inv: "remove_inv ?good q fs ents [] fs1 b" by blast
      have rin: "removed_in q fs fs1" and d1: "is_dir fs1 q" and nf: "?good \<Longrightarrow> b"
        using inv d by (auto simp: remove_inv_def)
      then have wf1: "fs_wf fs1" by (simp add: removed_in_def)
      have empty: "fs_at fs1 (q @ r) = None" if bb: "b" and rr: "r \<noteq> []" for r
      proof (rule ccontr)
        assume a: "fs_at fs1 (q @ r) \<noteq> None"
        obtain n t where r: "r = n # t" using rr by (cases r) auto
        have "fs_at fs (q @ r) \<noteq> None" using a rin unfolding removed_in_def by metis
        then have "fs_at fs ((q @ [n]) @ t) \<noteq> None" using r by simp
        then have "fs_at fs (q @ [n]) \<noteq> None"
          using fs_wf_prefix [OF Suc.prems(2), of "q @ [n]" t] by (cases "t = []") auto
        then have "n \<in> set ents" unfolding ents by (simp add: fs_names_iff del: not_None_eq)
        then have "gone (q @ [n]) fs1" using inv bb by (simp add: remove_inv_def)
        with a r show False by (simp add: gone_def)
      qed
      have loc1: "locate fs1 s = Inr q"
        by (rule plain_locate_at [OF Suc.prems(1) wf1]) (simp add: d1)
      have run: "remove_tree env (Suc fds) fs s = (if \<not> b then (fs1, False) else rmdir_flag env fs1 s)"
        using st Inr loop by (simp add: S_ISDIR_def)
      show ?thesis
      proof (cases b)
        case False
        with run rin nf show ?thesis by auto
      next
        case True
        have "fs_names fs1 q = []"
        proof (rule ccontr)
          assume "fs_names fs1 q \<noteq> []"
          then obtain n where "n \<in> set (fs_names fs1 q)" by (cases "fs_names fs1 q") auto
          then have "fs_at fs1 (q @ [n]) \<noteq> None" unfolding fs_names_iff .
          with empty [OF True, of "[n]"] show False by simp
        qed
        note del = removed_in_del [OF wf1 Suc.prems(4) empty [OF True]]
        show ?thesis
        proof (cases "c_rmdir env fs1 s")
          case (Inl e)
          have "\<not> no_faults env" using Inl loc1 d1 Suc.prems(4) \<open>fs_names fs1 q = []\<close>
            by (auto simp: c_rmdir_def sys_path_def)
          with run True Inl rin show ?thesis by (auto simp: rmdir_flag_def)
        next
          case (Inr fs2)
          then have fs2: "fs2 = fs_del q fs1" using c_rmdir_Inr [OF Inr] loc1 by auto
          have "removed_in q fs fs2"
            using rin del(1) unfolding fs2 removed_in_def by metis
          with run True Inr del(2) fs2 show ?thesis by (auto simp: rmdir_flag_def)
        qed
      qed
    qed
  qed
qed

section \<open>Copying a tree\<close>

text \<open>What a copy holds: the source without anything below a \<open>.snapshots\<close>.\<close>

definition copied :: "path \<Rightarrow> path \<Rightarrow> fs \<Rightarrow> fs \<Rightarrow> bool" where
  "copied p q fs fs' \<longleftrightarrow>
     (\<forall>r. fs_at fs' (q @ r) = (if ''.snapshots'' \<in> set r then None else fs_at fs (p @ r)))"

definition no_special :: "path \<Rightarrow> fs \<Rightarrow> bool" where
  "no_special p fs \<longleftrightarrow> (\<forall>r. fs_at fs (p @ r) \<noteq> Some Special)"

definition kept_outside :: "path \<Rightarrow> fs \<Rightarrow> fs \<Rightarrow> bool" where
  "kept_outside q fs fs' \<longleftrightarrow> fs_wf fs' \<and> (\<forall>x. \<not> prefix q x \<longrightarrow> fs_at fs' x = fs_at fs x)"

lemma gone_child: "gone q fs \<Longrightarrow> gone (q @ r) fs"
  by (simp add: gone_def)

lemma gone_not_ok: "fs_wf fs \<Longrightarrow> \<not> name_ok n \<Longrightarrow> gone (q @ [n]) fs"
  unfolding gone_def by (metis fs_wf_names append.assoc append_Cons in_set_conv_decomp)

lemma copy_file_result:
  assumes "fs_wf fs" "locate fs s = Inr p" "fs_at fs p = Some (Reg u)" "locate fs t = Inr q" "cstr t"
    and "q \<noteq> []" "is_dir fs (butlast q)" "gone q fs" "copy_file env fds fs s t = (fs', ok)"
  shows "kept_outside q fs fs'" "ok \<Longrightarrow> copied p q fs fs'" "no_faults env \<and> 2 \<le> fds \<Longrightarrow> ok"
proof -
  have nq: "\<not> is_dir fs q" "fs_at fs q = None" using assms(8) by (auto simp: gone_def dest: spec [of _ "[]"])
  have nchild: "r \<noteq> [] \<Longrightarrow> fs_at fs (p @ r) = None" for r
    using fs_no_child [OF assms(1), of p r] assms(3) by simp
  have "kept_outside q fs fs' \<and> (ok \<longrightarrow> copied p q fs fs') \<and> (no_faults env \<and> 2 \<le> fds \<longrightarrow> ok)"
  proof (cases "c_fopen_r env fs s")
    case (Inl e)
    have "\<not> no_faults env" using Inl assms(2,3) by (auto simp: c_fopen_r_def c_stat_def sys_path_def)
    with Inl assms(1,9) show ?thesis by (auto simp: copy_file_def kept_outside_def)
  next
    case (Inr f)
    then have f: "f = Reg u"
      using assms(2,3) by (auto simp: c_fopen_r_def c_stat_def sys_path_def split: if_splits)
    obtain buf err where rd: "c_fread env s f (length u) = (buf, err)" by fastforce
    then have buf: "\<not> err \<longrightarrow> buf = u" "no_faults env \<longrightarrow> \<not> err"
      using f by (auto simp: c_fread_def split: if_splits)
    show ?thesis
    proof (cases "fds < 2")
      case True
      with Inr assms(1,9) show ?thesis by (auto simp: copy_file_def kept_outside_def)
    next
      case fds: False
      show ?thesis
      proof (cases "c_write_file env fs t buf")
        case None
        have "\<not> no_faults env" using None assms(4,7) nq by (auto simp: c_write_file_def sys_path_def)
        with None Inr f rd fds assms(1,9) show ?thesis by (auto simp: copy_file_def kept_outside_def)
      next
        case (Some r)
        obtain fs1 wok where r: "r = (fs1, wok)" by (cases r)
        have res: "fs' = fs1" "ok = (wok \<and> \<not> err)" using assms(9) Inr f rd fds Some r by (auto simp: copy_file_def)
        from c_write_file_Some [OF Some [unfolded r]] assms(4) obtain v where
          v: "fs1 = fs_put q (Reg v) fs" "wok \<longrightarrow> v = buf" by auto
        have "no_faults env \<Longrightarrow> wok"
          using Some r assms(4) by (auto simp: c_write_file_def sys_path_def split: if_splits)
        moreover have "fs_wf fs1" unfolding v(1) by (rule fs_wf_put_at [OF assms(1,5,4,6,7) nq(1)])
        moreover have "kept_outside q fs fs1"
          using calculation(2) v(1) assms(6) by (auto simp: kept_outside_def)
        moreover have "copied p q fs fs1" if "ok"
        proof -
          from that res v buf have "v = u" by auto
          then show ?thesis
            using v(1) assms(3,6,8) nchild by (auto simp: copied_def gone_def)
        qed
        ultimately show ?thesis using res buf(2) by auto
      qed
    qed
  qed
  then show "kept_outside q fs fs'" "ok \<Longrightarrow> copied p q fs fs'" "no_faults env \<and> 2 \<le> fds \<Longrightarrow> ok" by auto
qed

text \<open>
  The entries a loop over the children of a directory may touch: all below it but the
  snapshots.
\<close>

definition skill_place :: "path \<Rightarrow> path \<Rightarrow> bool" where
  "skill_place S x \<longleftrightarrow> (\<exists>n r. x = S @ n # r \<and> n \<noteq> ''.snapshots'')"

definition kept_places :: "path \<Rightarrow> fs \<Rightarrow> fs \<Rightarrow> bool" where
  "kept_places S fs fs' \<longleftrightarrow> fs_wf fs' \<and> (\<forall>x. \<not> skill_place S x \<longrightarrow> fs_at fs' x = fs_at fs x)"

text \<open>The children of one directory are copies of the children of the other.\<close>

definition restored :: "path \<Rightarrow> path \<Rightarrow> fs \<Rightarrow> fs \<Rightarrow> bool" where
  "restored P S fs fs' \<longleftrightarrow>
     (\<forall>n r. n \<noteq> ''.snapshots'' \<longrightarrow> fs_at fs' (S @ n # r)
        = (if ''.snapshots'' \<in> set r then None else fs_at fs (P @ n # r)))"

lemma skill_place_simps [simp]: "\<not> skill_place q q" "skill_place q (q @ n # r) \<longleftrightarrow> n \<noteq> ''.snapshots''"
  by (auto simp: skill_place_def)

lemma skill_place_prefix: "skill_place q x \<Longrightarrow> prefix q x"
  by (auto simp: skill_place_def)

lemma skill_place_below: "prefix (S @ [n]) x \<Longrightarrow> n \<noteq> ''.snapshots'' \<Longrightarrow> skill_place S x"
  by (auto simp: skill_place_def prefix_def)

lemma kept_places_refl: "fs_wf fs \<Longrightarrow> kept_places S fs fs"
  by (simp add: kept_places_def)

lemma kept_places_outside: "kept_places q fs g \<Longrightarrow> kept_outside q fs g"
  unfolding kept_places_def kept_outside_def using skill_place_prefix by blast

lemma kept_outside_places:
  "kept_outside (q @ [n]) fs g \<Longrightarrow> n \<noteq> ''.snapshots'' \<Longrightarrow> kept_places q fs g"
  unfolding kept_places_def kept_outside_def using skill_place_below by blast

lemma kept_places_trans: "kept_places q fs g \<Longrightarrow> kept_places q g h \<Longrightarrow> kept_places q fs h"
  unfolding kept_places_def by simp

lemma kept_outside_trans: "kept_outside q fs g \<Longrightarrow> kept_outside q g h \<Longrightarrow> kept_outside q fs h"
  unfolding kept_outside_def by simp

lemma kept_refl: "fs_wf fs \<Longrightarrow> kept_outside q fs fs"
  by (simp add: kept_outside_def)

lemma no_entry_gone: "fs_wf fs \<Longrightarrow> fs_at fs (p @ [n]) = None \<Longrightarrow> gone (p @ [n]) fs"
  unfolding gone_def using fs_no_child [of fs "p @ [n]"] by (metis append_Nil2 option.distinct(1))

lemma not_listed_gone:
  assumes "fs_wf fs" "n \<notin> set (''.'' # ''..'' # fs_names fs p) \<or> dot_entry n"
  shows "gone (p @ [n]) fs"
proof (cases "name_ok n")
  case True
  then have "fs_at fs (p @ [n]) = None"
    using assms(2) by (auto simp: name_ok_def dot_entry_def fs_names_iff)
  then show ?thesis by (rule no_entry_gone [OF assms(1)])
qed (rule gone_not_ok [OF assms(1)])

lemma dot_or_snapshots_iff: "dot_or_snapshots n \<longleftrightarrow> dot_entry n \<or> n = ''.snapshots''"
  by (auto simp: dot_or_snapshots_def dot_entry_def)

lemma plen_length: "length r \<le> plen r"
  by (induction r) simp_all

lemma fits_depth: "fits fs s S \<Longrightarrow> fs_at fs (S @ r) \<noteq> None \<Longrightarrow> length r < SKILL_PATH_MAX"
  using plen_length [of r] unfolding fits_def by fastforce

lemma fits_child:
  "fits fs s p \<Longrightarrow> fs_at fs (p @ n # r) \<noteq> None \<Longrightarrow> length s + length n + 1 + plen r < SKILL_PATH_MAX"
  unfolding fits_def by (metis plen_simps(2) add.assoc)

section \<open>Copying the children of a directory\<close>

text \<open>The loop, with the file system it starts from.\<close>

definition copy_inv ::
  "bool \<Rightarrow> path \<Rightarrow> path \<Rightarrow> fs \<Rightarrow> string list \<Rightarrow> string list \<Rightarrow> fs \<Rightarrow> bool \<Rightarrow> bool" where
  "copy_inv good p q fs ents rest g b \<longleftrightarrow>
     kept_places q fs g
     \<and> (\<forall>n. n \<noteq> ''.snapshots'' \<and> (n \<in> set rest \<or> n \<notin> set ents \<or> dot_or_snapshots n) \<longrightarrow> gone (q @ [n]) g)
     \<and> (b \<longrightarrow> (\<forall>n \<in> set ents. n \<notin> set rest \<longrightarrow> \<not> dot_or_snapshots n \<longrightarrow> copied (p @ [n]) (q @ [n]) fs g))
     \<and> (good \<longrightarrow> b)"

lemma copy_inv_skip:
  "copy_inv good p q fs ents (n # rest) g b \<Longrightarrow> dot_or_snapshots n \<Longrightarrow> copy_inv good p q fs ents rest g b"
  unfolding copy_inv_def by auto

lemma kept_sibling:
  "kept_outside (q @ [n]) g g1 \<Longrightarrow> m \<noteq> n \<Longrightarrow> fs_at g1 (q @ m # r) = fs_at g (q @ m # r)"
  by (simp add: kept_outside_def)

lemma copy_inv_step:
  assumes "copy_inv good p q fs ents (n # rest) g b" "kept_outside (q @ [n]) g g1"
    and "c \<longrightarrow> copied (p @ [n]) (q @ [n]) fs g1" "good \<longrightarrow> c"
    and "n \<notin> set rest" "n \<in> set ents" "\<not> dot_or_snapshots n"
  shows "copy_inv good p q fs ents rest g1 (b \<and> c)"
proof -
  have r0: "kept_places q fs g"
    "\<And>m. m \<noteq> ''.snapshots'' \<Longrightarrow> m \<in> set (n # rest) \<or> m \<notin> set ents \<or> dot_or_snapshots m \<Longrightarrow> gone (q @ [m]) g"
    "\<And>m. b \<Longrightarrow> m \<in> set ents \<Longrightarrow> m \<notin> set (n # rest) \<Longrightarrow> \<not> dot_or_snapshots m
       \<Longrightarrow> copied (p @ [m]) (q @ [m]) fs g"
    "good \<Longrightarrow> b"
    using assms(1) by (auto simp: copy_inv_def)
  note sib = kept_sibling [OF assms(2)]
  have "n \<noteq> ''.snapshots''" using assms(7) by (simp add: dot_or_snapshots_def)
  then have "kept_places q fs g1" using r0(1) assms(2) kept_outside_places kept_places_trans by blast
  moreover have "gone (q @ [m]) g1"
    if "m \<noteq> ''.snapshots''" "m \<in> set rest \<or> m \<notin> set ents \<or> dot_or_snapshots m" for m
  proof -
    have "m \<noteq> n" using that assms(5,6,7) by auto
    moreover have "gone (q @ [m]) g" using r0(2) that by auto
    ultimately show ?thesis using sib by (simp add: gone_def)
  qed
  moreover have "copied (p @ [m]) (q @ [m]) fs g1"
    if "b \<and> c" "m \<in> set ents" "m \<notin> set rest" "\<not> dot_or_snapshots m" for m
  proof (cases "m = n")
    case True
    with that assms(3) show ?thesis by simp
  next
    case False
    with that r0(3) have "copied (p @ [m]) (q @ [m]) fs g" by simp
    then show ?thesis using sib [OF False] by (simp add: copied_def)
  qed
  ultimately show ?thesis using r0(4) assms(4) by (auto simp: copy_inv_def)
qed

text \<open>At the end of the loop the children are copies.\<close>

lemma copy_inv_done:
  assumes "copy_inv good p q fs ents [] g b" "b" "fs_wf fs" "ents = ''.'' # ''..'' # fs_names fs p"
  shows "restored p q fs g"
  unfolding restored_def
proof (intro allI impI)
  fix n r assume ns: "n \<noteq> ''.snapshots''"
  show "fs_at g (q @ n # r) = (if ''.snapshots'' \<in> set r then None else fs_at fs (p @ n # r))"
  proof (cases "n \<in> set ents \<and> \<not> dot_or_snapshots n")
    case True
    then have "copied (p @ [n]) (q @ [n]) fs g" using assms(1,2) by (simp add: copy_inv_def)
    then show ?thesis by (simp add: copied_def)
  next
    case False
    then have "gone (q @ [n]) g" using assms(1) ns by (auto simp: copy_inv_def)
    moreover have "gone (p @ [n]) fs"
      using not_listed_gone [OF assms(3), of n p] False ns unfolding assms(4) dot_or_snapshots_iff by blast
    ultimately show ?thesis by (simp add: gone_def)
  qed
qed

text \<open>When a copy succeeds: no failures, no special files, and two files can be open at every level.\<close>

definition copy_good :: "env \<Rightarrow> nat \<Rightarrow> fs \<Rightarrow> path \<Rightarrow> bool" where
  "copy_good env fds fs p \<longleftrightarrow> no_faults env \<and> no_special p fs
     \<and> (\<forall>r. fs_at fs (p @ r) \<noteq> None \<longrightarrow> length r + 1 < fds)"

text \<open>What is known of a copy with a given number of files to open: its flag says whether it copied.\<close>

definition copies :: "env \<Rightarrow> nat \<Rightarrow> bool" where
  "copies env fds \<longleftrightarrow> (\<forall>fs s t p q.
     plain s p \<and> plain t q \<and> fs_wf fs \<and> fits fs s p \<and> length t \<le> length s \<and> q \<noteq> []
     \<and> is_dir fs (butlast q) \<and> gone q fs \<and> \<not> prefix p q \<and> \<not> prefix q p \<and> fs_at fs p \<noteq> None
     \<longrightarrow> (\<exists>fs' ok. copy_tree env fds fs s t = (fs', ok) \<and> kept_outside q fs fs'
          \<and> (ok \<longrightarrow> copied p q fs fs') \<and> (copy_good env fds fs p \<longrightarrow> ok)))"

text \<open>Two directories, the source out of the way of the children of the destination.\<close>

definition copy_dirs :: "fs \<Rightarrow> string \<Rightarrow> string \<Rightarrow> path \<Rightarrow> path \<Rightarrow> bool" where
  "copy_dirs fs s t p q \<longleftrightarrow>
     plain s p \<and> plain t q \<and> fs_wf fs \<and> fits fs s p \<and> length t \<le> length s
     \<and> is_dir fs q \<and> (\<forall>r. \<not> skill_place q (p @ r)) \<and> (\<forall>n. n \<noteq> ''.snapshots'' \<longrightarrow> gone (q @ [n]) fs)"

lemma copy_child:
  assumes "copies env fds" "copy_dirs fs s t p q" "kept_places q fs g" "gone (q @ [n]) g"
    and "fs_at fs (p @ [n]) \<noteq> None" "\<not> dot_or_snapshots n"
  shows "\<exists>g1 c. copy_tree env fds g (child_path s n) (child_path t n) = (g1, c)
    \<and> kept_outside (q @ [n]) g g1 \<and> (c \<longrightarrow> copied (p @ [n]) (q @ [n]) fs g1)
    \<and> (copy_good env (Suc fds) fs p \<longrightarrow> c)"
proof -
  have h: "plain s p" "plain t q" "fs_wf fs" "fits fs s p" "length t \<le> length s" "is_dir fs q"
    "\<And>r. \<not> skill_place q (p @ r)"
    using assms(2) by (simp_all add: copy_dirs_def)
  have ns: "n \<noteq> ''.snapshots''" using assms(6) by (simp add: dot_or_snapshots_def)
  have nm: "name_ok n" using assms(5) h(3) unfolding fs_wf_at by blast
  have src: "fs_at g (p @ r) = fs_at fs (p @ r)" for r
    using assms(3) h(7) by (simp add: kept_places_def)
  have l1: "length s + length n + 1 < SKILL_PATH_MAX" using fits_child [OF h(4) assms(5)] by simp
  then have l2: "length t + length n + 1 < SKILL_PATH_MAX" using h(5) by simp
  note chs = plain_child [OF h(1) nm l1] and cht = plain_child [OF h(2) nm l2]
  have "\<not> prefix (p @ [n]) (q @ [n])"
    using h(7) ns unfolding prefix_def by (metis append.assoc skill_place_simps(2))
  moreover have "\<not> prefix (q @ [n]) (p @ [n])" using h(7) ns skill_place_below by blast
  moreover have "is_dir g (butlast (q @ [n]))" using assms(3) h(6) by (simp add: kept_places_def)
  moreover have "fits g (child_path s n) (p @ [n])"
    unfolding fits_def using fits_child [OF h(4)] src chs(1) by simp
  moreover have "fs_wf g" using assms(3) by (simp add: kept_places_def)
  moreover have "length (child_path t n) \<le> length (child_path s n)" using chs(1) cht(1) h(5) by simp
  ultimately obtain g1 c where "copy_tree env fds g (child_path s n) (child_path t n) = (g1, c)"
    "kept_outside (q @ [n]) g g1" "c \<longrightarrow> copied (p @ [n]) (q @ [n]) g g1"
    "copy_good env fds g (p @ [n]) \<longrightarrow> c"
    using assms(1) [unfolded copies_def, rule_format, of "child_path s n" "p @ [n]" "child_path t n" "q @ [n]" g]
      chs(2) cht(2) assms(4,5) src [of "[n]"] by auto
  moreover have "copy_good env (Suc fds) fs p \<Longrightarrow> copy_good env fds g (p @ [n])"
    using src unfolding copy_good_def no_special_def by fastforce
  ultimately show ?thesis using src by (auto simp: copied_def)
qed

lemma copy_loop:
  assumes "copies env fds" "copy_dirs fs s t p q" "ents = ''.'' # ''..'' # fs_names fs p"
  shows "\<exists>fs2 b. each_entry dot_or_snapshots (\<lambda>n g. copy_tree env fds g (child_path s n) (child_path t n))
       ents (fs, True) = (fs2, b)
     \<and> kept_places q fs fs2 \<and> (b \<longrightarrow> restored p q fs fs2) \<and> (copy_good env (Suc fds) fs p \<longrightarrow> b)"
proof -
  let ?good = "copy_good env (Suc fds) fs p"
  let ?act = "\<lambda>n g. copy_tree env fds g (child_path s n) (child_path t n)"
  have wf: "fs_wf fs" and free: "\<And>n. n \<noteq> ''.snapshots'' \<Longrightarrow> gone (q @ [n]) fs"
    using assms(2) by (simp_all add: copy_dirs_def)
  have dist: "distinct ents" unfolding assms(3) by (rule readdir_distinct [OF wf])
  have init: "copy_inv ?good p q fs ents ents fs True"
    using wf free by (simp add: copy_inv_def kept_places_refl)
  have "\<exists>fs2 b. each_entry dot_or_snapshots ?act ents (fs, True) = (fs2, b)
      \<and> copy_inv ?good p q fs ents [] fs2 b"
  proof (rule each_entry_total [where P = "copy_inv ?good p q fs ents", OF init copy_inv_skip])
    fix n rest g b
    assume suf: "suffix (n # rest) ents" and inv: "copy_inv ?good p q fs ents (n # rest) g b"
      and nd: "\<not> dot_or_snapshots n"
    from suf have n: "n \<in> set ents" and nr: "n \<notin> set rest"
      using dist by (auto simp: suffix_def)
    have at: "fs_at fs (p @ [n]) \<noteq> None"
      using n nd unfolding assms(3) by (auto simp: dot_or_snapshots_def fs_names_iff)
    have kg: "kept_places q fs g" "gone (q @ [n]) g"
      using inv nd by (auto simp: copy_inv_def dot_or_snapshots_def)
    from copy_child [OF assms(1,2) kg at nd]
    show "\<exists>g1 c. ?act n g = (g1, c) \<and> copy_inv ?good p q fs ents rest g1 (b \<and> c)"
      using copy_inv_step [OF inv _ _ _ nr n nd] by blast
  qed
  then obtain fs2 b where "each_entry dot_or_snapshots ?act ents (fs, True) = (fs2, b)"
    and inv: "copy_inv ?good p q fs ents [] fs2 b" by blast
  moreover have "b \<Longrightarrow> restored p q fs fs2" by (rule copy_inv_done [OF inv _ wf assms(3)])
  moreover have "kept_places q fs fs2" "?good \<longrightarrow> b"
    using inv by (simp_all add: copy_inv_def)
  ultimately show ?thesis by blast
qed

section \<open>Copying a tree\<close>

text \<open>A restored directory that had no snapshots is a copy.\<close>

lemma restored_copied:
  assumes "restored p q fs fs'" "fs_at fs' q = fs_at fs p" "gone (q @ [''.snapshots'']) fs'"
  shows "copied p q fs fs'"
  unfolding copied_def
proof
  fix r show "fs_at fs' (q @ r) = (if ''.snapshots'' \<in> set r then None else fs_at fs (p @ r))"
  proof (cases r)
    case (Cons n t)
    then show ?thesis using assms(1,3) by (cases "n = ''.snapshots''") (auto simp: restored_def gone_def)
  qed (use assms(2) in simp)
qed

lemma copy_tree_dir:
  assumes "copies env fds" "plain s p" "plain t q" "fs_wf fs" "fits fs s p" "length t \<le> length s" "q \<noteq> []"
    and "is_dir fs (butlast q)" "gone q fs" "\<not> prefix p q" "\<not> prefix q p" "is_dir fs p"
    and "c_stat env Lstat fs s = Inr Dir"
  shows "\<exists>fs' ok. copy_tree env (Suc fds) fs s t = (fs', ok) \<and> kept_outside q fs fs'
    \<and> (ok \<longrightarrow> copied p q fs fs') \<and> (copy_good env (Suc fds) fs p \<longrightarrow> ok)"
proof (cases "c_mkdir env fs t")
  case (Inl e)
  have lt: "locate fs t = Inr q" using plain_locate_dir [OF assms(3,4)] assms(8) by blast
  have nq: "fs_at fs q = None" using assms(9) by (auto simp: gone_def dest: spec [of _ "[]"])
  have "e \<noteq> EEXIST" "\<not> no_faults env"
    using Inl lt nq assms(8) by (auto simp: c_mkdir_def sys_path_def split: if_splits)
  with Inl assms(13) kept_refl [OF assms(4)] show ?thesis by (auto simp: S_ISDIR_def mkdir_or_exists_def copy_good_def)
next
  case (Inr fs1)
  have lt: "locate fs t = Inr q" using plain_locate_dir [OF assms(3,4)] assms(8) by blast
  have fs1: "fs1 = fs_put q Dir fs" using c_mkdir_Inr [OF Inr] lt by auto
  have wf1: "fs_wf fs1" using c_mkdir_wf [OF Inr assms(4)] assms(3) by (simp add: plain_def)
  have k1: "kept_outside q fs fs1" using wf1 assms(7) by (auto simp: kept_outside_def fs1)
  have src: "fs_at fs1 (p @ r) = fs_at fs (p @ r)" for r
  proof -
    have "\<not> prefix q (p @ r)" using assms(10,11) by (auto simp: prefix_append)
    with k1 show ?thesis by (simp add: kept_outside_def)
  qed
  have ls1: "locate fs1 s = Inr p"
    by (rule plain_locate_at [OF assms(2) wf1]) (use src [of "[]"] assms(12) in simp)
  have mk: "mkdir_or_exists env fs t = Some fs1" using Inr by (simp add: mkdir_or_exists_def)
  show ?thesis
  proof (cases "c_opendir env fs1 s")
    case (Inl e)
    have "\<not> no_faults env" using Inl ls1 src [of "[]"] assms(12) by (auto simp: c_opendir_def sys_path_def)
    with Inl assms(13) mk k1 show ?thesis by (auto simp: S_ISDIR_def copy_good_def)
  next
    case (Inr ents)
    then have ents: "ents = ''.'' # ''..'' # fs_names fs1 p"
      using ls1 src [of "[]"] assms(12) by (auto simp: c_opendir_def sys_path_def split: if_splits)
    have free: "gone (q @ n # r) fs1" for n r
      using assms(7,9) by (simp add: gone_def fs1)
    have "copy_dirs fs1 s t p q"
      unfolding copy_dirs_def
    proof (intro conjI allI impI)
      show "fits fs1 s p" using assms(5) src by (simp add: fits_def)
      show "is_dir fs1 q" using assms(7) by (simp add: fs1)
      show "\<not> skill_place q (p @ r)" for r
        using assms(10,11) by (auto dest!: skill_place_prefix simp: prefix_append)
    qed (use assms wf1 free in simp_all)
    from copy_loop [OF assms(1) this ents] obtain fs2 b where
      loop: "each_entry dot_or_snapshots (\<lambda>n g. copy_tree env fds g (child_path s n) (child_path t n))
        ents (fs1, True) = (fs2, b)" and kept: "kept_places q fs1 fs2"
      and fin: "b \<longrightarrow> restored p q fs1 fs2" "copy_good env (Suc fds) fs1 p \<longrightarrow> b" by blast
    have "copy_tree env (Suc fds) fs s t = (fs2, b)"
      using assms(13) mk Inr loop by (simp add: S_ISDIR_def)
    moreover have "kept_outside q fs fs2"
      using k1 kept_places_outside [OF kept] by (rule kept_outside_trans)
    moreover have "copied p q fs fs2" if "b"
    proof (rule restored_copied)
      show "restored p q fs fs2" using fin(1) that src by (simp add: restored_def)
      show "fs_at fs2 q = fs_at fs p" using kept assms(7,12) by (simp add: kept_places_def fs1)
      show "gone (q @ [''.snapshots'']) fs2"
        using kept free [of "''.snapshots''" "[]"] by (simp add: kept_places_def gone_def)
    qed
    moreover have "copy_good env (Suc fds) fs1 p \<longleftrightarrow> copy_good env (Suc fds) fs p"
      using src by (simp add: copy_good_def no_special_def)
    ultimately show ?thesis using fin(2) by blast
  qed
qed

lemma copy_tree_leaf:
  "c_stat env Lstat fs s = Inl e \<Longrightarrow> copy_tree env fds fs s t = (fs, False)"
  "c_stat env Lstat fs s = Inr (Reg u) \<Longrightarrow> copy_tree env fds fs s t = copy_file env fds fs s t"
  "c_stat env Lstat fs s = Inr Special \<Longrightarrow> copy_tree env fds fs s t = (fs, False)"
  by (cases fds; simp add: S_ISDIR_def S_ISREG_def)+

text \<open>With no more file to open a directory is made and left empty.\<close>

lemma copy_tree_dir_0:
  assumes "plain t q" "fs_wf fs" "q \<noteq> []" "is_dir fs (butlast q)" "c_stat env Lstat fs s = Inr Dir"
  shows "\<exists>fs'. copy_tree env 0 fs s t = (fs', False) \<and> kept_outside q fs fs'"
proof (cases "c_mkdir env fs t")
  case (Inl e)
  with assms(5) kept_refl [OF assms(2)] show ?thesis by (auto simp: S_ISDIR_def mkdir_or_exists_def)
next
  case (Inr fs1)
  have lt: "locate fs t = Inr q" using plain_locate_dir [OF assms(1,2)] assms(4) by blast
  have fs1: "fs1 = fs_put q Dir fs" using c_mkdir_Inr [OF Inr] lt by auto
  have "fs_wf fs1" using c_mkdir_wf [OF Inr assms(2)] assms(1) by (simp add: plain_def)
  then have "kept_outside q fs fs1" using assms(3) by (auto simp: kept_outside_def fs1)
  with Inr assms(5) show ?thesis by (simp add: S_ISDIR_def mkdir_or_exists_def)
qed

lemma copy_tree_copies: "copies env fds"
proof (induction fds)
  case 0
  show ?case unfolding copies_def
  proof (intro allI impI, elim conjE)
    fix fs s t p q
    assume h: "plain s p" "plain t q" "fs_wf fs" "q \<noteq> []" "is_dir fs (butlast q)" "gone q fs" "fs_at fs p \<noteq> None"
    have bad: "\<not> copy_good env 0 fs p" using h(7) unfolding copy_good_def by (metis append_Nil2 not_less_zero)
    have ls: "locate fs s = Inr p" by (rule plain_locate_at [OF h(1,3,7)])
    show "\<exists>fs' ok. copy_tree env 0 fs s t = (fs', ok) \<and> kept_outside q fs fs'
        \<and> (ok \<longrightarrow> copied p q fs fs') \<and> (copy_good env 0 fs p \<longrightarrow> ok)"
    proof (cases "c_stat env Lstat fs s = Inr Dir")
      case True
      from copy_tree_dir_0 [OF h(2-5) True] bad show ?thesis by auto
    next
      case False
      have "copy_tree env 0 fs s t = (fs, False)"
      proof (cases "c_stat env Lstat fs s")
        case (Inr k)
        with False show ?thesis
          by (cases k) (simp_all add: copy_tree_leaf copy_file_def del: copy_tree.simps split: sum.splits)
      qed (rule copy_tree_leaf(1))
      with bad kept_refl [OF h(3)] show ?thesis by (auto simp del: copy_tree.simps)
    qed
  qed
next
  case (Suc fds)
  show ?case unfolding copies_def
  proof (intro allI impI, elim conjE)
    fix fs s t p q
    assume h: "plain s p" "plain t q" "fs_wf fs" "fits fs s p" "length t \<le> length s" "q \<noteq> []"
      "is_dir fs (butlast q)" "gone q fs" "\<not> prefix p q" "\<not> prefix q p" "fs_at fs p \<noteq> None"
    have ls: "locate fs s = Inr p" by (rule plain_locate_at [OF h(1,3,11)])
    have lt: "locate fs t = Inr q" using plain_locate_dir [OF h(2,3)] h(7) by blast
    have ct: "cstr t" using h(2) by (simp add: plain_def)
    note same = kept_refl [OF h(3), of q]
    show "\<exists>fs' ok. copy_tree env (Suc fds) fs s t = (fs', ok) \<and> kept_outside q fs fs'
      \<and> (ok \<longrightarrow> copied p q fs fs') \<and> (copy_good env (Suc fds) fs p \<longrightarrow> ok)"
    proof (cases "c_stat env Lstat fs s")
      case (Inl e)
      have "\<not> no_faults env" using Inl ls h(11) by (auto simp: c_stat_def sys_path_def)
      with copy_tree_leaf(1) [OF Inl] same show ?thesis by (auto simp: copy_good_def simp del: copy_tree.simps)
    next
      case (Inr k)
      then have k: "fs_at fs p = Some k" using ls by (auto simp: c_stat_def sys_path_def split: if_splits option.splits)
      show ?thesis
      proof (cases k)
        case (Reg u)
        obtain fs' ok where cp: "copy_file env (Suc fds) fs s t = (fs', ok)" by fastforce
        have "copy_good env (Suc fds) fs p \<Longrightarrow> no_faults env \<and> 2 \<le> Suc fds"
          using k unfolding copy_good_def by (force dest: spec [of _ "[]"])
        with copy_file_result [OF h(3) ls k [unfolded Reg] lt ct h(6,7,8) cp] cp
        show ?thesis using copy_tree_leaf(2) [OF Inr [unfolded Reg]] by (auto simp del: copy_tree.simps)
      next
        case Special
        then have "\<not> no_special p fs" using k unfolding no_special_def by (metis append_Nil2)
        with copy_tree_leaf(3) [OF Inr [unfolded Special]] same show ?thesis
          by (auto simp: copy_good_def simp del: copy_tree.simps)
      next
        case Dir
        show ?thesis
          by (rule copy_tree_dir [OF Suc.IH h(1-10)]) (use k Inr Dir in simp_all)
      qed
    qed
  qed
qed

section \<open>Clearing the skills\<close>

definition clear_inv ::
  "bool \<Rightarrow> path \<Rightarrow> fs \<Rightarrow> string list \<Rightarrow> string list \<Rightarrow> fs \<Rightarrow> bool \<Rightarrow> bool" where
  "clear_inv good S fs ents rest g b \<longleftrightarrow>
     kept_places S fs g \<and> (\<forall>x. fs_at g x = None \<or> fs_at g x = fs_at fs x)
     \<and> (\<forall>n \<in> set rest. \<forall>r. fs_at g (S @ n # r) = fs_at fs (S @ n # r))
     \<and> (b \<longrightarrow> (\<forall>n \<in> set ents. n \<notin> set rest \<longrightarrow> \<not> dot_or_snapshots n \<longrightarrow> gone (S @ [n]) g))
     \<and> (good \<longrightarrow> b)"

lemma clear_inv_step:
  assumes "clear_inv good S fs ents (n # rest) g b" "removed_in (S @ [n]) g g1"
    and "c \<longrightarrow> gone (S @ [n]) g1" "good \<longrightarrow> c" "n \<notin> set rest" "\<not> dot_or_snapshots n"
  shows "clear_inv good S fs ents rest g1 (b \<and> c)"
proof -
  have r1: "fs_wf g1" "\<And>x. \<not> prefix (S @ [n]) x \<Longrightarrow> fs_at g1 x = fs_at g x"
    "\<And>x. fs_at g1 x = None \<or> fs_at g1 x = fs_at g x"
    using assms(2) by (auto simp: removed_in_def)
  have r0: "\<And>x. \<not> skill_place S x \<Longrightarrow> fs_at g x = fs_at fs x" "\<And>x. fs_at g x = None \<or> fs_at g x = fs_at fs x"
    "\<And>m r. m \<in> set (n # rest) \<Longrightarrow> fs_at g (S @ m # r) = fs_at fs (S @ m # r)"
    "\<And>m. b \<Longrightarrow> m \<in> set ents \<Longrightarrow> m \<notin> set (n # rest) \<Longrightarrow> \<not> dot_or_snapshots m \<Longrightarrow> gone (S @ [m]) g"
    "good \<Longrightarrow> b"
    using assms(1) by (auto simp: clear_inv_def kept_places_def)
  have ns: "n \<noteq> ''.snapshots''" using assms(6) by (simp add: dot_or_snapshots_def)
  have "kept_places S fs g1"
    using r1 r0(1) skill_place_below [OF _ ns] unfolding kept_places_def by metis
  moreover have "fs_at g1 x = None \<or> fs_at g1 x = fs_at fs x" for x
    using r1(3) [of x] r0(2) [of x] by auto
  moreover have "fs_at g1 (S @ m # r) = fs_at fs (S @ m # r)" if "m \<in> set rest" for m r
  proof -
    have "\<not> prefix (S @ [n]) (S @ m # r)" using that assms(5) by auto
    with r1(2) r0(3) [of m r] that show ?thesis by simp
  qed
  moreover have "gone (S @ [m]) g1" if "b \<and> c" "m \<in> set ents" "m \<notin> set rest" "\<not> dot_or_snapshots m" for m
  proof (cases "m = n")
    case True
    with that assms(3) show ?thesis by simp
  next
    case False
    with that r0(4) have "gone (S @ [m]) g" by simp
    then show ?thesis unfolding gone_def using r1(3) by metis
  qed
  ultimately show ?thesis using r0(5) assms(4) by (auto simp: clear_inv_def)
qed

lemma clear_result:
  assumes "plain s S" "fs_wf fs" "fits fs s S" "is_dir fs S"
  shows "\<exists>fs2 b. each_entry dot_or_snapshots (\<lambda>n g. remove_tree env fds g (child_path s n))
       (''.'' # ''..'' # fs_names fs S) (fs, True) = (fs2, b)
     \<and> kept_places S fs fs2 \<and> (b \<longrightarrow> (\<forall>n. n \<noteq> ''.snapshots'' \<longrightarrow> gone (S @ [n]) fs2))
     \<and> (no_faults env \<and> SKILL_PATH_MAX \<le> fds \<longrightarrow> b)"
proof -
  let ?good = "no_faults env \<and> SKILL_PATH_MAX \<le> fds"
  let ?ents = "''.'' # ''..'' # fs_names fs S"
  let ?act = "\<lambda>n g. remove_tree env fds g (child_path s n)"
  have dist: "distinct ?ents" by (rule readdir_distinct [OF assms(2)])
  have init: "clear_inv ?good S fs ?ents ?ents fs True"
    using assms(2) by (simp add: clear_inv_def kept_places_def)
  have "\<exists>fs2 b. each_entry dot_or_snapshots ?act ?ents (fs, True) = (fs2, b)
      \<and> clear_inv ?good S fs ?ents [] fs2 b"
  proof (rule each_entry_total [where P = "clear_inv ?good S fs ?ents", OF init])
    fix n rest g b
    show "clear_inv ?good S fs ?ents (n # rest) g b \<Longrightarrow> dot_or_snapshots n \<Longrightarrow> clear_inv ?good S fs ?ents rest g b"
      unfolding clear_inv_def by auto
  next
    fix n rest g b
    assume suf: "suffix (n # rest) ?ents" and inv: "clear_inv ?good S fs ?ents (n # rest) g b"
      and nd: "\<not> dot_or_snapshots n"
    from suf obtain zs where "?ents = zs @ n # rest" by (auto simp: suffix_def)
    with dist have n: "n \<in> set ?ents" and nr: "n \<notin> set rest"
      by (metis in_set_conv_decomp, metis distinct.simps(2) distinct_append)
    then have "n \<in> set (fs_names fs S)" using nd by (auto simp: dot_or_snapshots_def)
    then have ok: "name_ok n" and ex: "fs_at fs (S @ [n]) \<noteq> None"
      using fs_names_ok [OF assms(2)] unfolding fs_names_iff by auto
    have at: "fs_at g (S @ n # r) = fs_at fs (S @ n # r)" for r
      using inv by (simp add: clear_inv_def)
    have len: "length s + length n + 1 + plen r < SKILL_PATH_MAX" if "fs_at fs (S @ n # r) \<noteq> None" for r
      using assms(3) that unfolding fits_def by (metis plen_simps(2) add.assoc)
    have l1: "length s + length n + 1 < SKILL_PATH_MAX" using len [of "[]"] ex by simp
    note ch = plain_child [OF assms(1) ok l1]
    have "\<exists>g1 c. ?act n g = (g1, c) \<and> removed_in (S @ [n]) g g1
      \<and> (c \<longrightarrow> gone (S @ [n]) g1) \<and> (no_faults env \<and> open_enough fds g (S @ [n]) \<longrightarrow> c)"
    proof (rule remove_tree_result)
      show "plain (child_path s n) (S @ [n])" by (rule ch(2))
      show "fs_wf g" using inv by (simp add: clear_inv_def kept_places_def)
      show "fits g (child_path s n) (S @ [n])" unfolding fits_def using len at ch(1) by simp
      show "fs_at g (S @ [n]) \<noteq> None" using at [of "[]"] ex by simp
    qed simp
    moreover have "open_enough fds g (S @ [n])" if "SKILL_PATH_MAX \<le> fds"
      unfolding open_enough_def
    proof (intro allI impI)
      fix r assume "fs_at g ((S @ [n]) @ r) \<noteq> None"
      then have "fs_at fs (S @ (n # r)) \<noteq> None" using at [of r] by simp
      from fits_depth [OF assms(3) this] that show "length r < fds" by simp
    qed
    ultimately obtain g1 c where g1: "?act n g = (g1, c)" "removed_in (S @ [n]) g g1"
      "c \<longrightarrow> gone (S @ [n]) g1" "?good \<longrightarrow> c" by blast
    from clear_inv_step [OF inv g1(2,3,4) nr nd] g1(1)
    show "\<exists>g1 c. ?act n g = (g1, c) \<and> clear_inv ?good S fs ?ents rest g1 (b \<and> c)" by blast
  qed
  then obtain fs2 b where loop: "each_entry dot_or_snapshots ?act ?ents (fs, True) = (fs2, b)"
    and inv: "clear_inv ?good S fs ?ents [] fs2 b" by blast
  have "gone (S @ [n]) fs2" if "b" "n \<noteq> ''.snapshots''" for n
  proof (cases "n \<in> set ?ents \<and> \<not> dot_or_snapshots n")
    case True
    with inv that show ?thesis by (auto simp: clear_inv_def)
  next
    case False
    show ?thesis
    proof (cases "name_ok n")
      case True
      then have "fs_at fs (S @ [n]) = None"
        using False that(2) by (auto simp: dot_or_snapshots_def fs_names_iff name_ok_def)
      then have "fs_at fs ((S @ [n]) @ r) = None" for r
        using fs_no_child [OF assms(2), of "S @ [n]" r] by (cases "r = []") auto
      with inv show ?thesis unfolding gone_def clear_inv_def by metis
    next
      case bad: False
      have "fs_wf fs2" using inv by (simp add: clear_inv_def kept_places_def)
      from gone_not_ok [OF this bad] show ?thesis .
    qed
  qed
  with loop inv show ?thesis unfolding clear_inv_def by blast
qed

section \<open>The rollback as a whole\<close>

text \<open>Making a directory that is there changes nothing.\<close>

lemma mkdirs_local_there:
  assumes "\<And>d. d \<in> set ds \<Longrightarrow> \<exists>q. locate fs d = Inr q \<and> is_dir fs q"
  shows "\<exists>m. mkdirs_local env fs ds = (fs, m) \<and> (no_faults env \<longrightarrow> m)"
  using assms
proof (induction ds)
  case (Cons d ds)
  then obtain q where q: "locate fs d = Inr q" "is_dir fs q" by auto
  obtain m where m: "mkdirs_local env fs ds = (fs, m)" "no_faults env \<longrightarrow> m"
    using Cons by auto
  have "c_mkdir env fs d = Inl EEXIST \<or> (c_mkdir env fs d = Inl EIO \<and> \<not> no_faults env)"
    using q by (auto simp: c_mkdir_def sys_path_def)
  then show ?case using m by (auto simp: mkdir_or_exists_def)
qed (simp add: exI [of _ True])

lemma plain_cut:
  assumes "plain s q" "fs_wf fs" "is_dir fs q" "0 < i" "i < length s" "s ! i = CHR ''/''"
  shows "\<exists>x. locate fs (take i s) = Inr x \<and> is_dir fs x"
proof -
  have s: "s = take i s @ CHR ''/'' # drop (Suc i) s" using assms(5,6) id_take_nth_drop by metis
  define x where "x = path_parts (take i s)"
  have q: "q = x @ path_parts (drop (Suc i) s)"
    using assms(1) path_parts_append [of "take i s" "drop (Suc i) s"] s by (simp add: plain_def x_def)
  have "is_dir fs x" using assms(2,3) fs_wf_prefix [of fs x "path_parts (drop (Suc i) s)"] unfolding q
    by (cases "path_parts (drop (Suc i) s) = []") auto
  moreover have "plain (take i s) x"
    using assms(1,4,5) q by (auto simp: plain_def x_def cstr_def dest: in_set_takeD)
  ultimately show ?thesis using plain_locate_at [OF _ assms(2)] by auto
qed

lemma mkdir_p_local_there:
  assumes "plain s q" "fs_wf fs" "is_dir fs q" "length s < SKILL_PATH_MAX"
  shows "\<exists>m. mkdir_p_local env fs s = (fs, m) \<and> (no_faults env \<longrightarrow> m)"
proof -
  have s: "s \<noteq> []" "cstr s" "c_at s 0 \<noteq> nul" using assms(1) by (auto simp: plain_def c_at_0)
  have "\<exists>x. locate fs d = Inr x \<and> is_dir fs x" if "d \<in> set (local_cuts s @ [s])" for d
  proof (cases "d = s")
    case True
    then show ?thesis using plain_locate_at [OF assms(1,2)] assms(3) by auto
  next
    case False
    with that show ?thesis using plain_cut [OF assms(1-3)] by (auto simp: local_cuts_def)
  qed
  then have "\<exists>m. mkdirs_local env fs (local_cuts s @ [s]) = (fs, m) \<and> (no_faults env \<longrightarrow> m)"
    by (rule mkdirs_local_there)
  then show ?thesis using s assms(4) by (simp add: mkdir_p_local_def)
qed

text \<open>
  What a rollback starts from: a root without \<open>..\<close>, the snapshot a directory below the
  skills directory, and paths that all fit the buffer.
\<close>

abbreviation snapshot_place :: "string \<Rightarrow> string \<Rightarrow> path" where
  "snapshot_place root sid \<equiv> skills_place root @ [''.snapshots'', sid]"

definition rollback_ready :: "fs \<Rightarrow> string \<Rightarrow> string \<Rightarrow> bool" where
  "rollback_ready fs root sid \<longleftrightarrow> root \<noteq> [] \<and> cstr root \<and> ''..'' \<notin> set (skills_place root)
     \<and> snapshot_id_ok (Some sid) \<and> fs_wf fs
     \<and> fits fs (project_skills root) (skills_place root) \<and> is_dir fs (snapshot_place root sid)"

lemma rollback_ready_paths:
  assumes "rollback_ready fs root sid"
  shows "plain (project_skills root) (skills_place root)" "is_dir fs (skills_place root)"
    and "snapshot_dir (project_skills root) sid = project_skills root @ ''/.snapshots/'' @ sid"
    and "plain (snapshot_dir (project_skills root) sid) (snapshot_place root sid)"
    and "length (project_skills root) < SKILL_PATH_MAX"
    and "fits fs (snapshot_dir (project_skills root) sid) (snapshot_place root sid)"
proof -
  let ?s = "project_skills root" and ?S = "skills_place root"
  have h: "root \<noteq> []" "cstr root" "''..'' \<notin> set ?S" "snapshot_id_ok (Some sid)" "fs_wf fs" "fits fs ?s ?S"
    "is_dir fs (snapshot_place root sid)" using assms by (auto simp: rollback_ready_def)
  have "?s \<noteq> []" using h(1) by (simp add: project_skills_def c_buf_def SKILL_PATH_MAX_def)
  moreover have "cstr ?s" using h(2) cstr_c_buf by (simp add: project_skills_def)
  ultimately show p: "plain ?s ?S" using h(3) by (simp add: plain_def)
  show "is_dir fs ?S" using fs_wf_prefix [OF h(5), of ?S "[''.snapshots'', sid]"] h(7) by simp
  have l: "length ?s + plen [''.snapshots'', sid] < SKILL_PATH_MAX"
    using h(6,7) unfolding fits_def by (metis option.distinct(1))
  then show "length ?s < SKILL_PATH_MAX" by simp
  from l show sd: "snapshot_dir ?s sid = ?s @ ''/.snapshots/'' @ sid" by (simp add: snapshot_dir_def)
  have sid: "name_ok sid" using h(7) fs_wf_names [OF h(5), of "snapshot_place root sid" sid] by simp
  then have "path_parts (''.snapshots/'' @ sid) = [''.snapshots'', sid]"
    using path_parts_append [of "''.snapshots''" sid] by (auto simp: name_ok_def path_parts_single)
  then have "path_parts (?s @ ''/.snapshots/'' @ sid) = snapshot_place root sid"
    using path_parts_append [of ?s "''.snapshots/'' @ sid"] by simp
  then show "plain (snapshot_dir ?s sid) (snapshot_place root sid)"
    using p sid unfolding sd plain_def by (auto simp: name_ok_def cstr_def)
  show "fits fs (snapshot_dir ?s sid) (snapshot_place root sid)"
    unfolding fits_def sd
  proof (intro allI impI)
    fix r assume "fs_at fs (snapshot_place root sid @ r) \<noteq> None"
    then have "fs_at fs (?S @ (''.snapshots'' # sid # r)) \<noteq> None" by simp
    then have "length ?s + plen (''.snapshots'' # sid # r) < SKILL_PATH_MAX"
      using h(6) unfolding fits_def by blast
    then show "length (?s @ ''/.snapshots/'' @ sid) + plen r < SKILL_PATH_MAX" by simp
  qed
qed

lemma opendir_there:
  "locate fs s = Inr q \<Longrightarrow> is_dir fs q \<Longrightarrow>
     c_opendir env fs s = Inr (''.'' # ''..'' # fs_names fs q)
     \<or> (\<exists>e. c_opendir env fs s = Inl e) \<and> \<not> no_faults env"
  by (auto simp: c_opendir_def sys_path_def)

lemma stat_there:
  "locate fs s = Inr q \<Longrightarrow> fs_at fs q = Some k \<Longrightarrow>
     c_stat env call fs s = Inr k \<or> (\<exists>e. c_stat env call fs s = Inl e) \<and> \<not> no_faults env"
  by (auto simp: c_stat_def sys_path_def)

lemma restore_result:
  assumes "rollback_ready fs root sid"
    and "kept_places (skills_place root) fs g"
    and "\<And>n. n \<noteq> ''.snapshots'' \<Longrightarrow> gone (skills_place root @ [n]) g"
  defines "s \<equiv> project_skills root" and "d \<equiv> snapshot_dir (project_skills root) sid"
  shows "\<exists>fs2 b. each_entry dot_or_snapshots (\<lambda>n g. copy_tree env fds g (child_path d n) (child_path s n))
       (''.'' # ''..'' # fs_names g (snapshot_place root sid)) (g, True) = (fs2, b)
     \<and> kept_places (skills_place root) fs fs2
     \<and> (b \<longrightarrow> restored (snapshot_place root sid) (skills_place root) fs fs2)
     \<and> (no_faults env \<and> no_special (snapshot_place root sid) fs \<and> SKILL_PATH_MAX < fds \<longrightarrow> b)"
proof -
  note r = rollback_ready_paths [OF assms(1)]
  let ?S = "skills_place root" and ?P = "snapshot_place root sid"
  have out: "\<not> skill_place ?S (?P @ r)" for r by (auto simp: skill_place_def)
  have src: "fs_at g (?P @ r) = fs_at fs (?P @ r)" for r
    using assms(2) out [of r] by (simp add: kept_places_def)
  have "copy_dirs g d s ?P ?S"
    unfolding copy_dirs_def
  proof (intro conjI allI impI)
    show "plain d ?P" "plain s ?S" using r by (simp_all add: d_def s_def)
    show "fs_wf g" "is_dir g ?S" using assms(2) r(2) by (auto simp: kept_places_def)
    show "fits g d ?P" using r(6) src by (simp add: fits_def d_def)
    show "length s \<le> length d" unfolding d_def s_def r(3) by simp
    show "\<not> skill_place ?S (?P @ r)" for r by (rule out)
    show "gone (?S @ [n]) g" if "n \<noteq> ''.snapshots''" for n using that by (rule assms(3))
  qed
  from copy_loop [OF copy_tree_copies this refl] obtain fs2 b where
    "each_entry dot_or_snapshots (\<lambda>n g. copy_tree env fds g (child_path d n) (child_path s n))
       (''.'' # ''..'' # fs_names g ?P) (g, True) = (fs2, b)"
    "kept_places ?S g fs2" "b \<longrightarrow> restored ?P ?S g fs2" "copy_good env (Suc fds) g ?P \<longrightarrow> b" by blast
  moreover have "restored ?P ?S g fs2 \<Longrightarrow> restored ?P ?S fs fs2"
    using src [of "_ # _"] by (simp add: restored_def)
  moreover have "copy_good env (Suc fds) g ?P"
    if "no_faults env \<and> no_special ?P fs \<and> SKILL_PATH_MAX < fds"
    unfolding copy_good_def
  proof (intro conjI allI impI)
    show "no_special ?P g" using src that by (simp add: no_special_def)
    fix t assume "fs_at g (?P @ t) \<noteq> None"
    then have "fs_at fs (?P @ t) \<noteq> None" using src by simp
    from fits_depth [OF r(6) this] that show "length t + 1 < Suc fds" by simp
  qed (use that in simp)
  ultimately show ?thesis using kept_places_trans [OF assms(2)] by blast
qed

text \<open>
  A rollback of a ready snapshot keeps everything but the current skills, and on success
  leaves the snapshot's entries in their place; without faults and special files, and with a
  file to open for every character of a path, it succeeds.
\<close>

definition rolled_back :: "env \<Rightarrow> nat \<Rightarrow> fs \<Rightarrow> string \<Rightarrow> string \<Rightarrow> fs \<times> (string + unit) \<Rightarrow> bool" where
  "rolled_back env fds fs root sid r \<longleftrightarrow> kept_places (skills_place root) fs (fst r)
     \<and> (snd r = Inr () \<longrightarrow> restored (snapshot_place root sid) (skills_place root) fs (fst r))
     \<and> (no_faults env \<and> no_special (snapshot_place root sid) fs \<and> SKILL_PATH_MAX + 2 \<le> fds \<longrightarrow> snd r = Inr ())"

lemma rolled_back_failed:
  "kept_places (skills_place root) fs fs' \<Longrightarrow> \<not> (no_faults env \<and> SKILL_PATH_MAX + 2 \<le> fds)
   \<Longrightarrow> rolled_back env fds fs root sid (fs', Inl msg)"
  by (auto simp: rolled_back_def)

lemma rollback_result:
  assumes "rollback_ready fs root sid"
  shows "rolled_back env fds fs root sid (skill_rollback_snapshot env fds fs (Some root) (Some sid))"
proof -
  let ?s = "project_skills root" and ?S = "skills_place root" and ?P = "snapshot_place root sid"
  let ?d = "snapshot_dir ?s sid" and ?r = "skill_rollback_snapshot env fds fs (Some root) (Some sid)"
  let ?good = "no_faults env \<and> SKILL_PATH_MAX + 2 \<le> fds"
  note r = rollback_ready_paths [OF assms]
  have h: "given (Some root)" "snapshot_id_ok (Some sid)" "fs_wf fs" "fits fs ?s ?S" "is_dir fs ?P"
    using assms by (auto simp: rollback_ready_def given_def c_at_0)
  note kr = kept_places_refl [OF h(3), of ?S]
  have ld: "locate fs ?d = Inr ?P" by (rule plain_locate_at [OF r(4) h(3)]) (use h(5) in simp)
  have ls: "locate fs ?s = Inr ?S" by (rule plain_locate_at [OF r(1) h(3)]) (use r(2) in simp)
  obtain m where m: "mkdir_p_local env fs ?s = (fs, m)" "no_faults env \<longrightarrow> m"
    using mkdir_p_local_there [OF r(1) h(3) r(2) r(5)] by blast
  consider (nostat) e where "c_stat env Lstat fs ?d = Inl e" "\<not> no_faults env"
    | (nomkdir) "c_stat env Lstat fs ?d = Inr Dir" "\<not> m" "\<not> no_faults env"
    | (noopen) e where "c_stat env Lstat fs ?d = Inr Dir" "m"
        "(if fds = 0 then Inl EIO else c_opendir env fs ?s) = Inl e" "\<not> ?good"
    | (ok) "c_stat env Lstat fs ?d = Inr Dir" "m" "fds \<noteq> 0" "c_opendir env fs ?s = Inr (''.'' # ''..'' # fs_names fs ?S)"
    using stat_there [OF ld h(5), of env Lstat] m(2) opendir_there [OF ls r(2), of env] by (cases "fds = 0") auto
  then show ?thesis
  proof cases
    case nostat
    then have "?r = (fs, Inl ''skill snapshot not found'')"
      using h by (simp add: skill_rollback_snapshot_def)
    with rolled_back_failed [OF kr] nostat(2) show ?thesis by simp
  next
    case nomkdir
    then have "?r = (fs, Inl ''failed to prepare skills directory'')"
      using h m by (simp add: skill_rollback_snapshot_def S_ISDIR_def)
    with rolled_back_failed [OF kr] nomkdir(3) show ?thesis by simp
  next
    case noopen
    then have "?r = (fs, Inl ''failed to read skills directory'')"
      using h m by (simp add: skill_rollback_snapshot_def S_ISDIR_def)
    with rolled_back_failed [OF kr noopen(4)] show ?thesis by simp
  next
    case ok
    obtain fs2 b where c: "each_entry dot_or_snapshots (\<lambda>n g. remove_tree env (fds - 1) g (child_path ?s n))
       (''.'' # ''..'' # fs_names fs ?S) (fs, True) = (fs2, b)" "kept_places ?S fs fs2"
      "b \<longrightarrow> (\<forall>n. n \<noteq> ''.snapshots'' \<longrightarrow> gone (?S @ [n]) fs2)" "no_faults env \<and> SKILL_PATH_MAX \<le> fds - 1 \<longrightarrow> b"
      using clear_result [OF r(1) h(3,4) r(2)] by blast
    have red: "?r = (if \<not> b then (fs2, Inl ''failed to clear current skills'')
      else (case c_opendir env fs2 ?d of
         Inl e \<Rightarrow> (fs2, Inl ''failed to read skill snapshot'')
       | Inr sents \<Rightarrow>
           (case each_entry dot_or_snapshots
                   (\<lambda>n fs. copy_tree env (fds - 1) fs (child_path ?d n) (child_path ?s n)) sents (fs2, True) of
              (fs3, ok) \<Rightarrow> (fs3, if ok then Inr () else Inl ''failed to restore skill snapshot''))))"
      using h(1,2) m(1) ok c(1)
      by (simp add: skill_rollback_snapshot_def S_ISDIR_def Let_def del: each_entry.simps)
    have P2: "is_dir fs2 ?P" and wf2: "fs_wf fs2"
      using c(2) h(5) by (auto simp: kept_places_def skill_place_def)
    have ld2: "locate fs2 ?d = Inr ?P" by (rule plain_locate_at [OF r(4) wf2]) (use P2 in simp)
    show ?thesis
    proof (cases b)
      case False
      then have "\<not> ?good" using c(4) by auto
      then show ?thesis using False rolled_back_failed [OF c(2)] unfolding red by simp
    next
      case True
      then have g: "n \<noteq> ''.snapshots'' \<Longrightarrow> gone (?S @ [n]) fs2" for n using c(3) by blast
      from restore_result [OF assms c(2) g] obtain fs3 b3 where
        k: "each_entry dot_or_snapshots (\<lambda>n g. copy_tree env (fds - 1) g (child_path ?d n) (child_path ?s n))
          (''.'' # ''..'' # fs_names fs2 ?P) (fs2, True) = (fs3, b3)"
        "kept_places ?S fs fs3" "b3 \<longrightarrow> restored ?P ?S fs fs3"
        "no_faults env \<and> no_special ?P fs \<and> SKILL_PATH_MAX < fds - 1 \<longrightarrow> b3"
        by blast
      from opendir_there [OF ld2 P2, of env] show ?thesis
      proof (elim disjE conjE exE)
        assume "c_opendir env fs2 ?d = Inr (''.'' # ''..'' # fs_names fs2 ?P)"
        then have "?r = (fs3, if b3 then Inr () else Inl ''failed to restore skill snapshot'')"
          using True k(1) unfolding red by (simp del: each_entry.simps)
        then show ?thesis using k(2-4) by (auto simp: rolled_back_def)
      next
        fix e assume "c_opendir env fs2 ?d = Inl e" "\<not> no_faults env"
        then show ?thesis using True rolled_back_failed [OF c(2)] unfolding red by simp
      qed
    qed
  qed
qed

section \<open>Paths at the limit of the buffer\<close>

text \<open>
  A path of 511 bytes cannot be extended in a buffer of 512: the path of every child is the
  path itself, so removing a directory of that path that has an entry calls itself again, until
  no more directories open; then every level reports a failure, and nothing has been removed.
\<close>

lemma child_path_full: "length path = 511 \<Longrightarrow> child_path path n = path"
  by (simp add: child_path_def c_buf_def SKILL_PATH_MAX_def)

lemma each_entry_stuck:
  assumes "\<And>n. act n fs = (fs, False)"
  shows "fst (each_entry skip act ents (fs, b)) = fs"
    and "n \<in> set ents \<Longrightarrow> \<not> skip n \<Longrightarrow> \<not> snd (each_entry skip act ents (fs, b))"
proof -
  have f: "fst (each_entry skip act ents (fs, b)) = fs \<and> (\<not> b \<longrightarrow> \<not> snd (each_entry skip act ents (fs, b)))"
    for ents b by (induction ents arbitrary: b) (simp_all add: assms)
  show "fst (each_entry skip act ents (fs, b)) = fs" using f by blast
  show "n \<in> set ents \<Longrightarrow> \<not> skip n \<Longrightarrow> \<not> snd (each_entry skip act ents (fs, b))"
  proof (induction ents arbitrary: b)
    case (Cons m ents)
    then show ?case using f by (cases "skip m") (auto simp: assms)
  qed simp
qed

lemma remove_tree_stuck:
  assumes "length path = 511" "locate fs path = Inr q" "is_dir fs q" "fs_names fs q \<noteq> []" "fs_wf fs"
  shows "remove_tree env fds fs path = (fs, False)"
proof (cases "c_stat env Lstat fs path = Inr Dir")
  case False
  then have "\<exists>e. c_stat env Lstat fs path = Inl e \<and> e \<noteq> ENOENT"
    using assms(2,3) by (cases "fault env Lstat path") (simp_all add: c_stat_def sys_path_def)
  then show ?thesis by (auto simp: remove_tree_leaf)
next
  case True
  obtain n ns where ns: "fs_names fs q = n # ns" using assms(4) by (cases "fs_names fs q") auto
  have "name_ok n" using fs_names_ok [OF assms(5), of n q] ns by simp
  then have nd: "\<not> dot_entry n" by (auto simp: name_ok_def dot_entry_def)
  show ?thesis
  proof (induction fds)
    case 0
    show ?case using True by (simp add: S_ISDIR_def)
  next
    case (Suc fds)
    let ?act = "\<lambda>n fs. remove_tree env fds fs (child_path path n)"
    have act: "?act m fs = (fs, False)" for m using Suc child_path_full [OF assms(1)] by simp
    show ?case
    proof (cases "c_opendir env fs path")
      case (Inr ents)
      then have "n \<in> set ents" using opendir_there [OF assms(2,3), of env] ns by auto
      with each_entry_stuck [of ?act, OF act] nd
      have "each_entry dot_entry ?act ents (fs, True) = (fs, False)" by (simp add: prod_eq_iff)
      then show ?thesis using True Inr by (simp add: S_ISDIR_def)
    qed (use True in \<open>simp add: S_ISDIR_def\<close>)
  qed
qed

end
