(* ===== verification/Skill_Works.thy ===== *)
theory Skill_Works
  imports Skill_Managed
begin

text \<open>
  The operations of \<open>Skill_Manage\<close> succeed: in a system without failures, with room for the files
  they write and a JSON library that prints, a change of telemetry, an edit, a patch and the
  writing of a support file all report success.
\<close>


section \<open>Recording a change of a project skill\<close>

definition telemetry_room :: "env \<Rightarrow> fs \<Rightarrow> string \<Rightarrow> bool" where
  "telemetry_room env fs r \<longleftrightarrow> list_all (\<lambda>m. file_or_free fs (skills_place r @ [m]))
     [''.usage.json'', ''.usage.json.lock'', ''.usage.json.tmp.'' @ show_nat (getpid env)]"

definition json_prints :: "'j cjson \<Rightarrow> bool" where
  "json_prints J \<longleftrightarrow> cjson_ok J \<and> cj_create_object J \<noteq> None \<and> (\<forall>ob. cj_print J ob \<noteq> None)"

lemma flat_usage_path:
  assumes "project_ready env fs0 r" "skill_name_is_valid (Some n)" "no_faults env" "fs_wf fs"
    and "no_manifest fs r n" "fs_at fs (skill_file_place r n) = Some (Reg c)"
  shows "skill_usage_path_source env fs (Some r) (Some n) SKILL_PATH_MAX
    = Some (project_skills r @ CHR ''/'' # ''.usage.json'', SKILL_SOURCE_PROJECT)"
proof -
  have "CHR ''/'' \<notin> set (n @ ''.md'')" using md_names(1) [OF assms(2)] by (simp add: name_ok_def)
  then have "c_strrchr (skill_file r n) (CHR ''/'') = Some (length (project_skills r))"
    unfolding skill_file_def by (rule c_strrchr_append)
  then show ?thesis
    using flat_resolved(1) [OF assms] project_skills_whole(2) [OF assms(1)]
    by (simp add: skill_usage_path_source_def skill_file_def SKILL_PATH_MAX_def)
qed

lemma mutation_succeeds:
  assumes "project_ready env fs0 r" "skill_name_is_valid (Some n)" "no_faults env" "fs_wf fs"
    and "no_manifest fs r n" "fs_at fs (skill_file_place r n) = Some (Reg c)"
    and "telemetry_room env fs r" "json_prints J"
  shows "snd (skill_record_mutation J env fs (Some r) (Some n) mu)"
proof -
  let ?path = "project_skills r @ CHR ''/'' # ''.usage.json''"
  note w = project_skills_whole [OF assms(1)] and p = flat_usage_path [OF assms(1-6)]
  have pl: "plain ?path (skills_place r @ [''.usage.json''])" by (rule plain_sub [OF w(3) sidecar_name_ok(1)])
  have d: "is_dir fs (skills_place r)"
    using assms(4,6) unfolding skill_file_place_def fs_wf_at by (metis option.distinct(1))
  have l: "locate fs ?path = Inr (skills_place r @ [''.usage.json''])"
    using plain_locate_dir [OF pl assms(4)] d by simp
  have "sidecar_writable env fs ?path"
    unfolding sidecar_writable_def writable_def
    using l d assms(7) by (auto simp: telemetry_room_def file_or_free_iff)
  then have "snd (update_sidecar J env fs ?path n fresh change)" for fresh change
    using assms(3,4,8) usage_path(1) [OF p project_ready_bases(1) [OF assms(1)] assms(2)]
      project_ready_bases(2) [OF assms(1)]
    by (intro update_sidecar_succeeds) (auto simp: json_prints_def)
  with p show ?thesis by (simp add: skill_record_mutation_def)
qed

section \<open>Editing and patching succeed\<close>

definition edit_room :: "env \<Rightarrow> fs \<Rightarrow> string \<Rightarrow> string \<Rightarrow> bool" where
  "edit_room env fs r n \<longleftrightarrow> no_manifest fs r n \<and> telemetry_room env fs r
     \<and> file_or_free fs (skills_place r @ [tmp_name env (n @ ''.md'')])"

lemma room_managed: "telemetry_room env fs r \<Longrightarrow> (\<And>m. sidecar_name m \<Longrightarrow> fs_at g (skills_place r @ [m]) = fs_at fs (skills_place r @ [m]))
    \<Longrightarrow> telemetry_room env g r"
  by (simp add: telemetry_room_def file_or_free_def sidecar_name_def)

lemma edit_succeeds:
  assumes "project_ready env fs r" "skill_name_is_valid (Some n)" "no_faults env"
    and "fs_at fs (skill_file_place r n) = Some (Reg old)" "edit_room env fs r n" "json_prints J"
    and "lint_accepts n c" "c \<noteq> []" "length c \<le> SKILL_MAX_SIZE"
  shows "snd (skill_manage_edit J env fs (Some r) (Some n) (Some c) author) = Inr ()"
proof -
  note w = project_skills_whole [OF assms(1)] and f = project_skill_file [OF assms(1,2)]
  have wf: "fs_wf fs" using assms(1) by (simp add: project_ready_def)
  have d: "is_dir fs (skills_place r)"
    using wf assms(4) unfolding skill_file_place_def fs_wf_at by (metis option.distinct(1))
  have acc: "c_access env fs (skill_file r n)"
    using plain_locate_at [OF f(2) wf] assms(3,4) by (simp add: c_access_def c_stat_def sys_path_def)
  obtain h k where h: "skill_write_text_file env fs (project_skills r @ CHR ''/'' # (n @ ''.md'')) (Some c) SKILL_MAX_SIZE = (h, k)"
    by fastforce
  have len: "length (project_skills r @ CHR ''/'' # n @ ''.md'') < SKILL_PATH_MAX"
    using f(3) by (simp add: skill_file_def SKILL_PATH_MAX_def)
  have "snd (skill_write_text_file env fs (project_skills r @ CHR ''/'' # (n @ ''.md'')) (Some c) SKILL_MAX_SIZE)"
    using assms(4,5,8,9) d
    by (intro write_text_ok [OF w(3) md_names(1) [OF assms(2)] len project_ready_bases(2) [OF assms(1)] wf assms(3) d])
      (auto simp: writable_def skill_file_place_def edit_room_def file_or_free_iff)
  with h have k: k by simp
  note t = write_text_result [OF w(3) md_names(1) [OF assms(2)] len project_ready_bases(2) [OF assms(1)] wf h]
  have other: "fs_at h (skills_place r @ [m]) = fs_at fs (skills_place r @ [m])" if "sidecar_name m" for m
  proof (rule t(3))
    obtain ch cs where n: "n = ch # cs" "ch \<noteq> CHR ''.''"
      using skill_name_valid_chars(1,7) [OF assms(2)] by (cases n) auto
    then show "skills_place r @ [m] \<noteq> skills_place r @ [n @ ''.md'']"
      "skills_place r @ [m] \<noteq> skills_place r @ [tmp_name env (n @ ''.md'')]"
      using that by (auto simp: sidecar_name_def)
  qed
  have man: "no_manifest h r n"
    using write_skill_managed(1) [OF assms(1,2) wf h [folded skill_file_def]] assms(5)
    by (simp add: managed_only_def edit_room_def)
  have at: "fs_at h (skill_file_place r n) = Some (Reg c)" using t(4) k by (simp add: skill_file_place_def)
  have "telemetry_room env h r" using room_managed other assms(5) by (auto simp: edit_room_def)
  from mutation_succeeds [OF assms(1-3) t(1) man at this assms(6)]
  have "snd (skill_record_mutation J env h (Some r) (Some n) mu)" for mu .
  then show ?thesis
    using f(1) acc h k assms(7) skill_lint_content_accepts [of n c 512]
    by (simp add: skill_manage_edit_def Let_def skill_file_def mutation_outcome_def)
qed


lemma patch_succeeds:
  assumes "project_ready env fs r" "skill_name_is_valid (Some n)" "no_faults env"
    and "fs_at fs (skill_file_place r n) = Some (Reg tx)" "tx \<noteq> []" "cstr tx" "length tx \<le> SKILL_MAX_SIZE"
    and "edit_room env fs r n" "json_prints J" "\<And>ps. dstr_steal env ps = Some (concat ps)"
    and "old \<noteq> []" "cstr old" "sublist old tx" "c = concat (snd (patch_loop everywhere old new tx 0))"
    and "lint_accepts n c" "c \<noteq> []" "length c \<le> SKILL_MAX_SIZE"
  shows "snd (skill_manage_patch J env fs (Some r) (Some n) (Some old) (Some new) everywhere author) = Inr ()"
proof -
  have wf: "fs_wf fs" using assms(1) by (simp add: project_ready_def)
  have "no_manifest fs r n" using assms(8) by (simp add: edit_room_def)
  from flat_resolved(2) [OF assms(1-3) wf this assms(4,5)]
  have l: "skill_load env fs (Some r) (Some n) = Some tx"
    using assms(6,7) by simp
  obtain hits ps where ps: "patch_loop everywhere old new tx 0 = (hits, ps)" by fastforce
  then have "hits \<noteq> 0" using patch_loop_none [OF assms(11), of everywhere new tx] assms(13) by simp
  with ps l assms(10-12,14) edit_succeeds [OF assms(1-4,8,9,15-17)] show ?thesis
    by (simp add: skill_manage_patch_def given_Some)
qed

section \<open>Writing a support file\<close>

definition support_room :: "env \<Rightarrow> fs \<Rightarrow> string \<Rightarrow> string \<Rightarrow> string \<Rightarrow> bool" where
  "support_room env fs r z m \<longleftrightarrow>
     list_all (\<lambda>x. fs_at fs x = None \<or> is_dir fs x) (prefixes (skills_place r @ path_parts z))
     \<and> file_or_free fs (skills_place r @ path_parts z @ [m])
     \<and> file_or_free fs (skills_place r @ path_parts z @ [tmp_name env m])"

lemma support_first:
  assumes "skill_support_path_ok (Some p)" "p = z @ CHR ''/'' # m" "CHR ''/'' \<notin> set m"
  shows "\<exists>d y. d \<in> set support_dirs \<and> path_parts z = d # y"
proof -
  from assms(1) obtain d y where d: "d \<in> set support_dirs" "p = d @ CHR ''/'' # y"
    by (cases rule: skill_support_path_cases) (simp add: support_dirs_def)
  have nd: "CHR ''/'' \<notin> set d" "path_parts d = [d]"
    using d(1) by (auto simp: support_dirs_def intro!: path_parts_single)
  from d(2) assms(2) have "d @ CHR ''/'' # y = z @ CHR ''/'' # m" by simp
  then have "z = d \<or> (\<exists>us. z = d @ CHR ''/'' # us)"
    by (cases rule: append_cases) (use nd(1) in \<open>auto simp: Cons_eq_append_conv append_eq_Cons_conv\<close>)
  with d(1) nd(2) show ?thesis by auto
qed

lemma support_succeeds:
  assumes "project_ready env fs r" "skill_name_is_valid (Some n)" "no_faults env"
    and "fs_at fs (skill_file_place r n) = Some (Reg old)" "no_manifest fs r n" "telemetry_room env fs r"
    and "json_prints J" "skill_support_path_ok (Some p)" "p = z @ CHR ''/'' # m" "name_ok m" "cstr p"
    and "length (project_skills r) + length p + 1 < SKILL_PATH_MAX" "support_room env fs r z m"
    and "c \<noteq> []" "length c \<le> SKILL_SUPPORT_MAX_SIZE" "n \<notin> set support_dirs"
  shows "\<exists>fs'. skill_manage_write_file J env fs (Some r) (Some n) (Some p) (Some c) author = (fs', Inr ())
    \<and> skill_resolve_path env fs' (Some r) (Some n) SKILL_PATH_MAX = Some (skill_file r n, SKILL_SOURCE_PROJECT)"
proof -
  note w = project_skills_whole [OF assms(1)] and f = project_skill_file [OF assms(1,2)]
  note b = project_ready_bases [OF assms(1)]
  let ?dir = "project_skills r @ CHR ''/'' # z" and ?Q = "skills_place r @ path_parts z"
  have wf: "fs_wf fs" using assms(1) by (simp add: project_ready_def)
  have sp: "support_path r p = ?dir @ CHR ''/'' # m"
    using assms(12) w(1) by (simp add: support_path_def assms(9) SKILL_PATH_MAX_def)
  have nz: "''..'' \<notin> set (path_parts z)"
    using assms(8,9) no_dotdot_parts [of z]
    by (cases rule: skill_support_path_cases) (auto simp: sublist_append)
  have pz: "plain ?dir ?Q" using w(3) nz assms(9,11) by (auto simp: plain_def cstr_def)
  have len: "length (?dir @ CHR ''/'' # m) < SKILL_PATH_MAX" using assms(9,12) by simp
  have acc: "c_access env fs (skill_file r n)"
    using plain_locate_at [OF f(2) wf] assms(3,4) by (simp add: c_access_def c_stat_def sys_path_def)
  have cut: "c_strrchr (?dir @ CHR ''/'' # m) (CHR ''/'') = Some (length ?dir)"
    by (rule c_strrchr_append) (use assms(10) in \<open>simp add: name_ok_def\<close>)
  obtain g where g: "skill_mkdir_p env fs ?dir = (g, True)" "fs_at g = dir_added ?Q (fs_at fs)"
    using mkdir_p_ok [OF assms(3) wf, of ?dir] pz len assms(13)
    by (auto simp: skill_mkdir_p_def plain_def support_room_def list_all_iff)
  have wg: "fs_wf g" using skill_mkdir_p_result(3) [OF g(1) wf] pz by (simp add: plain_def)
  have dg: "is_dir g ?Q" by (simp add: g(2) dir_added_def)
  obtain h k where h: "skill_write_text_file env g (?dir @ CHR ''/'' # m) (Some c) SKILL_SUPPORT_MAX_SIZE = (h, k)"
    by fastforce
  have at: "fs_at g (?Q @ [x]) = fs_at fs (?Q @ [x])" for x
    by (auto simp: g(2) dir_added_def dest: prefix_length_le)
  have "snd (skill_write_text_file env g (?dir @ CHR ''/'' # m) (Some c) SKILL_SUPPORT_MAX_SIZE)"
    using assms(13-15) dg at
    by (intro write_text_ok [OF pz assms(10) len b(2) wg assms(3) dg])
      (auto simp: writable_def support_room_def file_or_free_iff butlast_append)
  with h have k: k by simp
  note t = write_text_result [OF pz assms(10) len b(2) wg h]
  obtain d y where d: "d \<in> set support_dirs" "path_parts z = d # y"
    using support_first [OF assms(8) assms(9)] assms(10) by (auto simp: name_ok_def)
  have S: "is_dir fs (skills_place r)"
    using wf assms(4) unfolding skill_file_place_def fs_wf_at by (metis option.distinct(1))
  have out: "fs_at h x = fs_at fs x" if nx: "\<not> prefix (skills_place r @ [d]) x" for x
  proof -
    have "fs_at h x = fs_at g x" by (rule t(3)) (use nx d(2) in auto)
    also have "\<dots> = fs_at fs x"
    proof (cases "prefix x ?Q")
      case True
      then have "prefix x (skills_place r)" using nx d(2) by (auto simp: prefix_append prefix_Cons)
      then obtain e where "skills_place r = x @ e" by (auto simp: prefix_def)
      with fs_wf_prefix [OF wf, of x e] S True g(2) show ?thesis by (cases "e = []") (simp_all add: dir_added_def)
    qed (simp add: g(2) dir_added_def)
    finally show ?thesis .
  qed
  have dd: "CHR ''.'' \<notin> set d" using d(1) by (auto simp: support_dirs_def)
  have nd: "n @ ''.md'' \<noteq> d" "n \<noteq> d" using dd d(1) assms(16) by auto
  have man: "no_manifest h r n" using out [of "skills_place r @ [n, ''SKILL.md'']"] nd assms(5) by (simp add: no_manifest_def)
  have at: "fs_at h (skill_file_place r n) = Some (Reg old)"
    using out [of "skill_file_place r n"] nd assms(4) by (simp add: skill_file_place_def)
  have "telemetry_room env h r"
  proof (rule room_managed [OF assms(6)])
    fix l assume "sidecar_name l"
    then have "l \<noteq> d" using dd by (auto simp: sidecar_name_def prefix_def)
    then show "fs_at h (skills_place r @ [l]) = fs_at fs (skills_place r @ [l])" using out by simp
  qed
  note ms = mutation_succeeds [OF assms(1-3) t(1) man at this assms(7)]
  let ?mu = "no_mutation\<lparr>actor := author, bump_patch := True, new_state := Some ''active''\<rparr>"
  obtain fs' where u: "skill_record_mutation J env h (Some r) (Some n) ?mu = (fs', True)"
    using ms [of ?mu] by (cases "skill_record_mutation J env h (Some r) (Some n) ?mu") simp
  have "skill_manage_write_file J env fs (Some r) (Some n) (Some p) (Some c) author = (fs', Inr ())"
    using f(1) acc assms(8) sp cut g(1) h k u
    by (simp add: skill_manage_write_file_def Let_def mutation_outcome_def del: append_assoc)
  moreover note mm = mutation_managed [OF assms(1,2) t(1) u]
  have "skill_resolve_path env fs' (Some r) (Some n) SKILL_PATH_MAX = Some (skill_file r n, SKILL_SOURCE_PROJECT)"
    using mm man at by (intro flat_resolved(1) [OF assms(1-3), of fs' old]) (auto simp: managed_only_def)
  ultimately show ?thesis by blast
qed

end
