(* ===== verification/Skill_Example.thy ===== *)
theory Skill_Example
  imports Skill_Pass Skill_Proposals Skill_Restore Skill_Works
begin

text \<open>
  One concrete project, environment and sidecar, with the facts that show it satisfies the
  hypotheses of the properties. The environment has no failures, its JSON library is the
  tree type of \<open>Skill_Json\<close>, and the project \<open>/p\<close> holds one skill, its telemetry and a snapshot,
  or only the skill.
\<close>


section \<open>A project\<close>

definition ex_env :: env where
  "ex_env = \<lparr>fault = (\<lambda>c p. False), written = (\<lambda>p. 0), received = (\<lambda>p. 0), getenv = (\<lambda>v. None), config_default_dir = ''/c'',
     now_utc = (\<lambda>k. ''2026-01-01T00:00:00Z''), getpid = 7, clock = 1767225600, out_of_int = (\<lambda>z. 0), MAX_FILE_SIZE = 100000,
     dstr_steal = (\<lambda>ps. Some (concat ps)), safe_strdup = Some\<rparr>"

definition ex_text :: "string \<Rightarrow> string" where
  "ex_text name = ''---'' @ [nl] @ ''name: '' @ name @ [nl] @ ''description: Use when in need'' @ [nl]
     @ ''---'' @ [nl] @ ''Keep it short.'' @ [nl]"

definition ex_entry :: json where
  "ex_entry = JObj [(''use_count'', JNum 2), (''state'', JStr ''stale'')]"

definition ex_sidecar :: string where
  "ex_sidecar = enc_json (JObj [(''note'', ex_entry)]) @ [nl]"

definition ex_fs :: fs where
  "ex_fs = [([''p''], Dir), ([''p'', ''.aimee''], Dir), ([''p'', ''.aimee'', ''skills''], Dir),
     ([''p'', ''.aimee'', ''skills'', ''note.md''], Reg (ex_text ''note'')),
     ([''p'', ''.aimee'', ''skills'', ''.usage.json''], Reg ex_sidecar),
     ([''p'', ''.aimee'', ''skills'', ''.snapshots''], Dir),
     ([''p'', ''.aimee'', ''skills'', ''.snapshots'', ''s1''], Dir),
     ([''p'', ''.aimee'', ''skills'', ''.snapshots'', ''s1'', ''note.md''], Reg (ex_text ''old''))]"

lemma ex_no_faults [simp]: "no_faults ex_env" "\<not> fault ex_env c p"
  by (simp_all add: no_faults_def ex_env_def)

lemma ex_getpid [simp]: "getpid ex_env = 7"
  by (simp add: ex_env_def)

lemma ex_path: "path_parts ''/p/.aimee/skills'' = [''p'', ''.aimee'', ''skills'']"
  by code_simp

lemma ex_place: "skills_place ''/p'' = [''p'', ''.aimee'', ''skills'']" "project_skills ''/p'' = ''/p/.aimee/skills''"
  by code_simp+

text \<open>Looking entries up without evaluating the contents.\<close>

lemma ex_at: "fs_at ex_fs x = (if x = [] then Some Dir else map_of ex_fs x)"
  by (simp add: fs_at_def)

lemma ex_wf: "fs_wf ex_fs"
  by (simp add: fs_wf_def ex_fs_def fs_at_def name_ok_def cstr_def)

lemma ex_ready: "project_ready ex_env ex_fs ''/p''"
proof -
  have "bases_fit ex_env (Some ''/p'')"
    by (simp add: bases_fit_def base_fits_def ex_place user_skills_def skill_bundled_dir_def ex_env_def
        given_def c_buf_def SKILL_PATH_MAX_def cstr_def show_nat.simps)
  with ex_wf show ?thesis by (simp add: project_ready_def ex_place ex_path cstr_def)
qed

lemma ex_valid: "skill_name_is_valid (Some ''note'')" "skill_name_is_valid (Some ''fresh'')"
  by code_simp+

lemma lower_gy: "c_tolower (CHR ''g'') = CHR ''g''" "c_tolower (CHR ''y'') = CHR ''y''"
  by code_simp+

text \<open>Every pattern has one of two letters; a text without them holds no pattern.\<close>

lemma no_injection:
  assumes "list_all (\<lambda>c. c_tolower c \<noteq> CHR ''g'' \<and> c_tolower c \<noteq> CHR ''y'') body"
  shows "\<not> skill_lint_has_injection_pattern body"
proof
  assume "skill_lint_has_injection_pattern body"
  then obtain pat where pat: "pat \<in> set injection_patterns" "sublist (map c_tolower pat) (map c_tolower body)"
    unfolding skill_lint_has_injection_pattern_iff by blast
  have "list_all (\<lambda>pat. CHR ''g'' \<in> set pat \<or> CHR ''y'' \<in> set pat) injection_patterns" by code_simp
  with pat(1) have "CHR ''g'' \<in> set pat \<or> CHR ''y'' \<in> set pat" by (auto simp: list_all_iff)
  with sublist_map_set [OF pat(2), of "CHR ''g''"] sublist_map_set [OF pat(2), of "CHR ''y''"] assms
  show False unfolding lower_gy list_all_iff image_iff by metis
qed

lemma ex_accepted: "skill_accepted ''fresh'' (ex_text ''fresh'')" "cstr (ex_text ''fresh'')"
proof -
  have "list_all (\<lambda>c. c_tolower c \<noteq> CHR ''g'') (ex_text ''fresh'')" by code_simp
  then have no_g: "CHR ''g'' \<notin> c_tolower ` set (ex_text ''fresh'')"
    by (auto simp: list_all_iff)
  have ig: "c_strcasestr (ex_text ''fresh'') p = None" if "CHR ''g'' \<in> set p" for p
    using nocase_absent [OF that] no_g lower_gy by simp
  have "\<not> poison_lines (ex_text ''fresh'')" by code_simp
  then have "skill_body_poison_check (Some (ex_text ''fresh'')) = None"
    by (simp add: skill_body_poison_check_def ig)
  moreover have "lint_accepts ''fresh'' (ex_text ''fresh'')"
  proof -
    have h: "fm_header (ex_text ''fresh'') = Some (4, 41)" by code_simp
    let ?h = "take 41 (drop 4 (ex_text ''fresh''))"
    have b: "lint_body_of (ex_text ''fresh'') (4 + 41) = ''Keep it short.'' @ [nl]" by code_simp
    have "fm_opens (ex_text ''fresh'')" "\<not> skill_name_is_session_artifact (Some ''fresh'')"
      "skill_lint_line_value ?h ''name'' 64 = (True, ''fresh'')"
      "skill_lint_description_is_trigger (snd (skill_lint_line_value ?h ''description'' 512))"
      "\<not> skill_lint_has_at_link (''Keep it short.'' @ [nl])"
      "skill_lint_word_count (''Keep it short.'' @ [nl]) \<le> 1200"
      by code_simp+
    moreover have "list_all (\<lambda>c. c_tolower c \<noteq> CHR ''g'' \<and> c_tolower c \<noteq> CHR ''y'') (''Keep it short.'' @ [nl])"
      by code_simp
    then have "\<not> skill_lint_has_injection_pattern (''Keep it short.'' @ [nl])" by (rule no_injection)
    ultimately show ?thesis
      unfolding lint_accepts_def h option.case prod.case Let_def b using ex_valid(2) by blast
  qed
  ultimately show "skill_accepted ''fresh'' (ex_text ''fresh'')"
    by (simp add: skill_accepted_def ex_text_def SKILL_MAX_SIZE_def)
  show "cstr (ex_text ''fresh'')" by (simp add: ex_text_def cstr_def)
qed

lemma ex_room: "room_for ex_env ex_fs ''/p'' ''fresh''" "no_manifest ex_fs ''/p'' ''fresh''" "no_manifest ex_fs ''/p'' ''note''"
  by (simp_all add: room_for_def ex_place ex_path ex_fs_def fs_at_def skill_file_place_def file_or_free_def no_manifest_def
      show_nat.simps)

lemma ex_note: "fs_at ex_fs (skill_file_place ''/p'' ''note'') = Some (Reg (ex_text ''note''))"
  by (simp add: ex_fs_def fs_at_def skill_file_place_def ex_place ex_path)

section \<open>A snapshot\<close>

lemma fits_entries:
  assumes "length s < SKILL_PATH_MAX"
    and "list_all (\<lambda>(p, k). prefix q p \<longrightarrow> length s + plen (drop (length q) p) < SKILL_PATH_MAX) fs"
  shows "fits fs s q"
proof -
  have "length s + plen r < SKILL_PATH_MAX" if at: "fs_at fs (q @ r) \<noteq> None" for r
  proof (cases "q @ r = []")
    case True
    then show ?thesis using assms(1) by (simp add: plen_def)
  next
    case False
    with at obtain k where "map_of fs (q @ r) = Some k" by (auto simp: fs_at_def)
    then have "(q @ r, k) \<in> set fs" by (rule map_of_SomeD)
    with assms(2) show ?thesis by (fastforce simp: list_all_iff)
  qed
  then show ?thesis by (simp add: fits_def)
qed

lemma no_special_entries: "list_all (\<lambda>(p, k). k \<noteq> Special) fs \<Longrightarrow> no_special q fs"
  by (auto simp: no_special_def fs_at_def list_all_iff dest!: map_of_SomeD split: if_splits)

lemma ex_snapshot: "rollback_ready ex_fs ''/p'' ''s1''" "no_special (snapshot_place ''/p'' ''s1'') ex_fs"
proof -
  have "snapshot_id_ok (Some ''s1'')" by code_simp
  moreover have "fits ex_fs ''/p/.aimee/skills'' [''p'', ''.aimee'', ''skills'']"
    by (rule fits_entries) (simp_all add: ex_fs_def SKILL_PATH_MAX_def plen_def)
  ultimately show "rollback_ready ex_fs ''/p'' ''s1''"
    using ex_wf by (simp add: rollback_ready_def ex_place ex_path cstr_def ex_fs_def fs_at_def)
  show "no_special (snapshot_place ''/p'' ''s1'') ex_fs" by (rule no_special_entries) (simp add: ex_fs_def)
qed

section \<open>Its telemetry\<close>

lemma ex_usage_path: "skill_usage_path_source ex_env ex_fs (Some ''/p'') (Some ''note'') SKILL_PATH_MAX
    = Some (''/p/.aimee/skills/.usage.json'', SKILL_SOURCE_PROJECT)"
proof -
  have "skill_resolve_path ex_env ex_fs (Some ''/p'') (Some ''note'') SKILL_PATH_MAX
      = Some (skill_file ''/p'' ''note'', SKILL_SOURCE_PROJECT)"
    by (rule flat_resolved(1) [OF ex_ready ex_valid(1) ex_no_faults(1) ex_wf ex_room(3) ex_note])
  moreover have "skill_file ''/p'' ''note'' = ''/p/.aimee/skills/note.md''" by code_simp
  ultimately show ?thesis by (simp add: skill_usage_path_source_def SKILL_PATH_MAX_def)
qed

lemma ex_telemetry: "telemetry_ready json_ops ex_env ex_fs (Some ''/p'') ''note'' ''/p/.aimee/skills/.usage.json'' SKILL_SOURCE_PROJECT"
  using ex_usage_path ex_valid ex_wf json_ops_ok project_ready_bases(1) [OF ex_ready]
  by (simp add: telemetry_ready_def)

lemma ex_locate: "locate ex_fs ''/p/.aimee/skills/.usage.json'' = Inr [''p'', ''.aimee'', ''skills'', ''.usage.json'']"
proof -
  have "path_parts ''/p/.aimee/skills/.usage.json'' = [''p'', ''.aimee'', ''skills'', ''.usage.json'']" by code_simp
  then show ?thesis by (simp add: locate_def fs_at_def ex_fs_def)
qed

lemma ex_sidecar_small: "length ex_sidecar \<le> 100000"
  by (simp add: ex_sidecar_def ex_entry_def enc_nat_def enc_rat_def enc_int_def ord_def)

lemma ex_entry_there: "sidecar_entry json_ops ex_env ex_fs ''/p/.aimee/skills/.usage.json'' ''note'' = Some ex_entry"
proof -
  have "c_stat ex_env Fopen_r ex_fs ''/p/.aimee/skills/.usage.json'' = Inr (Reg ex_sidecar)"
    using ex_locate by (simp add: c_stat_def sys_path_def fs_at_def) (simp add: ex_fs_def)
  moreover have "cstr ex_sidecar" using cstr_enc_json by (simp add: ex_sidecar_def del: enc_json.simps)
  ultimately have "skill_read_file ex_env ex_fs ''/p/.aimee/skills/.usage.json'' = Some ex_sidecar"
    using ex_sidecar_small
    by (simp add: skill_read_file_alt c_fread_def) (simp add: ex_env_def)
  moreover have "cj_parse json_ops ex_sidecar = Some (JObj [(''note'', ex_entry)])"
    by (simp add: json_ops_def ex_sidecar_def dec_text_enc del: enc_json.simps)
  ultimately show ?thesis by (simp add: sidecar_entry_def json_ops_def json_get_def ex_entry_def)
qed

lemma ex_entry_ok: "entry_ok json_ops ex_entry"
proof -
  have lower: "map c_tolower ''use_count'' = ''use_count''" "map c_tolower ''state'' = ''state''"
    "map c_tolower ''pinned'' = ''pinned''" by code_simp+
  then have "no_variant json_ops ex_entry ''pinned''"
    by (auto simp: no_variant_def same_key_def json_ops_def json_get_def ex_entry_def)
  then show ?thesis
    by (simp add: entry_ok_def string_or_none_def number_or_none_def string_of_def number_of_def json_ops_def
        json_get_def ex_entry_def)
qed

lemma ex_start: "entry_start json_ops ex_env ex_fs ''/p/.aimee/skills/.usage.json'' ''note'' False"
  using ex_entry_there ex_entry_ok by (simp add: entry_start_def)

lemma ex_writable: "sidecar_writable ex_env ex_fs ''/p/.aimee/skills/.usage.json''"
  unfolding sidecar_writable_def
  by (rule exI [of _ "[''p'', ''.aimee'', ''skills'']"])
    (simp add: ex_locate, simp add: writable_def fs_at_def ex_fs_def show_nat.simps)

section \<open>Updates of the telemetry\<close>

lemma ex_json: "json_prints json_ops"
  using json_ops_ok by (simp add: json_prints_def) (simp add: json_ops_def)

lemma ex_edit_room: "edit_room ex_env ex_fs ''/p'' ''note''" "telemetry_room ex_env ex_fs ''/p''"
  using ex_room(3)
  by (simp_all add: edit_room_def telemetry_room_def ex_place ex_path ex_fs_def fs_at_def file_or_free_def show_nat.simps)

lemma ex_root: "skill_usage_load_root json_ops ex_env ex_fs ''/p/.aimee/skills/.usage.json'' = Some (JObj [(''note'', ex_entry)])"
proof -
  have "c_stat ex_env Fopen_r ex_fs ''/p/.aimee/skills/.usage.json'' = Inr (Reg ex_sidecar)"
    using ex_locate by (simp add: c_stat_def sys_path_def fs_at_def) (simp add: ex_fs_def)
  moreover have "cstr ex_sidecar" using cstr_enc_json by (simp add: ex_sidecar_def del: enc_json.simps)
  ultimately have "skill_read_file ex_env ex_fs ''/p/.aimee/skills/.usage.json'' = Some ex_sidecar"
    using ex_sidecar_small
    by (simp add: skill_read_file_alt c_fread_def) (simp add: ex_env_def)
  moreover have "cj_parse json_ops ex_sidecar = Some (JObj [(''note'', ex_entry)])"
    by (simp add: json_ops_def ex_sidecar_def dec_text_enc del: enc_json.simps)
  ultimately show ?thesis by (simp add: skill_usage_load_root_def is_object_def) (simp add: json_ops_def)
qed

text \<open>An update succeeds, and what it writes is small enough to be read back.\<close>

lemma ex_update:
  assumes "length (enc_json (usage_update json_ops (JObj [(''note'', ex_entry)]) ''note'' fresh change)) < 100000"
  shows "\<exists>fs'. update_sidecar json_ops ex_env ex_fs ''/p/.aimee/skills/.usage.json'' ''note'' fresh change = (fs', True)
    \<and> sidecar_readable ex_env fs' ''/p/.aimee/skills/.usage.json''"
proof -
  let ?path = "''/p/.aimee/skills/.usage.json''"
  have b: "bases_fit ex_env (Some ''/p'')" "pid_fits ex_env" using project_ready_bases [OF ex_ready] by auto
  have sp: "sidecar_path ?path" by (rule usage_path(1) [OF ex_usage_path b(1) ex_valid(1)])
  have "snd (update_sidecar json_ops ex_env ex_fs ?path ''note'' fresh change)"
    using ex_json by (intro update_sidecar_succeeds [OF sp ex_wf b(2) ex_no_faults(1) ex_writable]) (auto simp: json_prints_def)
  then obtain fs' where u: "update_sidecar json_ops ex_env ex_fs ?path ''note'' fresh change = (fs', True)"
    by (cases "update_sidecar json_ops ex_env ex_fs ?path ''note'' fresh change") simp
  note r = update_sidecar_result [OF sp ex_wf b(2) u]
  from r(3) obtain q s where q: "locate ex_fs ?path = Inr q" "fs_at fs' q = Some (Reg (s @ [nl]))"
    "cj_print json_ops (usage_update json_ops (JObj [(''note'', ex_entry)]) ''note'' fresh change) = Some s"
    by (auto simp: ex_root)
  then have "length (s @ [nl]) \<le> 100000" using assms by (simp add: json_ops_def)
  then have "sidecar_readable ex_env fs' ?path"
    using q(1,2) sidecar_locate [OF r(1), of ?path q] by (simp add: sidecar_readable_def) (simp add: ex_env_def)
  with u show ?thesis by blast
qed

lemma ex_activation: "\<exists>fs'. skill_record_activation json_ops ex_env ex_fs (Some ''/p'') (Some ''note'') = (fs', True)
    \<and> sidecar_readable ex_env fs' ''/p/.aimee/skills/.usage.json''"
proof -
  have "usage_update json_ops (JObj [(''note'', ex_entry)]) ''note'' (usage_fresh json_ops ex_env ''user'')
      (event_change json_ops ex_env True False)
    = JObj [(''note'', JObj [(''use_count'', JNum 3), (''state'', JStr ''active''), (''last_used_at'', JStr ''2026-01-01T00:00:00Z'')])]"
    by (simp add: usage_update_def event_change_def skill_json_set_string_def skill_json_set_number_def Let_def
        json_ops_def json_get_def json_map_def is_object_def string_of_def number_of_def skill_json_int_def ex_entry_def ex_env_def
        c_trunc_def c_succ_def c_int_def fits_int_def)
  moreover have "length (enc_json (JObj [(''note'', JObj [(''use_count'', JNum 3), (''state'', JStr ''active''), (''last_used_at'', JStr ''2026-01-01T00:00:00Z'')])])) < 100000"
    by (simp add: enc_nat_def enc_rat_def enc_int_def ord_def)
  ultimately have "length (enc_json (usage_update json_ops (JObj [(''note'', ex_entry)]) ''note'' (usage_fresh json_ops ex_env ''user'')
      (event_change json_ops ex_env True False))) < 100000" by metis
  from ex_update [OF this] show ?thesis
    using ex_usage_path valid_given [OF ex_valid(1)] by (simp add: skill_record_activation_def skill_record_event_def)
qed

lemma ex_pin: "\<exists>fs'. skill_set_pinned json_ops ex_env ex_fs (Some ''/p'') (Some ''note'') True = (fs', True)
    \<and> sidecar_readable ex_env fs' ''/p/.aimee/skills/.usage.json''"
proof -
  let ?mu = "no_mutation\<lparr>set_pin := Some True\<rparr>"
  have "usage_update json_ops (JObj [(''note'', ex_entry)]) ''note'' (usage_fresh json_ops ex_env ''user'')
      (mutation_change json_ops ex_env ?mu)
    = JObj [(''note'', JObj [(''use_count'', JNum 2), (''state'', JStr ''stale''), (''pinned'', JBool True)])]"
    by (simp add: usage_update_def mutation_change_def no_mutation_def Let_def
        json_ops_def json_get_def json_map_def is_object_def ex_entry_def)
  moreover have "length (enc_json (JObj [(''note'', JObj [(''use_count'', JNum 2), (''state'', JStr ''stale''), (''pinned'', JBool True)])])) < 100000"
    by (simp add: enc_nat_def enc_rat_def enc_int_def ord_def)
  ultimately have "length (enc_json (usage_update json_ops (JObj [(''note'', ex_entry)]) ''note'' (usage_fresh json_ops ex_env ''user'')
      (mutation_change json_ops ex_env ?mu))) < 100000" by metis
  from ex_update [OF this] show ?thesis
    using ex_usage_path by (simp add: skill_set_pinned_def skill_record_mutation_def no_mutation_def)
qed

section \<open>The same project without telemetry\<close>

definition ex_with :: "string \<Rightarrow> fs" where
  "ex_with s = [([''p''], Dir), ([''p'', ''.aimee''], Dir), ([''p'', ''.aimee'', ''skills''], Dir),
     ([''p'', ''.aimee'', ''skills'', ''note.md''], Reg s)]"

abbreviation ex_plain :: fs where
  "ex_plain \<equiv> ex_with (ex_text ''note'')"

lemma plain_wf: "fs_wf (ex_with s)"
  by (simp add: fs_wf_def ex_with_def fs_at_def name_ok_def cstr_def)

lemma plain_ready: "project_ready ex_env (ex_with s) ''/p''"
  using project_ready_bases(1) [OF ex_ready] plain_wf by (simp add: project_ready_def ex_place ex_path cstr_def)

lemma plain_room: "no_manifest (ex_with s) ''/p'' ''note''" "telemetry_room ex_env (ex_with s) ''/p''"
  "fs_at (ex_with s) (skill_file_place ''/p'' ''note'') = Some (Reg s)"
  by (simp_all add: telemetry_room_def no_manifest_def ex_place ex_path ex_with_def fs_at_def skill_file_place_def
      file_or_free_def show_nat.simps)

lemma plain_usage_path: "skill_usage_path_source ex_env ex_plain (Some ''/p'') (Some ''note'') SKILL_PATH_MAX
    = Some (''/p/.aimee/skills/.usage.json'', SKILL_SOURCE_PROJECT)"
proof -
  have "skill_resolve_path ex_env ex_plain (Some ''/p'') (Some ''note'') SKILL_PATH_MAX
      = Some (skill_file ''/p'' ''note'', SKILL_SOURCE_PROJECT)"
    by (rule flat_resolved(1) [OF plain_ready ex_valid(1) ex_no_faults(1) plain_wf plain_room(1,3)])
  moreover have "skill_file ''/p'' ''note'' = ''/p/.aimee/skills/note.md''" by code_simp
  ultimately show ?thesis by (simp add: skill_usage_path_source_def SKILL_PATH_MAX_def)
qed

lemma plain_telemetry:
  "telemetry_ready json_ops ex_env ex_plain (Some ''/p'') ''note'' ''/p/.aimee/skills/.usage.json'' SKILL_SOURCE_PROJECT"
  using plain_usage_path ex_valid plain_wf json_ops_ok project_ready_bases(1) [OF ex_ready]
  by (simp add: telemetry_ready_def)

lemma plain_sidecar_locate: "locate ex_plain ''/p/.aimee/skills/.usage.json'' = Inr [''p'', ''.aimee'', ''skills'', ''.usage.json'']"
proof -
  have "path_parts ''/p/.aimee/skills/.usage.json'' = [''p'', ''.aimee'', ''skills'', ''.usage.json'']" by code_simp
  then show ?thesis by (simp add: locate_def fs_at_def ex_with_def)
qed

lemma plain_root: "skill_usage_load_root json_ops ex_env ex_plain ''/p/.aimee/skills/.usage.json'' = Some (JObj [])"
proof -
  have "skill_read_file ex_env ex_plain ''/p/.aimee/skills/.usage.json'' = None"
    using plain_sidecar_locate by (simp add: skill_read_file_alt c_stat_def sys_path_def fs_at_def ex_with_def)
  then show ?thesis by (simp add: skill_usage_load_root_def json_ops_def)
qed

lemma plain_start: "entry_start json_ops ex_env ex_plain ''/p/.aimee/skills/.usage.json'' ''note'' True"
  unfolding entry_start_def plain_root by (simp add: json_ops_def json_get_def)

lemma plain_first: "usage_update json_ops (JObj []) ''note'' (usage_fresh json_ops ex_env ''user'')
      (event_change json_ops ex_env True False)
    = JObj [(''note'', JObj [(''created_at'', JStr ''2026-01-01T00:00:00Z''), (''created_by'', JStr ''user''),
        (''state'', JStr ''active''), (''pinned'', JBool False), (''use_count'', JNum 1), (''view_count'', JNum 0),
        (''patch_count'', JNum 0), (''last_used_at'', JStr ''2026-01-01T00:00:00Z'')])]"
  by (simp add: usage_update_def usage_fresh_def event_change_def skill_json_set_string_def skill_json_set_number_def
      Let_def json_ops_def json_get_def json_map_def is_object_def string_of_def number_of_def skill_json_int_def
      ex_env_def c_trunc_def c_succ_def c_int_def fits_int_def)

lemma plain_activation: "\<exists>fs'. skill_record_activation json_ops ex_env ex_plain (Some ''/p'') (Some ''note'') = (fs', True)
    \<and> sidecar_readable ex_env fs' ''/p/.aimee/skills/.usage.json''"
proof -
  let ?path = "''/p/.aimee/skills/.usage.json''"
  have b: "bases_fit ex_env (Some ''/p'')" "pid_fits ex_env" using project_ready_bases [OF ex_ready] by auto
  have sp: "sidecar_path ?path" by (rule usage_path(1) [OF ex_usage_path b(1) ex_valid(1)])
  have w: "sidecar_writable ex_env ex_plain ?path"
    unfolding sidecar_writable_def
    by (rule exI [of _ "[''p'', ''.aimee'', ''skills'']"])
      (simp add: plain_sidecar_locate, simp add: writable_def fs_at_def ex_with_def show_nat.simps)
  let ?up = "update_sidecar json_ops ex_env ex_plain ?path ''note'' (usage_fresh json_ops ex_env ''user'')
      (event_change json_ops ex_env True False)"
  have "snd ?up"
    using ex_json by (intro update_sidecar_succeeds [OF sp plain_wf b(2) ex_no_faults(1) w]) (auto simp: json_prints_def)
  then obtain fs' where u: "?up = (fs', True)" by (cases ?up) simp
  note r = update_sidecar_result [OF sp plain_wf b(2) u]
  have q: "fs_at fs' [''p'', ''.aimee'', ''skills'', ''.usage.json''] = Some (Reg (enc_json (usage_update json_ops (JObj [])
      ''note'' (usage_fresh json_ops ex_env ''user'') (event_change json_ops ex_env True False)) @ [nl]))"
    using r(3) unfolding plain_root plain_sidecar_locate by (auto simp: json_ops_def)
  have "length (enc_json (usage_update json_ops (JObj []) ''note'' (usage_fresh json_ops ex_env ''user'')
      (event_change json_ops ex_env True False)) @ [nl]) \<le> 100000"
    unfolding plain_first by (simp add: enc_nat_def enc_rat_def enc_int_def ord_def)
  then have "sidecar_readable ex_env fs' ?path"
    using q sidecar_locate [OF r(1), of ?path] plain_sidecar_locate by (simp add: sidecar_readable_def) (simp add: ex_env_def)
  with u show ?thesis
    using plain_usage_path valid_given [OF ex_valid(1)] by (simp add: skill_record_activation_def skill_record_event_def)
qed

lemma plain_usage: "skill_usage_get json_ops ex_env ex_plain (Some ''/p'') (Some ''note'') = Some skill_usage_default"
proof -
  have "skill_read_file ex_env ex_plain ''/p/.aimee/skills/.usage.json'' = None"
    using plain_sidecar_locate by (simp add: skill_read_file_alt c_stat_def sys_path_def fs_at_def ex_with_def)
  then show ?thesis
    using skill_usage_get_view [OF valid_given [OF ex_valid(1)] plain_usage_path, of json_ops]
    by (simp add: sidecar_entry_def usage_view_def usage_base_def)
qed

text \<open>The skill file with any text: what is loaded is its first 100 KB.\<close>

lemma ex_with_resolved: "skill_resolve_path ex_env (ex_with s) (Some ''/p'') (Some ''note'') SKILL_PATH_MAX
    = Some (skill_file ''/p'' ''note'', SKILL_SOURCE_PROJECT)"
  "locate (ex_with s) (skill_file ''/p'' ''note'') = Inr (skill_file_place ''/p'' ''note'')"
  by (rule flat_resolved(1) [OF plain_ready ex_valid(1) ex_no_faults(1) plain_wf plain_room(1,3)])
    (rule plain_locate_at [OF project_skill_file(2) [OF plain_ready ex_valid(1)] plain_wf], simp add: plain_room(3))

lemma ex_env_cstr: "env_cstr ex_env"
  by (simp add: env_cstr_def ex_env_def)

section \<open>Its other files\<close>

lemma ex_load: "skill_load ex_env ex_fs (Some ''/p'') (Some ''note'') = Some (ex_text ''note'')"
proof -
  have "skill_load ex_env ex_fs (Some ''/p'') (Some ''note'') = Some (c_string (take SKILL_MAX_SIZE (ex_text ''note'')))"
    by (rule flat_resolved(2) [OF ex_ready ex_valid(1) ex_no_faults(1) ex_wf ex_room(3) ex_note])
      (simp add: ex_text_def)
  moreover have "length (ex_text ''note'') \<le> SKILL_MAX_SIZE" "cstr (ex_text ''note'')"
    by (simp_all add: ex_text_def SKILL_MAX_SIZE_def cstr_def)
  ultimately show ?thesis by simp
qed

lemma ex_support: "support_room ex_env ex_fs ''/p'' ''references'' ''a.md''" "skill_support_path_ok (Some ''references/a.md'')"
proof -
  have "path_parts ''references'' = [''references'']" by code_simp
  then show "support_room ex_env ex_fs ''/p'' ''references'' ''a.md''"
    by (simp add: support_room_def ex_place ex_path ex_fs_def fs_at_def file_or_free_def show_nat.simps)
  show "skill_support_path_ok (Some ''references/a.md'')" by code_simp
qed

section \<open>A patch of its skill\<close>

definition ex_patched :: string where
  "ex_patched = ''---'' @ [nl] @ ''name: note'' @ [nl] @ ''description: Use when in need'' @ [nl]
     @ ''---'' @ [nl] @ ''Keep it brief.'' @ [nl]"

lemma ex_patch: "patch_loop False ''short'' ''brief'' (ex_text ''note'') 0
    = (1, [take 57 (ex_text ''note''), ''brief'', ''.'' @ [nl]])"
  "concat (snd (patch_loop False ''short'' ''brief'' (ex_text ''note'') 0)) = ex_patched"
  "sublist ''short'' (ex_text ''note'')"
proof -
  have s: "c_strstr (ex_text ''note'') ''short'' = Some 57" by code_simp
  show p: "patch_loop False ''short'' ''brief'' (ex_text ''note'') 0
      = (1, [take 57 (ex_text ''note''), ''brief'', ''.'' @ [nl]])"
    using patch_loop_once [OF _ s, of "''brief''"] by (simp add: ex_text_def)
  show "concat (snd (patch_loop False ''short'' ''brief'' (ex_text ''note'') 0)) = ex_patched"
    unfolding p by (simp add: ex_text_def ex_patched_def)
  show "sublist ''short'' (ex_text ''note'')" using s c_strstr_sublist by blast
qed

lemma ex_patched_accepted: "lint_accepts ''note'' ex_patched" "ex_patched \<noteq> []" "length ex_patched \<le> SKILL_MAX_SIZE"
proof -
  have h: "fm_header ex_patched = Some (4, 40)" by code_simp
  let ?h = "take 40 (drop 4 ex_patched)"
  have b: "lint_body_of ex_patched (4 + 40) = ''Keep it brief.'' @ [nl]" by code_simp
  have "fm_opens ex_patched" "\<not> skill_name_is_session_artifact (Some ''note'')"
    "skill_lint_line_value ?h ''name'' 64 = (True, ''note'')"
    "skill_lint_description_is_trigger (snd (skill_lint_line_value ?h ''description'' 512))"
    "\<not> skill_lint_has_at_link (''Keep it brief.'' @ [nl])"
    "skill_lint_word_count (''Keep it brief.'' @ [nl]) \<le> 1200"
    by code_simp+
  moreover have "list_all (\<lambda>c. c_tolower c \<noteq> CHR ''g'' \<and> c_tolower c \<noteq> CHR ''y'') (''Keep it brief.'' @ [nl])"
    by code_simp
  then have "\<not> skill_lint_has_injection_pattern (''Keep it brief.'' @ [nl])" by (rule no_injection)
  ultimately show "lint_accepts ''note'' ex_patched"
    unfolding lint_accepts_def h option.case prod.case Let_def b using ex_valid(1) by blast
  show "ex_patched \<noteq> []" "length ex_patched \<le> SKILL_MAX_SIZE"
    by (simp_all add: ex_patched_def SKILL_MAX_SIZE_def)
qed

lemma ex_steal: "dstr_steal ex_env ps = Some (concat ps)"
  by (simp add: ex_env_def)

lemma ex_text_small: "ex_text ''note'' \<noteq> []" "cstr (ex_text ''note'')" "length (ex_text ''note'') \<le> SKILL_MAX_SIZE"
  by (simp_all add: ex_text_def cstr_def SKILL_MAX_SIZE_def)

lemma ex_listed: "skill_project_list ex_env ex_fs (Some ''/p'') SKILL_MAX_SKILLS = [''note'']"
proof -
  have "locate ex_fs ''/p/.aimee/skills'' = Inr [''p'', ''.aimee'', ''skills'']"
    by (simp add: locate_def ex_path fs_at_def ex_fs_def)
  then have "c_opendir ex_env ex_fs ''/p/.aimee/skills''
      = Inr (''.'' # ''..'' # fs_names ex_fs [''p'', ''.aimee'', ''skills''])"
    using opendir_there [of ex_fs "''/p/.aimee/skills''" "[''p'', ''.aimee'', ''skills'']" ex_env] by (simp add: fs_at_def ex_fs_def)
  moreover have "fs_names ex_fs [''p'', ''.aimee'', ''skills''] = [''note.md'', ''.usage.json'', ''.snapshots'']"
    by (simp add: fs_names_def ex_fs_def)
  ultimately show ?thesis
    using project_skills_whole(4) [OF ex_ready]
    by (simp add: skill_project_list_def ex_place ends_with_md_def SKILL_MAX_SKILLS_def SKILL_NAME_MAX_def)
qed

end
