(* ===== verification/Spec2Isabelle.thy ===== *)
theory Spec2Isabelle
  imports Skill_Adapter Skill_Go Skill_Poison Skill_Patch Skill_Example
begin

text \<open>
  The skills module of aimee: skills are markdown files with frontmatter that a project, a user or
  the installation provides; the module finds, checks, loads, edits, archives and rolls them back,
  keeps telemetry on their use beside them, and answers two questions of the host process: whether
  a review is due, and whether the frontmatter of a skill triggers on a tool call. The sources are
  \<open>src/src/modules/skills\<close> (C) and \<open>src/server-go/modules/skills/skills.go\<close>.

  The environment. Texts are lists of bytes without NUL, a pointer that may be NULL is an option,
  fixed buffers cut what does not fit (\<open>c_buf\<close>), u32 fields are 32-bit words. \<open>Skill_Prelude\<close> holds
  these and the string functions of the C library. \<open>Skill_Fs\<close> holds the file system: a finite map
  from paths to files, directories and special files, the calls the sources make on it, and the
  record \<open>env\<close>: which calls fail (any set of them, but a call on a path fails always or never),
  what a failed write leaves and a failed read returns, the environment variables, the clock, what
  the machine makes of an int operation whose result does not fit, and the functions of the rest
  of the program (\<open>now_utc\<close>, \<open>config_default_dir\<close>,
  \<open>dstr_steal\<close>, \<open>safe_strdup\<close>), which are parameters.
  \<open>Skill_Json\<close> is the interface of cJSON as a record of functions;
  \<open>cjson_ok\<close> states the documented laws the theorems use (on numbers, only that an
  integer a double can hold is read back), and a tree type with a printer and a parser shows that
  they can hold.

  The parts, in the order of the imports:
  \<^item> \<open>Skill_Wire\<close> is \<open>module_api.h\<close>: the frames of both requests and answers. The locale \<open>wire_codec\<close>
    is the contract of a codec, interpreted for the three codecs. \<open>Skill_Trigger\<close> is
    \<open>skill_trigger_policy.c\<close>: one pass with six flags over the frontmatter, against the declarative
    \<open>trigger_policy\<close>. \<open>Skill_Adapter\<close> is \<open>module_adapter.c\<close>, \<open>Skill_Go\<close> the Go handler.
  \<^item> \<open>Skill_Names\<close> (names, support paths, snapshot ids, slugs), \<open>Skill_Lint\<close>, \<open>Skill_Poison\<close> and
    \<open>Skill_Patch\<close> are the functions of \<open>skill.c\<close> on texts.
  \<^item> \<open>Skill_Resolve\<close> finds, loads and lists skills; \<open>Skill_Store\<close> makes directories and replaces files
    through a temporary file; \<open>Skill_Usage\<close> is the telemetry sidecar \<open>.usage.json\<close>; \<open>Skill_Manage\<close> is
    create, import, edit, patch, archive, support files and the prompt injection.
  \<^item> \<open>Skill_Lifecycle\<close> is the pass that marks old skills stale and archives older ones; \<open>Skill_Eval\<close>
    the evaluation fixtures and the gate; \<open>Skill_Autostub\<close> the proposals for tools without a skill;
    \<open>Skill_Rollback\<close> is \<open>skill_rollback.c\<close>.
  \<^item> \<open>Skill_Sidecar\<close>, \<open>Skill_Managed\<close>, \<open>Skill_Works\<close>, \<open>Skill_Restore\<close>, \<open>Skill_Pass\<close> and
    \<open>Skill_Proposals\<close> hold the proofs about the operations that change files: what each can touch
    under every failure (\<open>sidecar_only\<close>, \<open>managed_only\<close>, \<open>kept_places\<close>, \<open>proposals_only\<close>), what each
    outcome means, and that each succeeds in a system without failures. The locale \<open>sidecar_writer\<close>
    is the contract of an operation that records something about a skill, interpreted for events
    and for mutations; its \<open>write_result\<close> and \<open>write_law\<close> say what an update leaves in the sidecar
    and what is read from it afterwards, for a first entry and for a later one.
  \<^item> \<open>Skill_Example\<close> is one project, environment and sidecar on which the properties are applied.

  State. Operations take the file system and return the new one with their outcome: a bool, an
  option, or \<open>Inl\<close> an error message (\<open>Inl None\<close> when the code leaves the buffer alone) against \<open>Inr\<close>
  the result. The two statics of \<open>skill.c\<close> are the record \<open>skill_module\<close>.

  Bounds. The buffers have their sizes (512 for paths, 64 for names, 100 KB for a skill,
  1 MB for a support file), and the theorems on files ask that the paths of the project fit
  (\<open>project_ready\<close>, \<open>rollback_ready\<close>). The counters of the telemetry are 32-bit words. The loops
  are structural or have a measure. \<open>remove_tree\<close> and \<open>copy_tree\<close> recurse over the file system and
  hold a directory open at every level: their argument \<open>fds\<close> is the number of files the process can
  still open, so nothing takes fuel and every operation returns. 514 files are enough when the paths
  fit, because each level makes the path longer and a copy opens two files;
  \<open>remove_tree_cut_path\<close> shows what happens when a path is cut.

  What the properties show. C1 and C39 are on the rollback; C2 to C8, C13, C16 to C20 and C32 on
  the operations that change files and their telemetry: what success means, that a failure
  with a message leaves the old file, that a pinned skill stays, that what was written reads back; C9, C10 and C24
  to C26 and C38 on the wire contract, the trigger policy and the parity of the two handlers; C11,
  C12, C14, C23, C35 to C37 and C40 on the checks of texts and names; C15, C21 and C22 on the
  evaluation, its gate and the proposals; C27 to C31 on injection, import, resolution, loading and
  listing; C33 and C34 on the lifecycle pass and its dates.

  Not modelled. Symbolic links (so \<open>stat\<close> and \<open>lstat\<close> agree) and permissions other than as
  failures; a call that fails once and works when it is repeated; other processes between two calls
  of one operation, so that the lock on the sidecar is a call that may fail and releasing it does
  nothing; the Windows branches; the limit on open files outside the rollback, where it is a failure
  of the call; the order in which a directory is read is that of the map; numbers of cJSON and the
  doubles of the evaluation are rationals, without rounding, infinities and NaN; a number of days
  that is no int wraps, as compilers do it; the bus runtime under \<open>src/server-go/bus\<close> is a copy of
  another repository's client, and \<open>src/runtime/main.go\<close> only starts it; the tests are not code under
  proof.
\<close>

text \<open>
  C1: For a project whose root has no .. and whose paths below the skills directory all fit the
  511 characters of the buffers, rolling back to a snapshot, whatever calls fail (a call on a
  path always or never) and however many files can be open, changes nothing outside the skills
  directory and nothing below its .snapshots. When it reports success, every other path of the
  skills directory holds exactly what the snapshot has there, and nothing where the snapshot has
  nothing, with one exception: what the snapshot has at or below a nested entry of the name
  .snapshots is not restored. Without failures and special files, and with 514 files to open, it
  reports success.
\<close>

theorem rollback_restores:
  assumes "rollback_ready fs r sid"
    and "skill_rollback_snapshot env fds fs (Some r) (Some sid) = (fs', out)"
  shows "kept_places (skills_place r) fs fs'
    \<and> (out = Inr () \<longrightarrow> (\<forall>n t. n \<noteq> ''.snapshots'' \<longrightarrow> fs_at fs' (skills_place r @ n # t)
        = (if ''.snapshots'' \<in> set t then None else fs_at fs (snapshot_place r sid @ n # t))))
    \<and> (no_faults env \<and> no_special (snapshot_place r sid) fs \<and> 514 \<le> fds \<longrightarrow> out = Inr ())"
  using rollback_result [OF assms(1), of env fds] assms(2)
  by (simp add: rolled_back_def restored_def SKILL_PATH_MAX_def)

lemma rollback_restores_witness:
  "\<exists>fs'. skill_rollback_snapshot ex_env 1024 ex_fs (Some ''/p'') (Some ''s1'') = (fs', Inr ())
     \<and> fs_at fs' (skill_file_place ''/p'' ''note'') = Some (Reg (ex_text ''old''))
     \<and> fs_at fs' [''p'', ''.aimee'', ''skills'', ''.usage.json''] = None"
proof -
  obtain fs' out where f: "skill_rollback_snapshot ex_env 1024 ex_fs (Some ''/p'') (Some ''s1'') = (fs', out)"
    by fastforce
  note r = rollback_restores [OF ex_snapshot(1) f]
  from r ex_snapshot(2) have o: "out = Inr ()" by simp
  have "n \<noteq> ''.snapshots'' \<Longrightarrow> fs_at fs' (skills_place ''/p'' @ [n]) = fs_at ex_fs (snapshot_place ''/p'' ''s1'' @ [n])" for n
    using r o by simp
  from this [of "''note.md''"] this [of "''.usage.json''"] f o show ?thesis
    by (simp add: skill_file_place_def ex_place ex_path) (simp add: ex_fs_def fs_at_def)
qed

text \<open>
  C2: In a system without failures, creating a skill whose content passes both checks, with room
  for its file and no skill directory of the name, succeeds, and loading it gives back exactly
  the content, from the project.
\<close>

theorem create_then_load_back:
  assumes "project_ready env fs r" "skill_name_is_valid (Some n)" "no_faults env" "skill_accepted n c"
    and "room_for env fs r n" "no_manifest fs r n" "cstr c"
  shows "\<exists>fs'. skill_manage_create J env fs (Some r) (Some n) (Some c) creator = (fs', Inr ())
    \<and> skill_load env fs' (Some r) (Some n) = Some c \<and> skill_source env fs' (Some r) (Some n) = Some ''project''"
  using assms by (rule create_then_load)

lemma create_then_load_back_witness:
  "\<exists>fs'. skill_manage_create json_ops ex_env ex_fs (Some ''/p'') (Some ''fresh'') (Some (ex_text ''fresh'')) None = (fs', Inr ())
     \<and> skill_load ex_env fs' (Some ''/p'') (Some ''fresh'') = Some (ex_text ''fresh'')"
  using create_then_load_back [OF ex_ready ex_valid(2) ex_no_faults(1) ex_accepted(1) ex_room(1,2) ex_accepted(2)] by blast

text \<open>
  C3: Creating a skill with a valid name in a project whose paths fit the buffers, whatever
  calls fail (a call on a path always or never): it changes, adds and removes nothing but the
  skill file, its temporary file, telemetry (entries whose names start with .usage.json) and
  missing directories on the way to the skills. It reports success only when the poison check
  and the linter accept the content and access() saw no file of the name, so that there was none
  unless access() failed, and then the file holds exactly the content; otherwise the file is as
  it was.
\<close>

theorem create_outcomes:
  assumes "project_ready env fs r" "skill_name_is_valid (Some n)"
    and "skill_manage_create J env fs (Some r) (Some n) (Some c) creator = (fs', out)"
  shows "managed_only env r n fs fs'
    \<and> (if out = Inr () then skill_accepted n c \<and> \<not> c_access env fs (skill_file r n)
         \<and> (\<not> fault env Access (skill_file r n) \<longrightarrow> fs_at fs (skill_file_place r n) = None)
         \<and> fs_at fs' (skill_file_place r n) = Some (Reg c)
       else fs_at fs' (skill_file_place r n) = fs_at fs (skill_file_place r n))"
  using create_result [OF assms] skill_file_unseen [OF assms(1,2)] by auto

lemma create_outcomes_witness:
  "\<exists>fs' out. skill_manage_create json_ops ex_env ex_fs (Some ''/p'') (Some ''note'') (Some ''x'') None = (fs', out)
     \<and> out \<noteq> Inr () \<and> fs_at fs' (skill_file_place ''/p'' ''note'') = Some (Reg (ex_text ''note''))"
proof -
  obtain fs' out where c: "skill_manage_create json_ops ex_env ex_fs (Some ''/p'') (Some ''note'') (Some ''x'') None
    = (fs', out)" by fastforce
  have "\<not> lint_accepts ''note'' ''x''" by (simp add: lint_accepts_def fm_opens_def)
  with create_outcomes [OF ex_ready ex_valid(1) c] ex_note c show ?thesis
    by (auto simp: skill_accepted_def split: if_splits)
qed

text \<open>
  C4: In a system without failures, with directories that fit the buffers, for a skill with a
  valid name found outside the bundled ones, whose sidecar has an entry of it as the module
  writes them, or has none yet, also when there is no sidecar: after pinning it with success,
  with a sidecar of at most MAX_FILE_SIZE bytes, its telemetry reads back as pinned and
  otherwise unchanged (a first entry is also given the time of its creation), and archiving it
  is refused with a message and changes nothing.
\<close>

theorem pinned_not_archived:
  assumes "telemetry_ready J env fs pr n path src" "entry_start J env fs path n first"
    and "skill_set_pinned J env fs pr (Some n) True = (fs', True)" "sidecar_readable env fs' path"
  shows "(\<exists>u. skill_usage_get J env fs pr (Some n) = Some u
      \<and> skill_usage_get J env fs' pr (Some n) = Some ((usage_began env first u)\<lparr>pinned := True\<rparr>))
    \<and> skill_manage_archive J env fs' pr (Some n) absorbed = (fs', failed ''pinned skills cannot be archived'')"
proof -
  have J: "cjson_ok J" using assms(1) by (simp add: telemetry_ready_def)
  let ?mu = "no_mutation\<lparr>set_pin := Some True\<rparr>"
  have e: "skill_record_mutation J env fs pr (Some n) ?mu = (fs', True)"
    using assms(3) by (simp add: skill_set_pinned_def)
  have fr: "usage_fresh J env (if given (actor ?mu) then the (actor ?mu) else ''user'') = usage_fresh J env ''user''"
    by (simp add: no_mutation_def)
  from mutation.write_law(1) [OF assms(1,2) e assms(4) fr mutation_change_pin(1) [OF J] usage_of_pin [OF J]]
  obtain u where u: "skill_usage_get J env fs pr (Some n) = Some u"
    "skill_usage_get J env fs' pr (Some n) = Some ((usage_began env first u)\<lparr>pinned := True\<rparr>)" by blast
  with archive_refuses_pinned [OF u(2)] show ?thesis by simp
qed

lemma pinned_not_archived_witness:
  "\<exists>fs'. skill_set_pinned json_ops ex_env ex_fs (Some ''/p'') (Some ''note'') True = (fs', True)
     \<and> skill_manage_archive json_ops ex_env fs' (Some ''/p'') (Some ''note'') None
       = (fs', failed ''pinned skills cannot be archived'')"
  using ex_pin pinned_not_archived [OF ex_telemetry ex_start] by blast

text \<open>
  C5: In a system without failures, with directories that fit the buffers, for a skill with a
  valid name found outside the bundled ones, whose sidecar has an entry of it as the module
  writes them, or has none yet, also when there is no sidecar: after an activation that reports
  success and leaves a sidecar of at most MAX_FILE_SIZE bytes, the telemetry reads back with the
  time of the call as the last use, the state active and one more use, up to the largest int
  (what the next increment gives C leaves open); a first entry is also given the time of its
  creation, everything else is as before, and so is the entry of every skill whose name differs
  in more than letter case.
\<close>

theorem activation_counts:
  assumes "telemetry_ready J env fs pr n path src" "entry_start J env fs path n first"
    and "skill_record_activation J env fs pr (Some n) = (fs', True)" "sidecar_readable env fs' path"
  shows "(\<exists>u k. skill_usage_get J env fs pr (Some n) = Some u
      \<and> skill_usage_get J env fs' pr (Some n) = Some ((usage_began env first u)\<lparr>use_count := k,
          last_used_at := c_buf 32 (now_utc env (if first then 1 else 0)), state := ''active''\<rparr>)
      \<and> (sint (use_count u) < 2147483647 \<longrightarrow> sint k = sint (use_count u) + 1))
    \<and> (\<not> same_key n m \<longrightarrow> sidecar_entry J env fs' path m = sidecar_entry J env fs path m)"
proof -
  have J: "cjson_ok J" using assms(1) by (simp add: telemetry_ready_def)
  have e: "skill_record_event J env fs pr (Some n) True False = (fs', True)"
    using assms(3) by (simp add: skill_record_activation_def)
  have o: "entry_ok J ob \<Longrightarrow> cj_is_object J (event_change J env True False k ob)" for k ob
    using J by (simp add: entry_ok_def)
  have u: "usage_of_entry J env out (event_change J env True False k ob)
      = (usage_of_entry J env out ob)\<lparr>use_count := c_succ env (use_count (usage_of_entry J env out ob)),
          last_used_at := c_buf 32 (now_utc env k), state := ''active''\<rparr>" if "entry_ok J ob" for k ob out
    using usage_of_activation [OF J that] by (simp add: usage_of_entry_def Let_def)
  have b: "use_count (usage_began env first u) = use_count u" for u by (simp add: usage_began_def)
  note law = event.write_law [OF assms(1,2) e assms(4) refl o, where
      f = "\<lambda>k u. u\<lparr>use_count := c_succ env (use_count u), last_used_at := c_buf 32 (now_utc env k), state := ''active''\<rparr>"]
  have "\<exists>v. skill_usage_get J env fs pr (Some n) = Some v
      \<and> skill_usage_get J env fs' pr (Some n) = Some ((usage_began env first v)\<lparr>use_count := c_succ env (use_count v),
          last_used_at := c_buf 32 (now_utc env (if first then 1 else 0)), state := ''active''\<rparr>)"
    using law(1) [OF _ u] unfolding b by blast
  moreover have "\<not> same_key n m \<longrightarrow> sidecar_entry J env fs' path m = sidecar_entry J env fs path m"
    using law(2) [OF _ u] by blast
  ultimately show ?thesis using sint_c_succ by blast
qed

lemma activation_counts_witness:
  "\<exists>fs' u. skill_record_activation json_ops ex_env ex_plain (Some ''/p'') (Some ''note'') = (fs', True)
     \<and> skill_usage_get json_ops ex_env fs' (Some ''/p'') (Some ''note'') = Some u \<and> sint (use_count u) = 1"
proof -
  obtain fs' where f: "skill_record_activation json_ops ex_env ex_plain (Some ''/p'') (Some ''note'') = (fs', True)"
    "sidecar_readable ex_env fs' ''/p/.aimee/skills/.usage.json''" using plain_activation by blast
  have "sint (use_count skill_usage_default) = 0" by (simp add: skill_usage_default_def)
  with activation_counts [OF plain_telemetry plain_start f] plain_usage obtain k where
    k: "skill_usage_get json_ops ex_env fs' (Some ''/p'') (Some ''note'')
      = Some ((usage_began ex_env True skill_usage_default)\<lparr>use_count := k,
          last_used_at := c_buf 32 (now_utc ex_env 1), state := ''active''\<rparr>)" "sint k = 1" by auto
  from k(2) have "sint (use_count ((usage_began ex_env True skill_usage_default)\<lparr>use_count := k,
          last_used_at := c_buf 32 (now_utc ex_env 1), state := ''active''\<rparr>)) = 1" by simp
  with f(1) k(1) show ?thesis by blast
qed

text \<open>
  C6: Whichever calls fail (a call on a path always or never), writing a text file leaves in its
  place either the whole new text, and then success is reported, or exactly what was there; it
  touches no other entry than the temporary file of the process and makes or removes no
  directory. Empty texts and texts over the limit are refused.
\<close>

theorem write_all_or_nothing:
  assumes "plain d q" "name_ok n" "length (d @ CHR ''/'' # n) < SKILL_PATH_MAX" "pid_fits env" "fs_wf fs"
    and "skill_write_text_file env fs (d @ CHR ''/'' # n) (Some c) cap = (fs', ok)"
    and "x \<noteq> q @ [n]" "x \<noteq> q @ [tmp_name env n]"
  shows "fs_at fs' (q @ [n]) = (if ok then Some (Reg c) else fs_at fs (q @ [n]))
    \<and> fs_at fs' x = fs_at fs x \<and> (is_dir fs' y \<longleftrightarrow> is_dir fs y) \<and> fs_wf fs'
    \<and> (ok \<longrightarrow> c \<noteq> [] \<and> length c \<le> cap)"
  using write_text_result [OF assms(1-6)] assms(7,8) by auto

lemma write_all_or_nothing_witness:
  "\<exists>fs' ok. skill_write_text_file ex_env ex_fs (''/p/.aimee/skills'' @ CHR ''/'' # ''note.md'') (Some ''new'') 10 = (fs', ok)
     \<and> fs_at fs' [''p'', ''.aimee'', ''skills'', ''note.md''] \<in> {Some (Reg ''new''), Some (Reg (ex_text ''note''))}
     \<and> fs_at fs' [''p''] = Some Dir"
proof -
  obtain fs' ok where w: "skill_write_text_file ex_env ex_fs (''/p/.aimee/skills'' @ CHR ''/'' # ''note.md'') (Some ''new'') 10
    = (fs', ok)" by fastforce
  have h: "plain ''/p/.aimee/skills'' [''p'', ''.aimee'', ''skills'']" "name_ok ''note.md''"
    using project_skills_whole(3) [OF ex_ready] md_names(1) [OF ex_valid(1)] by (simp_all add: ex_place ex_path)
  have l: "length (''/p/.aimee/skills'' @ CHR ''/'' # ''note.md'') < SKILL_PATH_MAX" by (simp add: SKILL_PATH_MAX_def)
  have at: "fs_at ex_fs [''p'', ''.aimee'', ''skills'', ''note.md''] = Some (Reg (ex_text ''note''))"
    "fs_at ex_fs [''p''] = Some Dir" by (simp_all add: ex_fs_def fs_at_def)
  have "[''p''] \<noteq> [''p'', ''.aimee'', ''skills''] @ [m]" for m by simp
  from write_all_or_nothing [OF h l project_ready_bases(2) [OF ex_ready] ex_wf w this this] at
  have "fs_at fs' [''p'', ''.aimee'', ''skills'', ''note.md''] \<in> {Some (Reg ''new''), Some (Reg (ex_text ''note''))}"
    "fs_at fs' [''p''] = Some Dir" by (simp_all split: if_splits)
  with w show ?thesis by blast
qed

text \<open>
  C7: Recording an activation, a view or any change of telemetry writes entries whose names
  start with .usage.json and nothing else, makes no directory, and leaves every skill loading
  and resolving exactly as before.
\<close>

theorem telemetry_keeps_skills:
  assumes "skill_name_is_valid (Some n)" "bases_fit env pr" "fs_wf fs" "skill_name_is_valid (Some m)"
    and "skill_record_event J env fs pr (Some n) activation view = (fs', ok)
      \<or> skill_record_mutation J env fs pr (Some n) mu = (fs', ok)"
  shows "sidecar_only fs fs' \<and> skill_load env fs' pr (Some m) = skill_load env fs pr (Some m)
    \<and> skill_resolve_path env fs' pr (Some m) SKILL_PATH_MAX = skill_resolve_path env fs pr (Some m) SKILL_PATH_MAX"
proof -
  from assms(5) have so: "sidecar_only fs fs'"
  proof
    assume "skill_record_event J env fs pr (Some n) activation view = (fs', ok)"
    from event.write_only [OF assms(1-3) this] show ?thesis .
  next
    assume "skill_record_mutation J env fs pr (Some n) mu = (fs', ok)"
    from mutation.write_only [OF assms(1-3) this] show ?thesis .
  qed
  with sidecar_load [OF so assms(2,4)] sidecar_resolve [OF so assms(2,4)] show ?thesis by simp
qed

lemma telemetry_keeps_skills_witness:
  "\<exists>fs'. skill_record_activation json_ops ex_env ex_fs (Some ''/p'') (Some ''note'') = (fs', True)
     \<and> skill_load ex_env fs' (Some ''/p'') (Some ''note'') = Some (ex_text ''note'')"
proof -
  obtain fs' where f: "skill_record_activation json_ops ex_env ex_fs (Some ''/p'') (Some ''note'') = (fs', True)"
    using ex_activation by blast
  have d: "skill_record_event json_ops ex_env ex_fs (Some ''/p'') (Some ''note'') True False = (fs', True)
      \<or> skill_record_mutation json_ops ex_env ex_fs (Some ''/p'') (Some ''note'') no_mutation = (fs', True)"
    using f by (simp add: skill_record_activation_def)
  from telemetry_keeps_skills [OF ex_valid(1) project_ready_bases(1) [OF ex_ready] ex_wf ex_valid(1) d] ex_load f
  show ?thesis by auto
qed

text \<open>
  C8: An update of the telemetry, by an event (an activation or a view) or by a mutation (a pin,
  an edit, an archive or another state), for a skill with a valid name found outside the bundled
  ones, with directories that fit the buffers and a sidecar path that leads to a place, either
  reports success and leaves in the sidecar the printed tree with the changed entry and a
  newline, or reports a failure and leaves the sidecar as it was, whatever calls fail (a call on
  a path always or never).
\<close>

theorem telemetry_all_or_nothing:
  assumes "skill_name_is_valid (Some n)" "bases_fit env pr" "fs_wf fs"
    and "skill_usage_path_source env fs pr (Some n) SKILL_PATH_MAX = Some (path, src)" "src \<noteq> SKILL_SOURCE_BUNDLED"
    and "locate fs path = Inr q"
    and "skill_record_event J env fs pr (Some n) activation view = (fs', ok)
        \<and> fresh = usage_fresh J env ''user'' \<and> change = event_change J env activation view
      \<or> skill_record_mutation J env fs pr (Some n) mu = (fs', ok)
        \<and> fresh = usage_fresh J env (if given (actor mu) then the (actor mu) else ''user'')
        \<and> change = mutation_change J env mu"
  shows "if ok then (\<exists>rt s. skill_usage_load_root J env fs path = Some rt
        \<and> cj_print J (usage_update J rt n fresh change) = Some s \<and> fs_at fs' q = Some (Reg (s @ [nl])))
      else fs_at fs' q = fs_at fs q"
  using assms(7) event.write_result [OF assms(1-3) _ assms(4-6)] mutation.write_result [OF assms(1-3) _ assms(4-6)]
  by blast

lemma telemetry_all_or_nothing_witness:
  "\<exists>fs' ok. skill_record_mutation json_ops ex_env ex_fs (Some ''/p'') (Some ''note'') no_mutation = (fs', ok)
     \<and> fs_at fs' [''p'', ''.aimee'', ''skills'', ''.usage.json''] \<noteq> None"
proof -
  obtain fs' ok where e: "skill_record_mutation json_ops ex_env ex_fs (Some ''/p'') (Some ''note'') no_mutation = (fs', ok)"
    by fastforce
  have "SKILL_SOURCE_PROJECT \<noteq> SKILL_SOURCE_BUNDLED" by simp
  note t = telemetry_all_or_nothing [OF ex_valid(1) project_ready_bases(1) [OF ex_ready] ex_wf ex_usage_path this
      ex_locate disjI2 [OF conjI [OF e conjI [OF refl refl]]]]
  have "fs_at ex_fs [''p'', ''.aimee'', ''skills'', ''.usage.json''] \<noteq> None" by (simp add: ex_fs_def fs_at_def)
  with t have "fs_at fs' [''p'', ''.aimee'', ''skills'', ''.usage.json''] \<noteq> None" by (cases ok) auto
  with e show ?thesis by blast
qed

text \<open>
  C9: End to end, a trigger request the client encodes is answered by the C handler with status
  OK, and the client decodes from the answer 1 exactly when the frontmatter of the skill has a
  triggers block whose tools name the tool (if it names any) and whose patterns match the
  subject (if it has any), else 0.
\<close>

theorem trigger_answer_is_policy:
  assumes "aimee_skills_trigger_request_encode (Some c) (Some t) s cap = Some req"
    and "cstr c" "cstr t" "cstr (text_or_empty s)"
    and "\<And>n. alloc n" "TRIGGER_RESPONSE_LEN \<le> rcap"
  shows "\<exists>r. aimee_module_handler alloc (Some \<lparr>stage_id = STAGE_TRIGGER, cancelled = False\<rparr>)
                (Some req) rcap True = (StatusOK, r)
    \<and> aimee_skills_trigger_response_decode (Some r)
      = Some (if \<exists>h. header_text c = Some h \<and> trigger_policy t (text_or_empty s) (lines_of h)
              then 1 else 0)"
proof -
  note dec = trigger_request_roundtrip [OF assms(1-4)]
  have "t \<noteq> []"
    using assms(1) by (auto simp: aimee_skills_trigger_request_encode_def
        aimee_skills_trigger_request_size_def c_at_def Let_def split: option.splits if_splits)
  note policy = trigger_matches_policy [OF this assms(3), of c "Some (text_or_empty s)"]
  show ?thesis
    using assms(5,6) policy
    by (simp add: aimee_module_handler_def STAGE_CONTEXT_def STAGE_TRIGGER_def handle_trigger_def dec
        Let_def aimee_skills_trigger_response_encode_def aimee_skills_trigger_response_decode_def
        drop_fields TRIGGER_RESPONSE_LEN_def)
qed

lemma trigger_answer_is_policy_witness:
  "\<exists>req r. aimee_module_handler (\<lambda>n. True) (Some \<lparr>stage_id = STAGE_TRIGGER, cancelled = False\<rparr>)
       (Some req) 12 True = (StatusOK, r)
     \<and> aimee_skills_trigger_response_decode (Some r) = Some 1"
proof -
  let ?c = "''---'' @ nl # ''triggers:'' @ nl # '' tool: Bash'' @ nl # ''---''"
  have "0 < aimee_skills_trigger_request_size (Some ?c) (Some ''Bash'') None"
    by (simp add: aimee_skills_trigger_request_size_def c_at_def wire_lens)
  from trigger_request_encode_total [OF this order_refl] obtain req where
    e: "aimee_skills_trigger_request_encode (Some ?c) (Some ''Bash'') None
      (Some (aimee_skills_trigger_request_size (Some ?c) (Some ''Bash'') None)) = Some req" by blast
  have "header_text ?c = Some (''triggers:'' @ nl # '' tool: Bash'')"
    by code_simp
  moreover have "trigger_policy ''Bash'' [] (lines_of (''triggers:'' @ nl # '' tool: Bash''))"
  proof -
    have "skill_trigger_policy_matches_content (Some ?c) (Some ''Bash'') None" by code_simp
    with calculation trigger_matches_policy [of "''Bash''" ?c None] show ?thesis by simp
  qed
  ultimately show ?thesis
    using trigger_answer_is_policy [OF e, of "\<lambda>n. True" 12]
    by (auto simp: TRIGGER_RESPONSE_LEN_def)
qed

text \<open>
  C10: For both declared stages the Go process handler and the C handler give the same status
  and the same bytes on every request, whenever the response buffer is large enough, memory is
  available and the frontmatter is ASCII.
\<close>

theorem go_handler_parity:
  assumes "stage_id iv = STAGE_CONTEXT \<or> stage_id iv = STAGE_TRIGGER"
    and "TRIGGER_RESPONSE_LEN \<le> cap" "\<And>n. alloc n"
    and "\<And>c t s h. aimee_skills_trigger_request_decode (Some req) = Some (c, t, s)
           \<Longrightarrow> header_text (text_of_bytes c) = Some h \<Longrightarrow> ascii h"
  shows "go_Handle iv req = aimee_module_handler alloc (Some iv) (Some req) cap True"
proof -
  have "RESPONSE_LEN \<le> cap" using assms(2) by (simp add: wire_lens)
  then show ?thesis
    using assms(1) go_context_parity [of cap req] go_trigger_parity [OF assms(2,3,4)]
    by (auto simp: go_Handle_def aimee_module_handler_def STAGE_CONTEXT_def STAGE_TRIGGER_def)
qed

lemma go_handler_parity_witness:
  "go_Handle \<lparr>stage_id = STAGE_CONTEXT, cancelled = False\<rparr> (review_request (20, 10))
   = aimee_module_handler (\<lambda>n. True) (Some \<lparr>stage_id = STAGE_CONTEXT, cancelled = False\<rparr>)
       (Some (review_request (20, 10))) 12 True"
proof (rule go_handler_parity)
  have "aimee_skills_trigger_request_decode (Some (review_request (20, 10))) = None"
    by (simp add: aimee_skills_trigger_request_decode_def review_request_def
        aimee_skills_request_encode_def wire_lens)
  then show "\<And>c t s h. aimee_skills_trigger_request_decode (Some (review_request (20, 10))) = Some (c, t, s)
      \<Longrightarrow> header_text (text_of_bytes c) = Some h \<Longrightarrow> ascii h" by simp
qed (simp_all add: wire_lens)

text \<open>
  C11: The linter reports the messages of the content, each with a newline, cut to the buffer,
  and counts all of them whatever the size of the buffer; it counts none exactly when the name
  is a valid class-level name and the content has a frontmatter with that name and a description
  that starts with a trigger phrase, and a body without @file links, injection patterns or more
  than 1200 words.
\<close>

theorem lint_report:
  "skill_lint_content name content cap
     = (take (cap - 1) (concat (map (\<lambda>m. m @ [nl]) (lint_messages name content))),
        length (lint_messages name content))
   \<and> (snd (skill_lint_content (Some n) (Some c) cap) = 0 \<longleftrightarrow> lint_accepts n c)"
  using skill_lint_content_result [of name content cap] skill_lint_content_accepts [of n c cap]
  by (simp add: lint_result_def)

text \<open>
  C12: A valid skill name and a valid snapshot id are each one path component that is neither
  the current nor the parent directory; a valid support path starts with one of the four support
  directories and has no parent directory after it.
\<close>

theorem names_stay_inside:
  "(skill_name_is_valid (Some n) \<or> snapshot_id_ok (Some n)
      \<longrightarrow> path_parts n = [n] \<and> n \<noteq> ''..'' \<and> n \<noteq> ''.'')
   \<and> (skill_support_path_ok (Some p)
      \<longrightarrow> (\<exists>d rest. path_parts p = d # rest \<and> ''..'' \<notin> set rest
           \<and> d \<in> {''references'', ''templates'', ''scripts'', ''assets''}))"
  using skill_name_valid_parts skill_name_valid_chars(5,6) snapshot_id_parts(1,2,6) skill_support_path_parts
  by metis

lemma names_stay_inside_witness:
  "path_parts ''a.b'' = [''a.b''] \<and> (\<exists>d rest. path_parts ''scripts/x'' = d # rest \<and> ''..'' \<notin> set rest)"
proof -
  have "skill_name_is_valid (Some ''a.b'')" "skill_support_path_ok (Some ''scripts/x'')" by code_simp+
  with names_stay_inside [of "''a.b''" "''scripts/x''"] show ?thesis by blast
qed

text \<open>
  C13: A lifecycle pass over valid names leaves the file of a skill as it was unless at its turn
  its telemetry says it is not pinned and its last activity is at least the given, positive
  number of days old; so pinned and young skills are never moved.
\<close>

theorem lifecycle_moves:
  assumes "project_ready env fs r" "skill_name_is_valid (Some n)"
    and "list_all (\<lambda>m. skill_name_is_valid (Some m)) (skill_project_list env fs (Some r) SKILL_MAX_SKILLS)"
    and "skill_lifecycle_apply J env fs (Some r) sd ad has_out = (fs', out, rc)"
  shows "fs_at fs' (skill_file_place r n) = fs_at fs (skill_file_place r n)
    \<or> (\<exists>us vs u. skill_project_list env fs (Some r) SKILL_MAX_SKILLS = us @ n # vs
         \<and> skill_usage_get J env (fst (fold (lifecycle_step J env (Some r) sd ad) us (fs, lifecycle_zero))) (Some r) (Some n)
             = Some u
         \<and> \<not> pinned u \<and> 0 < ad \<and> ad \<le> lifecycle_age env u)"
proof (cases "fs_at fs' (skill_file_place r n) = fs_at fs (skill_file_place r n)")
  case False
  let ?L = "skill_project_list env fs (Some r) SKILL_MAX_SKILLS"
  have "given (Some r)" by (rule project_skills_whole(4) [OF assms(1)])
  with assms(4) have f: "fs' = fst (fold (lifecycle_step J env (Some r) sd ad) ?L (fs, lifecycle_zero))"
    by (auto simp: skill_lifecycle_apply_def split: prod.splits)
  have "fs_wf (fst (fs, lifecycle_zero))" using assms(1) by (simp add: project_ready_def)
  from lifecycle_fold_file [OF assms(1,2) this assms(3), of J sd ad] False f
  show ?thesis unfolding lifecycle_Archive by auto
qed simp

lemma lifecycle_moves_witness:
  "\<exists>fs' out rc. skill_lifecycle_apply json_ops ex_env ex_fs (Some ''/p'') 30 0 True = (fs', out, rc)
     \<and> fs_at fs' (skill_file_place ''/p'' ''note'') = Some (Reg (ex_text ''note''))"
proof -
  obtain fs' out rc where l: "skill_lifecycle_apply json_ops ex_env ex_fs (Some ''/p'') 30 0 True = (fs', out, rc)"
    by (metis prod.collapse)
  have v: "list_all (\<lambda>m. skill_name_is_valid (Some m)) (skill_project_list ex_env ex_fs (Some ''/p'') SKILL_MAX_SKILLS)"
    unfolding ex_listed using ex_valid(1) by simp
  from lifecycle_moves [OF ex_ready ex_valid(1) v l] ex_note l show ?thesis by simp
qed

text \<open>
  C14: Patching everywhere cuts the text at the non-overlapping occurrences of the old text,
  with none left inside a piece, and joins the pieces with the new text, one hit per cut;
  patching once replaces the first occurrence only; no hit is counted exactly when the old text
  does not occur.
\<close>

theorem patch_replaces:
  assumes "old \<noteq> []"
  shows "(\<exists>ps. ps \<noteq> [] \<and> tx = join_with old ps \<and> list_all (\<lambda>x. \<not> sublist old x) ps
      \<and> concat (snd (patch_loop True old new tx 0)) = join_with new ps
      \<and> fst (patch_loop True old new tx 0) = length ps - 1)
    \<and> (c_strstr tx old = Some i \<longrightarrow>
        patch_loop False old new tx 0 = (1, [take i tx, new, drop (i + length old) tx]))
    \<and> (fst (patch_loop everywhere old new tx 0) = 0 \<longleftrightarrow> \<not> sublist old tx)"
  using patch_loop_all [OF assms, of tx new 0] patch_loop_once [OF assms, of tx i new]
    patch_loop_none [OF assms, of everywhere new tx]
  by (auto simp: list_all_iff)

lemma patch_replaces_witness:
  "patch_loop False ''b'' ''xy'' ''abcb'' 0 = (1, [''a'', ''xy'', ''cb''])
   \<and> fst (patch_loop True ''b'' ''xy'' ''acc'' 0) = 0"
proof -
  have b: "''b'' \<noteq> ([] :: string)" by simp
  have "c_strstr ''abcb'' ''b'' = Some 1" "\<not> sublist ''b'' ''acc''"
    by (simp_all add: c_strstr_def sublist_Cons_right)
  with patch_replaces [OF b, of "''abcb''" "''xy''" 1 False] patch_replaces [OF b, of "''acc''" "''xy''" 0 True]
  show ?thesis by simp
qed

text \<open>
  C15: An evaluation that ends without an error counted the first 32 fixture files of the skill,
  all well formed, and passed exactly when every baseline shows the violation, every treatment
  complies and not every baseline complied already; the first failure is empty exactly when it
  passed, the change of compliance is between -1 and 1, and an evaluation that ends with an
  error did not pass.
\<close>

theorem eval_verdict:
  "case skill_eval_run J env fs pr n has_out of
     (out, Inl e) \<Rightarrow> \<not> passed out
   | (out, Inr u) \<Rightarrow> \<exists>dir ents fxs. skill_eval_dir env fs pr n SKILL_PATH_MAX = Some dir \<and> c_opendir env fs dir = Inr ents
       \<and> map (\<lambda>ent. fixture_of J env fs (c_buf SKILL_PATH_MAX (dir @ ''/'' @ ent)))
           (take SKILL_EVAL_MAX_CASES (filter ends_with_json ents)) = map Some fxs
       \<and> fxs \<noteq> [] \<and> scenarios out = length fxs
       \<and> (passed out \<longleftrightarrow> eval_passes fxs) \<and> (passed out \<longleftrightarrow> first_failure out = [])
       \<and> - 1 \<le> compliance_delta out \<and> compliance_delta out \<le> 1"
proof -
  obtain out rc where r: "skill_eval_run J env fs pr n has_out = (out, rc)" by fastforce
  show ?thesis
  proof (cases rc)
    case (Inl e)
    with eval_run_failed r show ?thesis by fastforce
  next
    case (Inr u)
    with r have "skill_eval_run J env fs pr n has_out = (out, Inr ())" by simp
    from eval_run_result [OF this] show ?thesis unfolding r Inr prod.case sum.case by metis
  qed
qed

text \<open>
  C16: Whatever the path and whichever calls fail (a call on a path always or never), writing a
  support file changes no existing entry outside the four support directories of the project and
  the telemetry.
\<close>

theorem support_write_contained:
  assumes "project_ready env fs r" "skill_name_is_valid (Some n)" "cstr p"
    and "skill_manage_write_file J env fs (Some r) (Some n) (Some p) content author = (fs', out)"
    and "fs_at fs x \<noteq> None" "x = [] \<or> \<not> sidecar_name (last x)" "\<not> in_support r x"
  shows "fs_at fs' x = fs_at fs x"
  using assms by (rule write_file_result)

lemma support_write_contained_witness:
  "\<exists>fs' out. skill_manage_write_file json_ops ex_env ex_fs (Some ''/p'') (Some ''note'') (Some ''../../x'') (Some ''y'') None
       = (fs', out) \<and> fs_at fs' [''p''] = Some Dir"
proof -
  obtain fs' out where w: "skill_manage_write_file json_ops ex_env ex_fs (Some ''/p'') (Some ''note'') (Some ''../../x'')
    (Some ''y'') None = (fs', out)" by fastforce
  have x: "fs_at ex_fs [''p''] = Some Dir" by (simp add: ex_fs_def fs_at_def)
  have "cstr ''../../x''" "fs_at ex_fs [''p''] \<noteq> None" "[''p''] = [] \<or> \<not> sidecar_name (last [''p''])"
    "\<not> in_support ''/p'' [''p'']"
    using x by (simp_all add: cstr_def sidecar_name_def in_support_def ex_place ex_path support_dirs_def)
  from support_write_contained [OF ex_ready ex_valid(1) this(1) w this(2-4)] w x show ?thesis by auto
qed

text \<open>
  C17: In a system without failures, writing a support file with a proper path for a flat
  project skill succeeds, and loading it for that skill gives back exactly the bytes written.
\<close>

theorem support_write_load:
  assumes "project_ready env fs r" "skill_name_is_valid (Some n)" "no_faults env"
    and "fs_at fs (skill_file_place r n) = Some (Reg old)" "no_manifest fs r n" "telemetry_room env fs r"
    and "json_prints J" "skill_support_path_ok (Some p)" "p = z @ CHR ''/'' # m" "name_ok m" "cstr p"
    and "length (project_skills r) + length p + 1 < SKILL_PATH_MAX" "support_room env fs r z m"
    and "c \<noteq> []" "length c \<le> SKILL_SUPPORT_MAX_SIZE" "n \<notin> set support_dirs" "cstr c" "\<not> sidecar_name m"
  shows "\<exists>fs'. skill_manage_write_file J env fs (Some r) (Some n) (Some p) (Some c) author = (fs', Inr ())
    \<and> skill_support_file_load env fs' (Some r) (Some n) (Some p) = Inr c"
proof -
  obtain fs' where w: "skill_manage_write_file J env fs (Some r) (Some n) (Some p) (Some c) author = (fs', Inr ())"
    "skill_resolve_path env fs' (Some r) (Some n) SKILL_PATH_MAX = Some (skill_file r n, SKILL_SOURCE_PROJECT)"
    using support_succeeds [OF assms(1-16)] by blast
  from support_roundtrip [OF assms(1-3) w(1) assms(9,10,18,11,17,12) w(2)] w(1) show ?thesis by blast
qed

lemma support_write_load_witness:
  "\<exists>fs'. skill_manage_write_file json_ops ex_env ex_fs (Some ''/p'') (Some ''note'') (Some ''references/a.md'')
       (Some ''text'') None = (fs', Inr ())
     \<and> skill_support_file_load ex_env fs' (Some ''/p'') (Some ''note'') (Some ''references/a.md'') = Inr ''text''"
  by (rule support_write_load [OF ex_ready ex_valid(1) ex_no_faults(1) ex_note ex_room(3) ex_edit_room(2) ex_json
        ex_support(2) _ _ _ _ ex_support(1)])
    (simp_all add: name_ok_def cstr_def ex_place SKILL_PATH_MAX_def SKILL_SUPPORT_MAX_SIZE_def support_dirs_def sidecar_name_def)

text \<open>
  C18: Archiving a project skill with a valid name and a file, in a project whose paths fit the
  buffers, whatever calls fail (a call on a path always or never), moves its file as a whole to
  the archive or leaves it in place: success means moved, and that no file of the name was in
  the archive unless the access() that looks for one failed (then an archived file of the name
  is overwritten); every failure means the file is still there with its content.
\<close>

theorem archive_outcomes:
  assumes "project_ready env fs r" "skill_name_is_valid (Some n)"
    and "fs_at fs (skill_file_place r n) = Some (Reg c)"
    and "skill_manage_archive J env fs (Some r) (Some n) absorbed = (fs', out)"
  shows "fs_wf fs' \<and> (if out = Inr () then fs_at fs' (skill_file_place r n) = None
         \<and> fs_at fs' (archive_place r n) = Some (Reg c)
         \<and> (\<not> fault env Access (archive_path r n) \<longrightarrow> fs_at fs (archive_place r n) = None)
       else fs_at fs' (skill_file_place r n) = Some (Reg c))"
  using archive_result [OF assms] by auto

lemma archive_outcomes_witness:
  "\<exists>fs' out. skill_manage_archive json_ops ex_env ex_fs (Some ''/p'') (Some ''note'') None = (fs', out)
     \<and> (fs_at fs' (archive_place ''/p'' ''note'') = Some (Reg (ex_text ''note''))
        \<or> fs_at fs' (skill_file_place ''/p'' ''note'') = Some (Reg (ex_text ''note'')))"
proof -
  obtain fs' out where a: "skill_manage_archive json_ops ex_env ex_fs (Some ''/p'') (Some ''note'') None = (fs', out)"
    by fastforce
  from archive_outcomes [OF ex_ready ex_valid(1) ex_note a] a show ?thesis
    by (auto split: if_splits)
qed

text \<open>
  C19: Editing a skill with a valid name in a project whose paths fit the buffers, whatever
  calls fail (a call on a path always or never): it changes, adds and removes nothing but the
  skill file, its temporary file, telemetry and missing directories on the way to the skills. It
  ends in one of three ways. With a message: the file is as it was. With success: access() saw
  the file, the linter accepts the new content, which is not empty and within the limit, the
  file now holds it, and the telemetry was written. With a failure and no message: the same, but
  after the file was written the update of the telemetry failed.
\<close>

theorem edit_outcomes:
  assumes "project_ready env fs r" "skill_name_is_valid (Some n)"
    and "skill_manage_edit J env fs (Some r) (Some n) (Some c) author = (fs', out)"
  shows "managed_only env r n fs fs'
    \<and> (case out of
         Inl (Some msg) \<Rightarrow> fs_at fs' (skill_file_place r n) = fs_at fs (skill_file_place r n)
       | _ \<Rightarrow> lint_accepts n c \<and> c_access env fs (skill_file r n) \<and> c \<noteq> [] \<and> length c \<le> SKILL_MAX_SIZE
            \<and> fs_at fs' (skill_file_place r n) = Some (Reg c))
    \<and> (case out of
         Inl (Some msg) \<Rightarrow> True
       | Inl None \<Rightarrow> (\<exists>h. skill_write_text_file env fs (skill_file r n) (Some c) SKILL_MAX_SIZE = (h, True)
            \<and> skill_record_mutation J env h (Some r) (Some n)
                (no_mutation\<lparr>actor := author, bump_patch := True, new_state := Some ''active''\<rparr>) = (fs', False))
       | Inr u \<Rightarrow> (\<exists>h. skill_write_text_file env fs (skill_file r n) (Some c) SKILL_MAX_SIZE = (h, True)
            \<and> skill_record_mutation J env h (Some r) (Some n)
                (no_mutation\<lparr>actor := author, bump_patch := True, new_state := Some ''active''\<rparr>) = (fs', True)))"
  using edit_result [OF assms] by (cases out) (auto split: option.splits)

lemma edit_outcomes_witness:
  "\<exists>fs'. skill_manage_edit json_ops ex_env ex_fs (Some ''/p'') (Some ''note'') (Some ex_patched) None = (fs', Inr ())
     \<and> fs_at fs' (skill_file_place ''/p'' ''note'') = Some (Reg ex_patched)"
proof -
  have "snd (skill_manage_edit json_ops ex_env ex_fs (Some ''/p'') (Some ''note'') (Some ex_patched) None) = Inr ()"
    by (rule edit_succeeds [OF ex_ready ex_valid(1) ex_no_faults(1) ex_note ex_edit_room(1) ex_json ex_patched_accepted])
  then obtain fs' where e: "skill_manage_edit json_ops ex_env ex_fs (Some ''/p'') (Some ''note'') (Some ex_patched) None
    = (fs', Inr ())" by (metis prod.collapse)
  from edit_outcomes [OF ex_ready ex_valid(1) e] e show ?thesis by auto
qed

text \<open>
  C20: In a system without failures, patching a project skill whose text contains the old text
  succeeds when the patched text passes the linter and fits, and the skill file then holds
  exactly what the replacement computes.
\<close>

theorem patch_applies:
  assumes "project_ready env fs r" "skill_name_is_valid (Some n)" "no_faults env"
    and "fs_at fs (skill_file_place r n) = Some (Reg tx)" "tx \<noteq> []" "cstr tx" "length tx \<le> SKILL_MAX_SIZE"
    and "edit_room env fs r n" "json_prints J" "\<And>ps. dstr_steal env ps = Some (concat ps)"
    and "old \<noteq> []" "cstr old" "sublist old tx" "c = concat (snd (patch_loop everywhere old new tx 0))"
    and "lint_accepts n c" "c \<noteq> []" "length c \<le> SKILL_MAX_SIZE"
  shows "\<exists>fs'. skill_manage_patch J env fs (Some r) (Some n) (Some old) (Some new) everywhere author = (fs', Inr ())
    \<and> managed_only env r n fs fs' \<and> fs_at fs' (skill_file_place r n) = Some (Reg c)"
proof -
  obtain fs' where p: "skill_manage_patch J env fs (Some r) (Some n) (Some old) (Some new) everywhere author = (fs', Inr ())"
    using patch_succeeds [OF assms, of author] by (metis prod.collapse)
  have wf: "fs_wf fs" "no_manifest fs r n" using assms(1,8) by (auto simp: project_ready_def edit_room_def)
  have "dstr_ok env" using assms(10) by (simp add: dstr_ok_def)
  from patch_result [OF assms(1,2) this p] obtain t where
    t: "managed_only env r n fs fs'" "skill_load env fs (Some r) (Some n) = Some t"
    "fs_at fs' (skill_file_place r n) = Some (Reg (concat (snd (patch_loop everywhere old new t 0))))" by blast
  have "t = tx" using flat_resolved(2) [OF assms(1-3) wf assms(4,5)] t(2) assms(6,7) by simp
  with t p assms(14) show ?thesis by blast
qed

lemma patch_applies_witness:
  "\<exists>fs'. skill_manage_patch json_ops ex_env ex_fs (Some ''/p'') (Some ''note'') (Some ''short'') (Some ''brief'') False None
       = (fs', Inr ()) \<and> fs_at fs' (skill_file_place ''/p'' ''note'') = Some (Reg ex_patched)"
proof -
  have o: "''short'' \<noteq> ([] :: string)" "cstr ''short''" by (simp_all add: cstr_def)
  from patch_applies [OF ex_ready ex_valid(1) ex_no_faults(1) ex_note ex_text_small ex_edit_room(1) ex_json ex_steal o
      ex_patch(3) ex_patch(2) [symmetric] ex_patched_accepted]
  show ?thesis by blast
qed

text \<open>
  C21: The gate allows a change exactly when its payload is an object whose evaluation result is
  an object that passed and reaches the threshold; so it refuses every capability stub as it is
  written, with the message that its fixtures have not run, whatever the threshold.
\<close>

theorem gate_refuses_stub:
  assumes "cjson_ok J" "skill_capability_stub_content J skill tool prompt = Some s"
  shows "(skill_change_eval_gate_allows J (Some payload) threshold \<longleftrightarrow>
      (\<exists>rt ev. cj_parse J payload = Some rt \<and> cj_is_object J rt \<and> cj_get J rt ''eval_result'' = Some ev
        \<and> cj_is_object J ev
        \<and> (is_true J (cj_get J ev ''passed'') \<or> string_of J (cj_get J ev ''status'') = Some ''pass'')
        \<and> threshold \<le> (case number_of J (cj_get J ev ''compliance_delta'') of None \<Rightarrow> 0 | Some d \<Rightarrow> d)))
    \<and> skill_change_eval_gate J (Some s) threshold = Some ''skill eval fixtures have not run''"
  using stub_refused [OF assms]
  by (auto simp: skill_change_eval_gate_allows_def skill_change_eval_gate_def is_object_def Let_def not_less
      split: option.splits if_splits)

lemma gate_refuses_stub_witness:
  "\<exists>s. skill_capability_stub_content json_ops ''web-search'' ''web_search'' [] = Some s
     \<and> \<not> skill_change_eval_gate_allows json_ops (Some s) (- 1)"
proof -
  obtain s where s: "skill_capability_stub_content json_ops ''web-search'' ''web_search'' [] = Some s"
    by (simp add: skill_capability_stub_content_def json_ops_def)
  from gate_refuses_stub [OF json_ops_ok s, of s "- 1"] s show ?thesis
    by (simp add: skill_change_eval_gate_allows_def)
qed

text \<open>
  C22: An autostub pass counts every scanned item once as existing, proposed, skipped or failed,
  names a first proposal exactly when it made one, and, when no file lookup fails, replaces or
  removes no entry that was there but temporary files of the process beside the proposals.
\<close>

theorem autostub_proposes:
  assumes "project_ready env fs r" "\<And>p. \<not> fault env Access p"
    and "skill_capability_autostub_from_json J env fs (Some r) snap has_out = (fs', out, rc)"
  shows "scanned out = existing out + proposed out + skipped out + stub_errors out
    \<and> (proposed out = 0 \<longleftrightarrow> first_proposal out = [])
    \<and> (fs_at fs x \<noteq> None \<and> (\<nexists>n. x = changes_place r @ [tmp_name env (change_name n)]) \<longrightarrow> fs_at fs' x = fs_at fs x)
    \<and> (rc = Inr () \<and> has_out \<longrightarrow> stub_errors out = 0)"
  using autostub_result [OF assms] by (simp add: autostub_tally_def proposals_only_def)

lemma autostub_proposes_witness:
  "\<exists>fs' out rc. skill_capability_autostub_from_json json_ops ex_env ex_fs (Some ''/p'')
       (Some (enc_json (JObj [(''prompts'', JArr [JObj [(''name'', JStr ''web'')]])]))) True = (fs', out, rc)
     \<and> scanned out = existing out + proposed out + skipped out + stub_errors out
     \<and> fs_at fs' (skill_file_place ''/p'' ''note'') = Some (Reg (ex_text ''note''))"
proof -
  let ?s = "Some (enc_json (JObj [(''prompts'', JArr [JObj [(''name'', JStr ''web'')]])]))"
  obtain fs' out rc where a: "skill_capability_autostub_from_json json_ops ex_env ex_fs (Some ''/p'') ?s True = (fs', out, rc)"
    by (metis prod.collapse)
  have "\<nexists>n. skill_file_place ''/p'' ''note'' = changes_place ''/p'' @ [tmp_name ex_env (change_name n)]"
    by (simp add: skill_file_place_def changes_place_def)
  with autostub_proposes [OF ex_ready ex_no_faults(2) a] a ex_note show ?thesis by auto
qed

text \<open>
  C23: On a body whose lines have at most 255 characters, the poison check accepts exactly when
  neither ignore phrase occurs in any letter case, the first disregard is not followed by
  instruction within 60 characters, and no line starts, after blanks, with a system marker.
\<close>

theorem poison_check_accepts:
  assumes "cstr b" "list_all (\<lambda>l. length l \<le> 255) (lines_of b)"
  shows "skill_body_poison_check (Some b) = None \<longleftrightarrow>
    \<not> sublist (map c_tolower ''ignore previous instructions'') (map c_tolower b)
    \<and> \<not> sublist (map c_tolower ''ignore all instructions'') (map c_tolower b)
    \<and> \<not> (\<exists>i j. c_strcasestr b ''disregard'' = Some i
           \<and> c_strcasestr (drop i b) ''instruction'' = Some j \<and> j < 60)
    \<and> \<not> list_ex system_line (lines_of b)"
  using assms by (rule poison_check_iff)

lemma poison_check_accepts_witness:
  "skill_body_poison_check (Some (''a'' @ [nl] @ ''  <system>b'')) \<noteq> None"
proof -
  let ?b = "''a'' @ [nl] @ ''  <system>b''"
  have l: "lines_of ?b = [''a'', ''  <system>b'']" by code_simp
  have "cstr ?b" "list_all (\<lambda>l. length l \<le> 255) (lines_of ?b)" by (simp_all add: l cstr_def del: append.simps)
  note acc = poison_check_accepts [OF this]
  have "list_ex system_line (lines_of ?b)" unfolding l by code_simp
  with acc show ?thesis by blast
qed

text \<open>
  C24: The single pass over the frontmatter with its six flags computes the declarative policy:
  the header has a triggers block, some tool line of that block names the tool if any tool line
  is there, and some pattern line matches if any is there; text without frontmatter never
  matches.
\<close>

theorem trigger_policy_correct:
  assumes "t \<noteq> []" "cstr t"
  shows "skill_trigger_policy_matches_content (Some c) (Some t) s
    \<longleftrightarrow> (\<exists>h. header_text c = Some h \<and> trigger_policy t (text_or_empty s) (lines_of h))"
  using trigger_matches_policy [OF assms, of c s] by (simp add: text_or_empty_def)

lemma trigger_policy_correct_witness:
  "\<not> (\<exists>h. header_text (''---'' @ nl # ''triggers:'' @ nl # '' tool: Bash'' @ nl # ''---'') = Some h
        \<and> trigger_policy ''Read'' [] (lines_of h))"
proof -
  have "\<not> skill_trigger_policy_matches_content
      (Some (''---'' @ nl # ''triggers:'' @ nl # '' tool: Bash'' @ nl # ''---'')) (Some ''Read'') None"
    by code_simp
  with trigger_policy_correct [of "''Read''" _ None] show ?thesis by simp
qed

text \<open>
  C25: A trigger request frame is accepted by the decoder exactly when it is, byte for byte, the
  frame the encoder writes for the three texts it returns; so encoding and decoding are inverse
  and no text has two frames.
\<close>

theorem trigger_request_codec:
  "aimee_skills_trigger_request_decode (Some bs) = Some (bytes_of_text c, bytes_of_text t, bytes_of_text s)
   \<longleftrightarrow> cstr c \<and> cstr t \<and> cstr s
     \<and> aimee_skills_trigger_request_encode (Some c) (Some t) (Some s) (Some (length bs)) = Some bs"
  using trigger_request_canonical [of bs "bytes_of_text c" "bytes_of_text t" "bytes_of_text s" "length bs"]
    trigger_request_roundtrip [of c t "Some s" "Some (length bs)" bs]
  by auto

text \<open>
  C26: End to end, a review request the client encodes is answered with status OK, and the
  answer the client decodes is 1 exactly when both signed 32-bit operands are positive and the
  interval divides the count, else 0; counts and intervals that are negative as signed words
  never fire.
\<close>

theorem review_nudge_fires:
  assumes "aimee_skills_request_encode count interval cap = Some req" "RESPONSE_LEN \<le> rcap"
  shows "\<exists>r. aimee_module_handler alloc (Some \<lparr>stage_id = STAGE_CONTEXT, cancelled = False\<rparr>)
                (Some req) rcap True = (StatusOK, r)
    \<and> aimee_skills_response_decode (Some r)
      = Some (if 0 < sint interval \<and> 0 < sint count \<and> sint interval dvd sint count then 1 else 0)"
proof -
  have req: "req = review_request (count, interval)"
    using assms(1) by (auto simp: review_request_def aimee_skills_request_encode_def wire_lens
        split: option.splits if_splits)
  from handle_review_ok [OF assms(2)] obtain r where r: "handle_review (Some req) rcap = (StatusOK, r)"
    unfolding req by blast
  have "review_fires count interval \<longleftrightarrow> 0 < sint interval \<and> 0 < sint count \<and> sint interval dvd sint count"
    by (simp add: review_fires_def dvd_eq_mod_eq_0)
  with handle_review_answer [OF r] r show ?thesis
    by (simp add: aimee_module_handler_def req review_request_fields)
qed

lemma review_nudge_fires_witness:
  "\<exists>req r. aimee_module_handler (\<lambda>n. True) (Some \<lparr>stage_id = STAGE_CONTEXT, cancelled = False\<rparr>)
       (Some req) 8 True = (StatusOK, r) \<and> aimee_skills_response_decode (Some r) = Some 1"
proof -
  have "aimee_skills_request_encode 20 10 (Some 16) = Some (review_request (20, 10))"
    by (simp add: review_request_def aimee_skills_request_encode_def wire_lens)
  from review_nudge_fires [OF this, of 8 "\<lambda>n. True"] show ?thesis
    by (auto simp: RESPONSE_LEN_def)
qed

text \<open>
  C27: Injecting a skill that loads gives the base prompt, ended by a newline and an empty line
  when there is one, the heading with the name and the text of the skill, counts one activation
  and records it in the telemetry; a skill that does not load leaves files and counter alone and
  gives a copy of the base prompt.
\<close>

theorem inject_prompt:
  assumes "\<And>ps. dstr_steal env ps = Some (concat ps)" "pred_option cstr base"
  shows "skill_inject J env fs m pr base (Some n) =
    (case skill_load env fs pr (Some n) of
       Some c \<Rightarrow> (fst (skill_record_activation J env fs pr (Some n)),
                  m\<lparr>self_activations_total := self_activations_total m + 1\<rparr>, Some (prompt_with base n c))
     | None \<Rightarrow> (fs, m, case base of None \<Rightarrow> None | Some b \<Rightarrow> safe_strdup env b))"
proof (cases "skill_load env fs pr (Some n)")
  case None
  then show ?thesis by (simp add: inject_missing)
next
  case (Some c)
  have "dstr_ok env" "dstr_steal env (inject_pieces base n c) \<noteq> None" using assms(1) by (simp_all add: dstr_ok_def)
  from inject_result [OF this assms(2) Some, of J m] show ?thesis using Some by (simp add: prod_eq_iff)
qed

lemma inject_prompt_witness:
  "\<forall>m. snd (snd (skill_inject json_ops ex_env ex_fs m (Some ''/p'') (Some ''Hi'') (Some ''note'')))
     = Some (''Hi'' @ [nl, nl] @ ''### ACTIVE SKILL: note'' @ [nl] @ ex_text ''note'')"
  using inject_prompt [OF ex_steal, of "Some ''Hi''" json_ops ex_fs _ "Some ''/p''" "''note''"] ex_load
  by (simp add: prompt_with_def cstr_def)

text \<open>
  C28: An import that succeeds is the creation of the skill whose name the frontmatter of the
  content gives: the linter accepts the content under that name, and that name, cut to the
  buffer, is what the caller gets.
\<close>

theorem import_is_create:
  assumes "skill_import_content J env fs pr (Some c) author len = (fs', Inr out)"
  shows "\<exists>n. skill_manage_create J env fs pr (Some n) (Some c) author = (fs', Inr ())
    \<and> lint_accepts n c \<and> out = c_buf len n"
  using assms by (rule import_creates)

lemma import_is_create_witness:
  "\<exists>fs' out n. skill_import_content json_ops ex_env ex_fs (Some ''/p'') (Some (ex_text ''fresh'')) None 64 = (fs', Inr out)
     \<and> lint_accepts n (ex_text ''fresh'') \<and> out = c_buf 64 n"
proof -
  obtain fs' where c: "skill_manage_create json_ops ex_env ex_fs (Some ''/p'') (Some ''fresh'') (Some (ex_text ''fresh'')) None
    = (fs', Inr ())"
    using create_succeeds [OF ex_ready ex_valid(2) ex_no_faults(1) ex_accepted(1) ex_room(1)] by (metis prod.collapse)
  have "fm_header (ex_text ''fresh'') = Some (4, 41)" "fm_opens (ex_text ''fresh'')"
    "skill_lint_line_value (take 41 (drop 4 (ex_text ''fresh''))) ''name'' SKILL_NAME_MAX = (True, ''fresh'')"
    "given (Some (ex_text ''fresh''))" by code_simp+
  then have i: "skill_import_content json_ops ex_env ex_fs (Some ''/p'') (Some (ex_text ''fresh'')) None 64
    = (fs', Inr (c_buf 64 ''fresh''))"
    using c by (simp add: skill_import_content_def Let_def)
  from import_is_create [OF i] i show ?thesis by blast
qed

text \<open>
  C29: A name resolves to the first regular file among its candidates: in the skills directory
  of the project, if one is given, then in the directory of the user, then in the one of the
  bundled skills, which the first environment variable that is set names, and in each of them
  NAME/SKILL.md before NAME.md, every directory cut to 511 characters and the path to the
  buffer. The place the file belongs to is returned with it, and nothing resolves when no
  candidate is a regular file that stat can see. Strings from outside are C strings and the name
  is not empty.
\<close>

theorem resolve_order:
  assumes "env_cstr env" "pred_option cstr pr" "cstr n" "n \<noteq> []" "0 < k"
  shows "skill_resolve_path env fs pr (Some n) k
    = List.find (\<lambda>(p, src). \<not> fault env Stat p \<and> (\<exists>q s. locate fs p = Inr q \<and> fs_at fs q = Some (Reg s)))
        (skill_candidates env pr n k)"
  using resolve_first [OF assms, of fs] by (simp add: skill_regular_file_iff)

lemma resolve_order_witness:
  "List.find (\<lambda>(p, src). \<not> fault ex_env Stat p \<and> (\<exists>q s. locate ex_plain p = Inr q \<and> fs_at ex_plain q = Some (Reg s)))
     (skill_candidates ex_env (Some ''/p'') ''note'' SKILL_PATH_MAX)
   = Some (skill_file ''/p'' ''note'', SKILL_SOURCE_PROJECT)"
  using resolve_order [OF ex_env_cstr, of "Some ''/p''" "''note''" SKILL_PATH_MAX ex_plain]
  by (simp add: ex_with_resolved(1) cstr_def SKILL_PATH_MAX_def [symmetric]) (simp add: SKILL_PATH_MAX_def)

text \<open>
  C30: What is loaded is never more than 102400 characters, a C string, and the start of the
  nonempty file the name resolves to, cut at the first NUL byte. Without failures every nonempty
  file a name resolves to loads, whatever its length, as its first 102400 bytes cut at the first
  NUL byte: a longer file is cut and not refused.
\<close>

theorem load_bounded:
  shows "(case skill_load env fs pr name of
       None \<Rightarrow> True
     | Some content \<Rightarrow> length content \<le> 102400 \<and> cstr content
         \<and> (\<exists>p src q s k. skill_resolve_path env fs pr name SKILL_PATH_MAX = Some (p, src) \<and> locate fs p = Inr q
              \<and> fs_at fs q = Some (Reg s) \<and> s \<noteq> [] \<and> content = c_string (take k s)))
    \<and> (no_faults env \<and> skill_resolve_path env fs pr name SKILL_PATH_MAX = Some (p, src) \<and> locate fs p = Inr q
         \<and> fs_at fs q = Some (Reg s) \<and> s \<noteq> []
       \<longrightarrow> skill_load env fs pr name = Some (c_string (take 102400 s)))"
proof (intro conjI impI)
  show "no_faults env \<and> skill_resolve_path env fs pr name SKILL_PATH_MAX = Some (p, src) \<and> locate fs p = Inr q
      \<and> fs_at fs q = Some (Reg s) \<and> s \<noteq> [] \<Longrightarrow> skill_load env fs pr name = Some (c_string (take 102400 s))"
    using skill_load_resolved [of env fs pr name p src q s] by (simp add: SKILL_MAX_SIZE_def)
  show "case skill_load env fs pr name of
       None \<Rightarrow> True
     | Some content \<Rightarrow> length content \<le> 102400 \<and> cstr content
         \<and> (\<exists>p src q s k. skill_resolve_path env fs pr name SKILL_PATH_MAX = Some (p, src) \<and> locate fs p = Inr q
              \<and> fs_at fs q = Some (Reg s) \<and> s \<noteq> [] \<and> content = c_string (take k s))"
  proof (cases "skill_load env fs pr name")
    case (Some content)
    from skill_load_Some [OF Some] obtain p src q s k where
      "skill_resolve_path env fs pr name SKILL_PATH_MAX = Some (p, src)" "locate fs p = Inr q"
      "fs_at fs q = Some (Reg s)" "s \<noteq> []" "content = c_string (take k s)" by metis
    moreover have "length content \<le> 102400" using skill_load_bounded(2) [OF Some] by (simp add: SKILL_MAX_SIZE_def)
    ultimately show ?thesis
      using skill_load_bounded(1) [OF Some] unfolding Some option.case by blast
  qed simp
qed

lemma load_bounded_witness:
  "\<forall>m. skill_load ex_env (ex_with (replicate (102400 + Suc m) (CHR ''x''))) (Some ''/p'') (Some ''note'')
     = Some (replicate 102400 (CHR ''x''))"
proof
  fix m
  define k :: nat where "k = 102400"
  let ?s = "replicate (k + Suc m) (CHR ''x'')"
  have "fs_at (ex_with ?s) (skill_file_place ''/p'' ''note'') = Some (Reg ?s)" by (rule plain_room(3))
  moreover have "?s \<noteq> []" by simp
  ultimately have "skill_load ex_env (ex_with ?s) (Some ''/p'') (Some ''note'') = Some (c_string (take k ?s))"
    using load_bounded [of ex_env "ex_with ?s" "Some ''/p''" "Some ''note''" "skill_file ''/p'' ''note''"
        SKILL_SOURCE_PROJECT "skill_file_place ''/p'' ''note''" ?s] ex_with_resolved [of ?s] ex_no_faults(1)
    unfolding k_def by blast
  moreover have "take k ?s = replicate k (CHR ''x'')" unfolding take_replicate by simp
  then have "c_string (take k ?s) = replicate k (CHR ''x'')" by (simp add: c_string_def takeWhile_replicate)
  ultimately show "skill_load ex_env (ex_with (replicate (102400 + Suc m) (CHR ''x''))) (Some ''/p'') (Some ''note'')
      = Some (replicate 102400 (CHR ''x''))" unfolding k_def by metis
qed

text \<open>
  C31: The list of skills holds the first names of the project, user and bundled directories in
  that order, each once, up to the capacity, and every name is shorter than 64 characters.
\<close>

theorem list_first_names:
  "skill_list env fs pr cap = first_names cap
     (dir_skills env fs (if given pr then Some (project_skills (the pr)) else None)
      @ dir_skills env fs (Some (user_skills env)) @ dir_skills env fs (Some (skill_bundled_dir env)))
   \<and> distinct (skill_list env fs pr cap) \<and> length (skill_list env fs pr cap) \<le> cap
   \<and> set (skill_list env fs pr cap) \<subseteq> {n. length n < SKILL_NAME_MAX}"
  using skill_list_first_names skill_list_names by blast



text \<open>
  C33: A lifecycle pass considers every listed skill once and at most 64 of them, raises at most
  one further counter for each, and reports a failure exactly when the caller asked for the
  counts and an update failed.
\<close>

theorem lifecycle_counts:
  assumes "given pr" "skill_lifecycle_apply J env fs pr sd ad has_out = (fs', out, rc)"
  shows "considered out = length (skill_project_list env fs pr SKILL_MAX_SKILLS) \<and> considered out \<le> 64
    \<and> stale_marked out + archived out + skipped_pinned out + errors out \<le> considered out
    \<and> (rc = Inr () \<longleftrightarrow> \<not> (has_out \<and> 0 < errors out))"
proof -
  have zero: "lifecycle_tally 0 (snd (fs, lifecycle_zero))" by (simp add: lifecycle_tally_def lifecycle_zero_def)
  obtain f o1 where f: "fold (lifecycle_step J env pr sd ad) (skill_project_list env fs pr SKILL_MAX_SKILLS)
      (fs, lifecycle_zero) = (f, o1)" by fastforce
  from assms f have r: "out = o1" "rc = Inr () \<longleftrightarrow> \<not> (has_out \<and> 0 < errors out)"
    by (auto simp: skill_lifecycle_apply_def split: if_splits)
  from lifecycle_fold_tally [OF zero, of "skill_project_list env fs pr SKILL_MAX_SKILLS" J env pr sd ad] f r
    skill_project_list_length [of env fs pr SKILL_MAX_SKILLS]
  show ?thesis by (simp add: lifecycle_tally_def SKILL_MAX_SKILLS_def)
qed

lemma lifecycle_counts_witness:
  "\<exists>fs' out rc. skill_lifecycle_apply json_ops ex_env ex_fs (Some ''/p'') 30 90 True = (fs', out, rc) \<and> considered out \<le> 64"
proof -
  obtain fs' out rc where l: "skill_lifecycle_apply json_ops ex_env ex_fs (Some ''/p'') 30 90 True = (fs', out, rc)"
    by (metis prod.collapse)
  from lifecycle_counts [OF project_skills_whole(4) [OF ex_ready] l] l show ?thesis by blast
qed

text \<open>
  C34: Reading a timestamp in the form the clock prints it gives back its fields. When these are
  a time timegm can tell, its age is -1 if it is in the future, and the number of whole days
  since then as long as that number is an int, that is for fewer than 86400 * 2^31 seconds.
\<close>

theorem timestamp_roundtrip:
  assumes "y < 10000" "mo < 100" "d < 100" "h < 100" "mi < 100" "s < 100"
    and "timegm (int y) (int mo) (int d) (int h) (int mi) (int s) = past" "past \<noteq> -1"
  shows "scan_timestamp (utc_text y mo d h mi s) = Some (int y, int mo, int d, int h, int mi, int s)
    \<and> (now < past \<longrightarrow> skill_timestamp_age_days (utc_text y mo d h mi s) now = -1)
    \<and> (past \<le> now \<and> now - past < 86400 * 2 ^ 31
        \<longrightarrow> skill_timestamp_age_days (utc_text y mo d h mi s) now = (now - past) div 86400)"
  using scan_utc_text [OF assms(1-6)] timestamp_age [OF assms] by simp

lemma timestamp_roundtrip_witness:
  "skill_timestamp_age_days (utc_text 2026 1 1 0 0 0) (1767225600 + 200000) = 2"
proof -
  have "timegm (int 2026) (int 1) (int 1) (int 0) (int 0) (int 0) = 1767225600"
    by (simp add: timegm_def days_before_year_def days_before_month_def)
  from timestamp_roundtrip [OF _ _ _ _ _ _ this, of "1767225600 + 200000"] show ?thesis by simp
qed

text \<open>
  C35: The slug of any nonempty tool name is a valid skill name of lower-case letters, digits
  and inner hyphens, and the slug of a slug is itself.
\<close>

theorem slug_is_name:
  assumes "t \<noteq> []" "cstr t"
  shows "skill_name_is_valid (Some (skill_capability_slug (Some t) SKILL_NAME_MAX))
    \<and> slug_text (skill_capability_slug (Some t) SKILL_NAME_MAX)
    \<and> skill_capability_slug (Some (skill_capability_slug (Some t) SKILL_NAME_MAX)) SKILL_NAME_MAX
      = skill_capability_slug (Some t) SKILL_NAME_MAX"
  using skill_capability_slug_text [OF assms] slug_text_valid slug_of_slug by (simp add: SKILL_NAME_MAX_def)

lemma slug_is_name_witness:
  "skill_name_is_valid (Some (skill_capability_slug (Some ''_Web.Search!'') SKILL_NAME_MAX))"
  using slug_is_name [of "''_Web.Search!''"] by simp

text \<open>
  C36: A skill name is valid exactly when it has 1 to 63 characters, starts with a lower-case
  letter or a digit, and has only lower-case letters, digits, dots, underscores and hyphens; a
  snapshot id exactly when it has 1 to 128 letters, digits, hyphens, underscores and dots, is
  not the current directory and has no two dots in a row.
\<close>

theorem skill_names_type:
  "(skill_name_is_valid (Some n)
      \<longleftrightarrow> n \<noteq> [] \<and> length n < 64 \<and> (c_islower (hd n) \<or> c_isdigit (hd n))
        \<and> set n \<subseteq> {c. c_islower c \<or> c_isdigit c \<or> c \<in> {CHR ''.'', CHR ''_'', CHR ''-''}})
   \<and> (snapshot_id_ok (Some s)
      \<longleftrightarrow> s \<noteq> [] \<and> length s \<le> 128 \<and> s \<noteq> ''.'' \<and> \<not> sublist ''..'' s
        \<and> set s \<subseteq> {c. c_isalnum c \<or> c \<in> {CHR ''-'', CHR ''_'', CHR ''.''}})"
  unfolding skill_name_is_valid_iff snapshot_id_ok_iff by blast

text \<open>
  C37: The three scans of the body agree with what they look for: the word counter gives the
  number of maximal runs of non-space characters, the injection test holds exactly when a known
  pattern occurs with any letter case, and the link test exactly when an @ is followed by a
  character a path can start with.
\<close>

theorem lint_scans:
  "skill_lint_word_count body = length (text_words body)
   \<and> (skill_lint_has_injection_pattern body
       \<longleftrightarrow> (\<exists>pat. pat \<in> set injection_patterns \<and> sublist (map c_tolower pat) (map c_tolower body)))
   \<and> (skill_lint_has_at_link body
       \<longleftrightarrow> (\<exists>a d r. body = a @ CHR ''@'' # d # r
             \<and> (c_isalnum d \<or> d \<in> {CHR ''.'', CHR ''/'', CHR ''_'', CHR ''-''})))"
  using skill_lint_word_count_words [of body] skill_lint_has_injection_pattern_iff [of body]
    skill_lint_has_at_link_iff [of body]
  by blast

text \<open>
  C38: The token scan finds a needle exactly when the needle is a whole token of the value: a
  nonempty run of token characters delimited on both sides by the end of the value or another
  character.
\<close>

theorem trigger_tokens:
  "value_contains_token v needle \<longleftrightarrow> token_of needle v"
  by (rule value_contains_token_iff)

text \<open>
  C39: The path buffers of the rollback hold 511 characters: for a directory whose path has 511
  characters and that has an entry, remove_tree removes nothing and reports a failure, whichever
  calls fail and however many files can be open. For the cut path of every entry is the
  directory itself.
\<close>

theorem remove_tree_cut_path:
  assumes "length path = 511" "locate fs path = Inr q" "is_dir fs q" "fs_names fs q \<noteq> []" "fs_wf fs"
  shows "remove_tree env fds fs path = (fs, False) \<and> child_path path n = path"
  using remove_tree_stuck [OF assms] child_path_full [OF assms(1)] by simp

lemma remove_tree_cut_path_witness:
  "remove_tree ex_env 1024
     [([replicate 255 (CHR ''a'')], Dir), ([replicate 255 (CHR ''a''), replicate 254 (CHR ''b'')], Dir),
      ([replicate 255 (CHR ''a''), replicate 254 (CHR ''b''), ''x''], Reg [])]
     ([] @ CHR ''/'' # replicate 255 (CHR ''a'') @ CHR ''/'' # replicate 254 (CHR ''b''))
   = ([([replicate 255 (CHR ''a'')], Dir), ([replicate 255 (CHR ''a''), replicate 254 (CHR ''b'')], Dir),
      ([replicate 255 (CHR ''a''), replicate 254 (CHR ''b''), ''x''], Reg [])], False)"
  (is "remove_tree ex_env 1024 ?fs ?p = _")
proof -
  let ?a = "replicate 255 (CHR ''a'')" and ?b = "replicate 254 (CHR ''b'')"
  have ne: "?a \<noteq> []" "?b \<noteq> []" "?a \<noteq> ''.''" "?b \<noteq> ''.''" "?a \<noteq> ''..''" "?b \<noteq> ''..''"
    by (auto dest!: arg_cong [of _ _ length])
  then have parts: "path_parts ?p = [?a, ?b]" unfolding path_parts_append by (simp add: path_parts_single path_parts_def [of "[]"])
  have at: "fs_at ?fs [?a] = Some Dir" "fs_at ?fs [?a, ?b] = Some Dir" by (simp_all add: fs_at_def)
  have l: "locate ?fs ?p = Inr [?a, ?b]" unfolding locate_def parts using ne at by simp
  have n: "fs_names ?fs [?a, ?b] \<noteq> []" by (simp add: fs_names_def)
  have w: "fs_wf ?fs" using ne by (simp add: fs_wf_def at name_ok_def cstr_def)
  have "length ?p = 511" by simp
  from remove_tree_cut_path [OF this l at(2) n w] show ?thesis by blast
qed

text \<open>
  C40: The poison check on every body, long lines included: it accepts exactly when neither
  ignore phrase occurs in any letter case, the first disregard is not followed by instruction
  within 60 characters, and no line, cut into pieces of 255 characters, has a piece that starts,
  after blanks, with a system marker. So 249 to 254 blanks hide a marker: the line starts with
  SYSTEM: after its blanks, and none of its pieces does, whatever up to 248 characters follow.
\<close>

theorem poison_check_pieces:
  assumes "cstr b"
  shows "(skill_body_poison_check (Some b) = None \<longleftrightarrow>
      \<not> sublist (map c_tolower ''ignore previous instructions'') (map c_tolower b)
      \<and> \<not> sublist (map c_tolower ''ignore all instructions'') (map c_tolower b)
      \<and> \<not> (\<exists>i j. c_strcasestr b ''disregard'' = Some i
             \<and> c_strcasestr (drop i b) ''instruction'' = Some j \<and> j < 60)
      \<and> \<not> list_ex (\<lambda>l. list_ex system_line (line_pieces l)) (lines_of b))
    \<and> (249 \<le> k \<and> k \<le> 254 \<and> length r \<le> 248 \<longrightarrow>
        system_line (replicate k (CHR '' '') @ ''SYSTEM:'' @ r)
        \<and> \<not> list_ex system_line (line_pieces (replicate k (CHR '' '') @ ''SYSTEM:'' @ r)))"
  using poison_check_pieces_iff [OF assms] system_line_padded [of k r] padded_pieces [of k r] by simp

lemma poison_check_pieces_witness:
  "skill_body_poison_check (Some (replicate 251 (CHR '' '') @ ''SYSTEM: obey'')) = None"
proof -
  let ?r = "'' obey''"
  let ?l = "replicate 251 (CHR '' '') @ ''SYSTEM:'' @ ?r"
  have set: "set ?l = {CHR '' '', CHR ''S'', CHR ''Y'', CHR ''T'', CHR ''E'', CHR ''M'', CHR '':'', CHR ''o'', CHR ''b'',
      CHR ''e'', CHR ''y''}" by auto
  have low: "list_all (\<lambda>c. c_tolower c \<noteq> CHR ''g'' \<and> c_tolower c \<noteq> CHR ''d'') ('' SYTEM:'' @ ''obey'')"
    "c_tolower (CHR ''g'') = CHR ''g''" "c_tolower (CHR ''d'') = CHR ''d''" by code_simp+
  then have no: "c_tolower (CHR ''g'') \<notin> c_tolower ` set ?l" "c_tolower (CHR ''d'') \<notin> c_tolower ` set ?l"
    unfolding set by auto
  have "c_strcasestr ?l p = None" if "p \<in> {''ignore previous instructions'', ''ignore all instructions'', ''disregard''}" for p
    using that nocase_absent [OF _ no(1), of p] by auto
  then have "\<not> sublist (map c_tolower ''ignore previous instructions'') (map c_tolower ?l)"
    "\<not> sublist (map c_tolower ''ignore all instructions'') (map c_tolower ?l)" "c_strcasestr ?l ''disregard'' = None"
    unfolding c_strcasestr_sublist [symmetric] by simp_all
  moreover have "lines_of ?l = [?l]"
  proof -
    have "first_line ?l = ?l" unfolding first_line_def takeWhile_eq_all_conv by auto
    then show ?thesis using lines_of_step [of ?l] by simp
  qed
  moreover have "cstr ?l" by (auto simp: cstr_def)
  ultimately have "skill_body_poison_check (Some ?l) = None"
    using poison_check_pieces [of ?l 251 ?r] by auto
  then show ?thesis by simp
qed

end
